(* ===== verification/Prelude.thy ===== *)
theory Prelude
  imports Main "HOL-Library.Word"
begin

text \<open>
  The vocabulary every component of the kernel model shares: the machine integers of the
  riscv32 target, the outcome of a kernel function (a value and the next state, or the fault that
  stops the machine), the overflow-checked arithmetic of Rust's dev profile, page arithmetic on
  addresses, and a locale for invariants of transition systems. The lemmas at the end are the
  generic word and list facts the component proofs rest on.
\<close>

unbundle bit_operations_syntax

section \<open>Machine integers and outcomes\<close>

text \<open>The target is riscv32ima, so \<open>usize\<close> has 32 bits.\<close>

type_synonym u8 = "8 word"
type_synonym u32 = "32 word"
type_synonym usize = "32 word"

text \<open>
  What can stop the kernel: an explicit or implied \<open>panic!\<close> (with its message), an
  arithmetic overflow (a panic of the dev profile), a spin lock that is taken while this single
  hart already holds it, and a recursion that exhausts the stack.
\<close>

datatype fault = Panic string | Overflow | Deadlock | StackOverflow

text \<open>Rust's \<open>Result<T, ()>\<close>.\<close>

datatype 'a rresult = Ok 'a | Err

type_synonym ('s, 'a) outcome = "fault + 'a \<times> 's"

text \<open>Sequencing: a fault of the first part is the fault of the whole.\<close>

definition bind_ok :: "fault + 'a \<Rightarrow> ('a \<Rightarrow> fault + 'b) \<Rightarrow> fault + 'b" where
  "bind_ok m f = (case m of Inl e \<Rightarrow> Inl e | Inr x \<Rightarrow> f x)"

text \<open>Overflow-checked arithmetic, as the dev profile compiles \<open>+\<close>, \<open>-\<close> and \<open>*\<close>.\<close>

definition add_chk :: "usize \<Rightarrow> usize \<Rightarrow> fault + usize" where
  "add_chk a b = (if unat a + unat b < 2 ^ 32 then Inr (a + b) else Inl Overflow)"

definition sub_chk :: "usize \<Rightarrow> usize \<Rightarrow> fault + usize" where
  "sub_chk a b = (if b \<le> a then Inr (a - b) else Inl Overflow)"

definition mul_chk :: "usize \<Rightarrow> usize \<Rightarrow> fault + usize" where
  "mul_chk a b = (if unat a * unat b < 2 ^ 32 then Inr (a * b) else Inl Overflow)"

text \<open>\<open>Option::unwrap\<close> / \<open>expect\<close>, and \<open>usize::is_multiple_of\<close>.\<close>

definition unwrap :: "string \<Rightarrow> 'a option \<Rightarrow> fault + 'a" where
  "unwrap msg x = (case x of None \<Rightarrow> Inl (Panic msg) | Some v \<Rightarrow> Inr v)"

definition is_multiple_of :: "usize \<Rightarrow> usize \<Rightarrow> bool" where
  "is_multiple_of a b \<longleftrightarrow> (if b = 0 then a = 0 else a mod b = 0)"

text \<open>\<open>NonNull::new\<close>: the null pointer has no \<open>NonNull\<close>.\<close>

definition NonNull_new :: "usize \<Rightarrow> usize option" where
  "NonNull_new p = (if p = 0 then None else Some p)"

section \<open>Page arithmetic\<close>

text \<open>The base address of the 4 KiB page an address lies in, and page-aligned addresses.\<close>

definition page_of :: "usize \<Rightarrow> usize" where
  "page_of a = a AND NOT (mask 12)"

definition page_aligned :: "usize \<Rightarrow> bool" where
  "page_aligned a \<longleftrightarrow> a AND mask 12 = 0"

definition word_aligned :: "usize \<Rightarrow> bool" where
  "word_aligned a \<longleftrightarrow> a AND mask 2 = 0"

section \<open>Outcomes: rewriting and inversion\<close>

named_theorems outcome_simps \<open>unfolding of the outcome combinators\<close>
named_theorems page_simps \<open>page arithmetic on 32-bit addresses\<close>

lemma bind_ok_Inr [simp]: "bind_ok (Inr x) f = f x"
  and bind_ok_Inl [simp]: "bind_ok (Inl e) f = Inl e"
  by (simp_all add: bind_ok_def)

lemma bind_ok_eq_Inr_iff: "bind_ok m f = Inr y \<longleftrightarrow> (\<exists>x. m = Inr x \<and> f x = Inr y)"
  by (cases m) auto

lemma bind_okE [elim]:
  assumes "bind_ok m f = Inr y"
  obtains x where "m = Inr x" and "f x = Inr y"
  using assms by (auto simp: bind_ok_eq_Inr_iff)

lemma bind_ok_cong [fundef_cong]:
  assumes "m = m'" and "\<And>x. m' = Inr x \<Longrightarrow> f x = f' x"
  shows "bind_ok m f = bind_ok m' f'"
  using assms by (cases m') auto

lemma bind_ok_assoc [simp]:
  "bind_ok (bind_ok m f) g = bind_ok m (\<lambda>x. bind_ok (f x) g)"
  by (cases m) auto

lemma bind_ok_if: "bind_ok (if b then m else n) f = (if b then bind_ok m f else bind_ok n f)"
  by simp

lemma unwrap_Some [simp]: "unwrap msg (Some x) = Inr x"
  and unwrap_None [simp]: "unwrap msg None = Inl (Panic msg)"
  by (simp_all add: unwrap_def)

lemma unwrap_eq_Inr [simp]: "unwrap msg x = Inr y \<longleftrightarrow> x = Some y"
  by (cases x) auto

lemma NonNull_new_eq_Some [simp]: "NonNull_new p = Some q \<longleftrightarrow> p \<noteq> 0 \<and> q = p"
  by (auto simp: NonNull_new_def)

lemma NonNull_new_eq_None [simp]: "NonNull_new p = None \<longleftrightarrow> p = 0"
  by (simp add: NonNull_new_def)

lemma NonNull_new_nonzero [simp]: "p \<noteq> 0 \<Longrightarrow> NonNull_new p = Some p"
  by simp

lemma NonNull_new_zero [simp]: "NonNull_new 0 = None"
  by simp

lemma add_chk_eq_Inr: "add_chk a b = Inr c \<longleftrightarrow> unat a + unat b < 2 ^ 32 \<and> c = a + b"
  by (auto simp: add_chk_def)

lemma add_chk_unat: "add_chk a b = Inr c \<Longrightarrow> unat c = unat a + unat b"
  by (auto simp: add_chk_eq_Inr unat_word_ariths)

lemma sub_chk_eq_Inr: "sub_chk a b = Inr c \<longleftrightarrow> b \<le> a \<and> c = a - b"
  by (auto simp: sub_chk_def)

lemma sub_chk_unat: "sub_chk a b = Inr c \<Longrightarrow> unat c = unat a - unat b"
  by (auto simp: sub_chk_eq_Inr unat_sub)

section \<open>Page arithmetic: facts\<close>

lemma unat_u32_bound: "unat (a :: u32) < 2 ^ 32"
  using unsigned_less [of a] by simp

lemma unat_page_of: "unat (page_of a) = unat a div 4096 * 4096"
proof -
  have "page_of a = push_bit 12 (drop_bit 12 a)"
    unfolding page_of_def by (rule bit_word_eqI) (auto simp: bit_simps)
  moreover have "unat (drop_bit 12 a) = unat a div 4096"
    by (simp add: unat_drop_bit_eq drop_bit_nat_def)
  moreover have "unat a div 4096 * 4096 < 2 ^ 32"
    by (rule le_less_trans [OF div_times_less_eq_dividend]) (rule unat_u32_bound)
  ultimately show ?thesis
    by (simp add: push_bit_eq_mult unat_word_ariths)
qed

lemma page_aligned_iff_dvd: "page_aligned a \<longleftrightarrow> 4096 dvd unat a"
  unfolding page_aligned_def using and_mask_dvd_nat [of 12 a] by simp

lemma word_aligned_iff_dvd: "word_aligned a \<longleftrightarrow> 4 dvd unat a"
  unfolding word_aligned_def using and_mask_dvd_nat [of 2 a] by simp

lemma page_aligned_imp_word_aligned: "page_aligned a \<Longrightarrow> word_aligned a"
  unfolding page_aligned_iff_dvd word_aligned_iff_dvd by (erule dvd_trans [rotated]) simp

lemma page_of_aligned [simp]: "page_aligned a \<Longrightarrow> page_of a = a"
  by (simp add: word_unat_eq_iff unat_page_of page_aligned_iff_dvd)

lemma page_aligned_page_of [simp]: "page_aligned (page_of a)"
  by (simp add: page_aligned_iff_dvd unat_page_of)

lemma is_multiple_of_page: "is_multiple_of a 4096 \<longleftrightarrow> page_aligned a"
proof -
  have "a mod 4096 = 0 \<longleftrightarrow> unat (a mod 4096) = 0"
    by (simp add: unat_eq_zero)
  also have "unat (a mod 4096) = unat a mod 4096"
    by (simp add: unat_mod_distrib)
  finally show ?thesis
    by (simp add: is_multiple_of_def page_aligned_iff_dvd dvd_eq_mod_eq_0)
qed

lemma page_aligned_bound: "page_aligned a \<Longrightarrow> unat a + 4096 \<le> 2 ^ 32"
proof -
  assume "page_aligned a"
  then obtain k where k: "unat a = 4096 * k"
    by (auto simp: page_aligned_iff_dvd)
  have "unat a < 2 ^ 32" by (rule unat_u32_bound)
  with k show ?thesis by simp
qed

lemma unat_page_plus:
  assumes "page_aligned a" and "unat i < 4096"
  shows "unat (a + i) = unat a + unat i"
  using page_aligned_bound [OF assms(1)] assms(2) by (simp add: unat_word_ariths)

lemma page_of_plus:
  assumes "page_aligned a" and "unat i < 4096"
  shows "page_of (a + i) = a"
proof -
  obtain k where "unat a = 4096 * k"
    using assms(1) by (auto simp: page_aligned_iff_dvd)
  then show ?thesis
    using assms by (simp add: word_unat_eq_iff unat_page_of unat_page_plus)
qed

lemma page_plus_inj:
  assumes "page_aligned a" "page_aligned b" "unat i < 4096" "unat j < 4096"
  shows "a + i = b + j \<longleftrightarrow> a = b \<and> i = j"
  by (metis assms page_of_plus add_left_cancel)

section \<open>Invariants of transition systems\<close>

text \<open>
  The interface every state machine of the development provides: an initial-state predicate, a
  step relation, and an invariant that holds initially and that every step keeps.
\<close>

locale invariant_system =
  fixes start :: "'s \<Rightarrow> bool"
    and step :: "'s \<Rightarrow> 's \<Rightarrow> bool"
    and inv :: "'s \<Rightarrow> bool"
  assumes start_inv: "start s \<Longrightarrow> inv s"
    and step_inv: "step s t \<Longrightarrow> inv s \<Longrightarrow> inv t"
begin

lemma steps_inv: "step\<^sup>*\<^sup>* s t \<Longrightarrow> inv s \<Longrightarrow> inv t"
  by (induction rule: rtranclp_induct) (auto intro: step_inv)

lemma reachable_inv: "start s \<Longrightarrow> step\<^sup>*\<^sup>* s t \<Longrightarrow> inv t"
  using steps_inv start_inv by blast

end

end
