(* ===== verification/Csr.thy ===== *)
theory Csr
  imports Prelude
begin

text \<open>
  The control and status registers (\<open>csr.rs\<close>) and the interrupt-enable switch built on them
  (the top of \<open>trap.rs\<close>). A register file maps each register of the \<open>Csr\<close> enumeration
  to its value; \<open>csrrw\<close> stores the whole register and \<open>csrrc\<close> with \<open>x0\<close> only
  reads it.
\<close>

section \<open>Registers\<close>

datatype (plugins only: code) Csr =
   Csr_mvendorid | Csr_marchid | Csr_mimpid | Csr_menvcfg | Csr_menvcfgh | Csr_mscratch
  | Csr_sscratch | Csr_cycle | Csr_cycleh | Csr_time | Csr_timeh | Csr_instret
  | Csr_instreth | Csr_mcycle | Csr_mcycleh | Csr_minstret | Csr_minstreth
  | Csr_mcountinhibit | Csr_scountinhibit | Csr_mcounteren | Csr_scounteren | Csr_mip
  | Csr_sip | Csr_mie | Csr_sie | Csr_mtvec | Csr_stvec | Csr_mepc | Csr_sepc | Csr_mcause
  | Csr_scause | Csr_mtval | Csr_stval | Csr_medeleg | Csr_medelegh | Csr_mideleg
  | Csr_mstatus | Csr_mstatush | Csr_sstatus | Csr_satp | Csr_misa | Csr_mhartid
  | Csr_pmpcfg0 | Csr_pmpcfg1 | Csr_pmpcfg2 | Csr_pmpcfg3 | Csr_pmpaddr0 | Csr_pmpaddr1
  | Csr_pmpaddr2 | Csr_pmpaddr3 | Csr_pmpaddr4 | Csr_pmpaddr5 | Csr_pmpaddr6 | Csr_pmpaddr7
  | Csr_pmpaddr8 | Csr_pmpaddr9 | Csr_pmpaddr10 | Csr_pmpaddr11 | Csr_pmpaddr12
  | Csr_pmpaddr13 | Csr_pmpaddr14 | Csr_pmpaddr15

type_synonym csr_file = "Csr \<Rightarrow> u32"

definition read_csr :: "csr_file \<Rightarrow> Csr \<Rightarrow> u32" where
  "read_csr f c = f c"

definition write_csr :: "csr_file \<Rightarrow> Csr \<Rightarrow> u32 \<Rightarrow> csr_file" where
  "write_csr f c v = f(c := v)"

definition SSTATUS_SPP :: u32 where "SSTATUS_SPP = push_bit 8 1"
definition SSTATUS_SPIE :: u32 where "SSTATUS_SPIE = push_bit 5 1"
definition SSTATUS_UPIE :: u32 where "SSTATUS_UPIE = push_bit 4 1"
definition SSTATUS_SIE :: u32 where "SSTATUS_SIE = push_bit 1 1"
definition SSTATUS_UIE :: u32 where "SSTATUS_UIE = push_bit 0 1"

definition SIE_SEIE :: usize where "SIE_SEIE = push_bit 9 1"
definition SIE_STIE :: usize where "SIE_STIE = push_bit 5 1"

section \<open>The interrupt switch\<close>

definition interrupt_on :: "csr_file \<Rightarrow> csr_file" where
  "interrupt_on f = write_csr f Csr_sstatus (read_csr f Csr_sstatus OR SSTATUS_SIE)"

definition interrupt_off :: "csr_file \<Rightarrow> csr_file" where
  "interrupt_off f = write_csr f Csr_sstatus (read_csr f Csr_sstatus AND NOT SSTATUS_SIE)"

definition interrupt_read :: "csr_file \<Rightarrow> bool" where
  "interrupt_read f \<longleftrightarrow> read_csr f Csr_sstatus AND SSTATUS_SIE \<noteq> 0"

section \<open>Facts\<close>

lemma read_write_csr [simp]: "read_csr (write_csr f c v) d = (if d = c then v else read_csr f d)"
  by (simp add: read_csr_def write_csr_def)

lemma write_csr_read [simp]: "write_csr f c (read_csr f c) = f"
  by (simp add: read_csr_def write_csr_def)

lemma write_csr_twice [simp]: "write_csr (write_csr f c v) c w = write_csr f c w"
  by (simp add: write_csr_def)

lemma interrupt_read_bit: "interrupt_read f \<longleftrightarrow> bit (read_csr f Csr_sstatus) 1"
  using and_exp_eq_0_iff_not_bit [of "read_csr f Csr_sstatus" 1]
  by (simp add: interrupt_read_def SSTATUS_SIE_def)

lemma interrupt_read_on [simp]: "interrupt_read (interrupt_on f)"
  by (simp add: interrupt_read_bit interrupt_on_def SSTATUS_SIE_def bit_simps)

lemma interrupt_read_off [simp]: "\<not> interrupt_read (interrupt_off f)"
  by (simp add: interrupt_read_bit interrupt_off_def SSTATUS_SIE_def bit_simps)

lemma or_sie_absorb: "bit x 1 \<Longrightarrow> (x :: u32) AND NOT (push_bit 1 1) OR push_bit 1 1 = x"
  by (rule bit_word_eqI) (auto simp: bit_simps)

lemma and_sie_absorb: "\<not> bit x 1 \<Longrightarrow> (x :: u32) AND NOT (push_bit 1 1) = x"
  by (rule bit_word_eqI) (auto simp: bit_simps)

lemma interrupt_off_id: "\<not> interrupt_read f \<Longrightarrow> interrupt_off f = f"
  using and_sie_absorb [of "read_csr f Csr_sstatus"]
  by (simp add: interrupt_read_bit interrupt_off_def SSTATUS_SIE_def)

lemma interrupt_on_off: "interrupt_read f \<Longrightarrow> interrupt_on (interrupt_off f) = f"
  using or_sie_absorb [of "read_csr f Csr_sstatus"]
  by (simp add: interrupt_read_bit interrupt_on_def interrupt_off_def SSTATUS_SIE_def)

lemma interrupt_off_other [simp]:
  "c \<noteq> Csr_sstatus \<Longrightarrow> read_csr (interrupt_off f) c = read_csr f c"
  by (simp add: interrupt_off_def)

lemma interrupt_on_other [simp]:
  "c \<noteq> Csr_sstatus \<Longrightarrow> read_csr (interrupt_on f) c = read_csr f c"
  by (simp add: interrupt_on_def)

end
