(* ===== verification/Memory.thy ===== *)
theory Memory
  imports Prelude
begin

text \<open>
  Physical memory and the pointer primitives of \<open>core::ptr\<close> the kernel uses on it. RAM is a
  total map from 32-bit physical addresses to bytes; the kernel runs with RAM identity mapped, so
  the address of a pointer is the physical address. A \<open>usize\<close> is read and written
  little-endian, as on riscv32. The lemmas are the read-over-write laws of aligned words and of
  whole pages.
\<close>

section \<open>Pointer primitives\<close>

type_synonym memory = "usize \<Rightarrow> u8"

text \<open>\<open>ptr.read()\<close> and \<open>ptr.write(v)\<close> at type \<open>usize\<close>.\<close>

definition load32 :: "memory \<Rightarrow> usize \<Rightarrow> usize" where
  "load32 m a = ucast (m a) OR push_bit 8 (ucast (m (a + 1)))
     OR push_bit 16 (ucast (m (a + 2))) OR push_bit 24 (ucast (m (a + 3)))"

definition store32 :: "memory \<Rightarrow> usize \<Rightarrow> usize \<Rightarrow> memory" where
  "store32 m a v = m(a := ucast v, a + 1 := ucast (drop_bit 8 v),
     a + 2 := ucast (drop_bit 16 v), a + 3 := ucast (drop_bit 24 v))"

text \<open>
  \<open>write_bytes(dst, v, n)\<close> and \<open>copy_nonoverlapping(src, dst, n)\<close>, with \<open>n\<close> in
  bytes; \<open>read_bytes\<close> is the reading of \<open>n\<close> consecutive bytes.
\<close>

definition write_bytes :: "memory \<Rightarrow> usize \<Rightarrow> u8 \<Rightarrow> nat \<Rightarrow> memory" where
  "write_bytes m dst v n = (\<lambda>x. if unat (x - dst) < n then v else m x)"

definition copy_nonoverlapping :: "memory \<Rightarrow> usize \<Rightarrow> usize \<Rightarrow> nat \<Rightarrow> memory" where
  "copy_nonoverlapping m src dst n =
     (\<lambda>x. if unat (x - dst) < n then m (src + (x - dst)) else m x)"

definition read_bytes :: "memory \<Rightarrow> usize \<Rightarrow> nat \<Rightarrow> u8 list" where
  "read_bytes m a n = map (\<lambda>i. m (a + of_nat i)) [0..<n]"

text \<open>Two memories that agree on the page at \<open>p\<close>.\<close>

definition same_page :: "memory \<Rightarrow> memory \<Rightarrow> usize \<Rightarrow> bool" where
  "same_page m m' p \<longleftrightarrow> (\<forall>x. page_of x = p \<longrightarrow> m' x = m x)"

section \<open>Words in memory\<close>

lemma unat_word_aligned_plus:
  assumes "word_aligned a" and "i < 4"
  shows "unat (a + of_nat i) = unat a + i"
proof -
  obtain k where "unat a = 4 * k"
    using assms(1) by (auto simp: word_aligned_iff_dvd)
  moreover have "unat a < 2 ^ 32"
    using unsigned_less [of a] by simp
  ultimately show ?thesis
    using assms(2) by (simp add: unat_word_ariths unat_of_nat)
qed

lemma word_aligned_plus_eq:
  assumes "word_aligned a" "word_aligned b" "i < 4" "j < 4"
  shows "a + of_nat i = b + of_nat j \<longleftrightarrow> a = b \<and> i = j"
proof -
  have "a + of_nat i = b + of_nat j \<longleftrightarrow> unat a + i = unat b + j"
    using assms by (simp add: word_unat_eq_iff unat_word_aligned_plus)
  also obtain k l where "unat a = 4 * k" "unat b = 4 * l"
    using assms by (auto simp: word_aligned_iff_dvd elim!: dvdE)
  then have "unat a + i = unat b + j \<longleftrightarrow> unat a = unat b \<and> i = j"
    using assms(3,4) by presburger
  finally show ?thesis by (simp add: word_unat_eq_iff)
qed

lemma word_aligned_bytes_neq:
  assumes "word_aligned a" "word_aligned b" "a \<noteq> b"
  shows "a \<noteq> b + 1" "a \<noteq> b + 2" "a \<noteq> b + 3" "a + 1 \<noteq> b" "a + 1 \<noteq> b + 2"
    "a + 1 \<noteq> b + 3" "a + 2 \<noteq> b" "a + 2 \<noteq> b + 1" "a + 2 \<noteq> b + 3" "a + 3 \<noteq> b"
    "a + 3 \<noteq> b + 1" "a + 3 \<noteq> b + 2"
  using word_aligned_plus_eq [OF assms(1,2), of 0 1] word_aligned_plus_eq [OF assms(1,2), of 0 2]
    word_aligned_plus_eq [OF assms(1,2), of 0 3] word_aligned_plus_eq [OF assms(1,2), of 1 0]
    word_aligned_plus_eq [OF assms(1,2), of 1 2] word_aligned_plus_eq [OF assms(1,2), of 1 3]
    word_aligned_plus_eq [OF assms(1,2), of 2 0] word_aligned_plus_eq [OF assms(1,2), of 2 1]
    word_aligned_plus_eq [OF assms(1,2), of 2 3] word_aligned_plus_eq [OF assms(1,2), of 3 0]
    word_aligned_plus_eq [OF assms(1,2), of 3 1] word_aligned_plus_eq [OF assms(1,2), of 3 2]
  by simp_all

lemma load32_store32_same: "load32 (store32 m a v) a = v"
proof (rule bit_word_eqI)
  fix n assume "n < LENGTH(32)"
  then consider "n < 8" | "8 \<le> n" "n < 16" | "16 \<le> n" "n < 24" | "24 \<le> n" "n < 32"
    by fastforce
  then show "bit (load32 (store32 m a v) a) n = bit v n"
    by cases (auto simp: load32_def store32_def bit_simps)
qed

lemma load32_store32_other:
  assumes "word_aligned a" "word_aligned b" "a \<noteq> b"
  shows "load32 (store32 m a v) b = load32 m b"
  using assms(3) word_aligned_bytes_neq [OF assms(2,1)]
  by (simp add: load32_def store32_def)

lemma load32_cong:
  assumes "m a = m' a" "m (a + 1) = m' (a + 1)" "m (a + 2) = m' (a + 2)" "m (a + 3) = m' (a + 3)"
  shows "load32 m a = load32 m' a"
  using assms by (simp add: load32_def)

text \<open>The four bytes of an aligned word lie in one page.\<close>

lemma page_of_word_byte:
  assumes "word_aligned a" and "i < 4"
  shows "page_of (a + of_nat i) = page_of a"
proof -
  obtain k where "unat a = 4 * k"
    using assms(1) by (auto simp: word_aligned_iff_dvd)
  then have "(unat a + i) div 4096 = unat a div 4096"
    using assms(2) div_mult2_eq [of "4 * k + i" 4 1024] div_mult2_eq [of "4 * k" 4 1024] by simp
  then show ?thesis
    using assms by (simp add: word_unat_eq_iff unat_page_of unat_word_aligned_plus)
qed

lemmas page_of_word_bytes =
  page_of_word_byte [where i = 1, simplified] page_of_word_byte [where i = 2, simplified]
  page_of_word_byte [where i = 3, simplified]

lemma same_page_refl [simp]: "same_page m m p"
  by (simp add: same_page_def)

lemma same_page_trans: "same_page m m' p \<Longrightarrow> same_page m' m'' p \<Longrightarrow> same_page m m'' p"
  by (simp add: same_page_def)

lemma load32_same_page:
  assumes "same_page m m' (page_of a)" and "word_aligned a"
  shows "load32 m' a = load32 m a"
  using assms by (intro load32_cong) (auto simp: same_page_def page_of_word_bytes)

lemma same_page_store32:
  assumes "word_aligned a" and "page_of a \<noteq> p"
  shows "same_page m (store32 m a v) p"
  using assms page_of_word_bytes [OF assms(1)]
  by (auto simp: same_page_def store32_def)

section \<open>Whole pages\<close>

lemma page_offset_iff:
  assumes "page_aligned p"
  shows "unat (x - p) < 4096 \<longleftrightarrow> page_of x = p"
proof
  assume "unat (x - p) < 4096"
  then show "page_of x = p"
    using page_of_plus [OF assms, of "x - p"] by simp
next
  assume "page_of x = p"
  then have "unat p = unat x div 4096 * 4096"
    using unat_page_of by metis
  then have "p \<le> x" and "unat x - unat p < 4096"
    by (simp_all add: word_le_nat_alt)
  then show "unat (x - p) < 4096"
    by (simp add: unat_sub)
qed

lemma write_page_apply:
  assumes "page_aligned p"
  shows "write_bytes m p v 4096 x = (if page_of x = p then v else m x)"
  using page_offset_iff [OF assms] by (simp add: write_bytes_def)

lemma same_page_write_page:
  assumes "page_aligned p" and "q \<noteq> p"
  shows "same_page m (write_bytes m p v 4096) q"
  using assms by (simp add: same_page_def write_page_apply)

lemma load32_zero_page:
  assumes "page_aligned p" "page_of a = p" "word_aligned a"
  shows "load32 (write_bytes m p 0 4096) a = 0"
  using assms page_of_word_bytes [OF assms(3)] by (simp add: load32_def write_page_apply)

lemma copy_page_apply:
  assumes "page_aligned p"
  shows "copy_nonoverlapping m src p 4096 x = (if page_of x = p then m (src + (x - p)) else m x)"
  using page_offset_iff [OF assms] by (simp add: copy_nonoverlapping_def)

lemma same_page_copy_page:
  assumes "page_aligned p" and "q \<noteq> p"
  shows "same_page m (copy_nonoverlapping m src p 4096) q"
  using assms by (simp add: same_page_def copy_page_apply)

lemma length_read_bytes [simp]: "length (read_bytes m a n) = n"
  by (simp add: read_bytes_def)

lemma nth_read_bytes [simp]: "i < n \<Longrightarrow> read_bytes m a n ! i = m (a + of_nat i)"
  by (simp add: read_bytes_def)

end
