(* ===== verification/Machine.thy ===== *)
theory Machine
  imports Csr Memory
begin

text \<open>
  The state of the machine the kernel runs on and what the kernel takes from outside its own
  sources. \<open>machine\<close> holds physical memory, the CSRs, the timer compare register, the UART
  output, the page allocator's state with its lock, and the per-hart \<open>Cpu\<close> (\<open>kernel.rs\<close>);
  the kernel's process table extends this record later. \<open>env\<close> collects the parameters of the
  model: the operations of the \<open>spin\<close> and \<open>buddy_system_allocator\<close> crates and the
  addresses the linker and the build provide.
\<close>

section \<open>Constants of the memory layout\<close>

text \<open>\<open>virtmemory.rs\<close>, lines 22 to 44.\<close>

definition PAGESIZE :: usize where "PAGESIZE = 4 * 1024"
definition RAMSIZE :: usize where "RAMSIZE = 62 * 1024 * 1024"
definition RAMSTART :: usize where "RAMSTART = 0x80200000"
definition RAMEND :: usize where "RAMEND = RAMSTART + RAMSIZE"
definition KERNEL_START :: usize where "KERNEL_START = 0x80200000"
definition USER_START :: usize where "USER_START = 0x10000"
definition UART :: usize where "UART = 0x10000000"
definition VIRT_END :: usize where "VIRT_END = 0xffffffff - PAGESIZE + 1"
definition TRAMPOLINE :: usize where "TRAMPOLINE = VIRT_END - PAGESIZE"
definition TRAPFRAME :: usize where "TRAPFRAME = TRAMPOLINE - PAGESIZE"

definition PTE_R :: usize where "PTE_R = 0b10"
definition PTE_W :: usize where "PTE_W = 0b100"
definition PTE_X :: usize where "PTE_X = 0b1000"
definition PTE_U :: usize where "PTE_U = 0b10000"

text \<open>\<open>core::alloc::Layout\<close> and the layout of one page.\<close>

record Layout =
  layout_size :: usize
  layout_align :: usize

definition PAGE_LAYOUT :: Layout where
  "PAGE_LAYOUT = \<lparr>layout_size = PAGESIZE, layout_align = PAGESIZE\<rparr>"

section \<open>Parameters from outside the sources\<close>

text \<open>
  \<open>spin_lock b\<close> is \<open>spin::Mutex::lock\<close> on a mutex whose lock flag is \<open>b\<close>: the new
  flag, or \<open>None\<close> when the caller spins for ever. \<open>spin_unlock\<close> is \<open>force_unlock\<close> and
  the drop of a \<open>MutexGuard\<close>. The \<open>bh_\<close> fields are \<open>Heap::new\<close>, \<open>init\<close>,
  \<open>alloc\<close> and \<open>dealloc\<close> of the buddy allocator. The remaining fields are the linker
  symbols, the entry addresses of the assembly and handler routines, and the address and length
  of the two program images.
\<close>

record 'h env =
  spin_lock :: "bool \<Rightarrow> bool option"
  spin_unlock :: "bool \<Rightarrow> bool"
  bh_new :: 'h
  bh_init :: "'h \<Rightarrow> usize \<Rightarrow> usize \<Rightarrow> 'h"
  bh_alloc :: "'h \<Rightarrow> Layout \<Rightarrow> usize option \<times> 'h"
  bh_dealloc :: "'h \<Rightarrow> usize \<Rightarrow> Layout \<Rightarrow> 'h"
  sym_etext :: usize
  sym_ekernel :: usize
  sym_trampoline :: usize
  fn_uservec :: usize
  fn_userret :: usize
  fn_usertrap :: usize
  fn_kernelvec :: usize
  fn_forkret :: usize
  img_INIT :: "usize \<times> usize"
  img_PRIME :: "usize \<times> usize"

section \<open>Machine state\<close>

text \<open>\<open>process::Context\<close>: the callee-saved registers of a suspended kernel thread.\<close>

record Context =
  ctx_ra :: usize
  ctx_sp :: usize
  ctx_s0 :: usize
  ctx_s1 :: usize
  ctx_s2 :: usize
  ctx_s3 :: usize
  ctx_s4 :: usize
  ctx_s5 :: usize
  ctx_s6 :: usize
  ctx_s7 :: usize
  ctx_s8 :: usize
  ctx_s9 :: usize
  ctx_s10 :: usize
  ctx_s11 :: usize

definition Context_zero :: Context where
  "Context_zero = \<lparr>ctx_ra = 0, ctx_sp = 0, ctx_s0 = 0, ctx_s1 = 0, ctx_s2 = 0, ctx_s3 = 0,
     ctx_s4 = 0, ctx_s5 = 0, ctx_s6 = 0, ctx_s7 = 0, ctx_s8 = 0, ctx_s9 = 0, ctx_s10 = 0,
     ctx_s11 = 0\<rparr>"

text \<open>
  \<open>kernel::Cpu\<close>. The raw pointer \<open>current\<close> is the index of the running process in the
  process table, \<open>None\<close> for null.
\<close>

record Cpu =
  current :: "nat option"
  cpu_context :: Context
  interrupt_off_stack :: usize
  interrupt_prev_state :: bool

definition Cpu_new :: Cpu where
  "Cpu_new = \<lparr>current = None, cpu_context = Context_zero, interrupt_off_stack = 0,
     interrupt_prev_state = False\<rparr>"

record 'h machine =
  mem :: memory
  csrs :: csr_file
  stimecmp :: u32
  uart_out :: "u8 list"
  heap_st :: 'h
  heap_lock :: bool
  cpu :: Cpu

section \<open>Named constants as numerals\<close>

lemmas layout_consts = PAGESIZE_def RAMSIZE_def RAMSTART_def RAMEND_def KERNEL_START_def
  USER_START_def UART_def VIRT_END_def TRAMPOLINE_def TRAPFRAME_def

lemmas perm_consts = PTE_R_def PTE_W_def PTE_X_def PTE_U_def

lemma PAGESIZE_num: "PAGESIZE = 4096"
  by (simp add: layout_consts)

lemma TRAMPOLINE_num: "TRAMPOLINE = 0xffffe000"
  by (simp add: layout_consts)

lemma TRAPFRAME_num: "TRAPFRAME = 0xffffd000"
  by (simp add: layout_consts)

lemma RAMEND_num: "RAMEND = 0x84000000"
  by (simp add: layout_consts)

end
