(* ===== verification/Pte.thy ===== *)
theory Pte
  imports Machine
begin

text \<open>
  The bit-level encodings of \<open>virtmemory.rs\<close>: page table entries, permissions, the \<open>satp\<close>
  register, virtual and physical addresses of the Sv32 scheme, and the two alignment helpers. The
  lemmas give every field as bits of the raw word, the round trips between words and the decoded
  forms, and the entry that \<open>from_addr\<close> builds for a page.
\<close>

section \<open>Page table entries\<close>

record Pte =
  pte_pa :: usize
  pte_ppn :: usize
  pte_ppn1 :: usize
  pte_ppn0 :: usize
  pte_rsw :: u8
  pte_d :: bool
  pte_a :: bool
  pte_g :: bool
  pte_u :: bool
  pte_x :: bool
  pte_w :: bool
  pte_r :: bool
  pte_v :: bool
  pte_perm :: usize

definition Pte_from :: "usize \<Rightarrow> Pte" where
  "Pte_from pte = \<lparr>
     pte_pa = push_bit 2 (pte AND 0b11111111111111111111110000000000),
     pte_ppn = drop_bit 10 (pte AND 0b11111111111111111111110000000000),
     pte_ppn1 = drop_bit 20 (pte AND 0b11111111111100000000000000000000),
     pte_ppn0 = drop_bit 10 (pte AND 0b00000000000011111111110000000000),
     pte_rsw = ucast (drop_bit 8 (pte AND 0b00000000000000000000001100000000)),
     pte_d = (1 \<le> pte AND 0b00000000000000000000000010000000),
     pte_a = (1 \<le> pte AND 0b00000000000000000000000001000000),
     pte_g = (1 \<le> pte AND 0b00000000000000000000000000100000),
     pte_u = (1 \<le> pte AND 0b00000000000000000000000000010000),
     pte_x = (1 \<le> pte AND 0b00000000000000000000000000001000),
     pte_w = (1 \<le> pte AND 0b00000000000000000000000000000100),
     pte_r = (1 \<le> pte AND 0b00000000000000000000000000000010),
     pte_v = (1 \<le> pte AND 0b00000000000000000000000000000001),
     pte_perm = pte AND 0b11110\<rparr>"

definition Pte_into :: "Pte \<Rightarrow> usize" where
  "Pte_into p = push_bit 10 (pte_ppn p)
     OR push_bit 8 (ucast (pte_rsw p))
     OR push_bit 7 (of_bool (pte_d p))
     OR push_bit 6 (of_bool (pte_a p))
     OR push_bit 5 (of_bool (pte_g p))
     OR push_bit 4 (of_bool (pte_u p))
     OR push_bit 3 (of_bool (pte_x p))
     OR push_bit 2 (of_bool (pte_w p))
     OR push_bit 1 (of_bool (pte_r p))
     OR of_bool (pte_v p)"

definition Pte_from_addr :: "usize \<Rightarrow> Pte" where
  "Pte_from_addr pa = (let mask12 = push_bit 12 1 - 1; pte = drop_bit 2 (pa AND NOT mask12)
     in Pte_from pte)"

section \<open>Permissions, satp, virtual and physical addresses\<close>

record Perm =
  perm_r :: bool
  perm_w :: bool
  perm_x :: bool

definition Perm_into :: "Perm \<Rightarrow> usize" where
  "Perm_into p =
     (let res = 0;
          res = (if perm_r p then res OR 0b10 else res);
          res = (if perm_w p then res OR 0b100 else res);
          res = (if perm_x p then res OR 0b1000 else res)
      in res)"

record SATP =
  satp_mode :: usize
  satp_asid :: usize
  satp_ppn :: usize

definition SATP_into :: "SATP \<Rightarrow> usize" where
  "SATP_into p = 0 OR push_bit 31 (satp_mode p) OR push_bit 22 (satp_asid p) OR satp_ppn p"

record VA =
  vpn1 :: usize
  vpn0 :: usize

definition VA_from :: "usize \<Rightarrow> VA" where
  "VA_from a = \<lparr>vpn1 = drop_bit 22 (a AND 0b11111111110000000000000000000000),
     vpn0 = drop_bit 12 (a AND 0b00000000001111111111000000000000)\<rparr>"

definition VA_vpn :: "VA \<Rightarrow> usize \<Rightarrow> usize option" where
  "VA_vpn va level = (if level = 0 then Some (vpn0 va) else if level = 1 then Some (vpn1 va)
     else None)"

record PA =
  pa_ppn1 :: usize
  pa_ppn0 :: usize
  pa_offset :: usize

definition PA_into :: "PA \<Rightarrow> usize" where
  "PA_into p = push_bit 22 (pa_ppn1 p) OR push_bit 12 (pa_ppn0 p) OR pa_offset p"

text \<open>The alignment helpers: \<open>%\<close> panics on a zero divisor.\<close>

definition align_down :: "u32 \<Rightarrow> u32 \<Rightarrow> fault + u32" where
  "align_down a alignment = (if alignment = 0
     then Inl (Panic ''attempt to calculate the remainder with a divisor of zero'')
     else sub_chk a (a mod alignment))"

definition align_up :: "u32 \<Rightarrow> u32 \<Rightarrow> fault + u32" where
  "align_up a alignment = bind_ok (add_chk a alignment) (\<lambda>t. bind_ok (sub_chk t 1) (\<lambda>tmp.
     align_down tmp alignment))"

section \<open>Fields as bits\<close>

lemma mask_numerals:
  "(0b11111111111111111111110000000000 :: u32) = push_bit 10 (mask 22)"
  "(0b11111111111100000000000000000000 :: u32) = push_bit 20 (mask 12)"
  "(0b00000000000011111111110000000000 :: u32) = push_bit 10 (mask 10)"
  "(0b00000000000000000000001100000000 :: u32) = push_bit 8 (mask 2)"
  "(0b11110 :: u32) = push_bit 1 (mask 4)"
  "(0b11111111110000000000000000000000 :: u32) = push_bit 22 (mask 10)"
  "(0b00000000001111111111000000000000 :: u32) = push_bit 12 (mask 10)"
  by (simp_all add: mask_eq_exp_minus_1)

lemma and_exp_ge_1: "1 \<le> (x :: u32) AND push_bit n 1 \<longleftrightarrow> bit x n"
  using and_exp_eq_0_iff_not_bit [of x n]
  by (simp add: push_bit_eq_mult word_le_nat_alt Suc_le_eq unat_gt_0)

lemma and_bit_numerals:
  "1 \<le> (x :: u32) AND 128 \<longleftrightarrow> bit x 7" "1 \<le> x AND 64 \<longleftrightarrow> bit x 6" "1 \<le> x AND 32 \<longleftrightarrow> bit x 5"
  "1 \<le> x AND 16 \<longleftrightarrow> bit x 4" "1 \<le> x AND 8 \<longleftrightarrow> bit x 3" "1 \<le> x AND 4 \<longleftrightarrow> bit x 2"
  "1 \<le> x AND 2 \<longleftrightarrow> bit x 1" "1 \<le> x AND 1 \<longleftrightarrow> bit x 0"
  using and_exp_ge_1 [of x 7] and_exp_ge_1 [of x 6] and_exp_ge_1 [of x 5] and_exp_ge_1 [of x 4]
    and_exp_ge_1 [of x 3] and_exp_ge_1 [of x 2] and_exp_ge_1 [of x 1] and_exp_ge_1 [of x 0]
  by (simp_all add: push_bit_eq_mult)

lemma Pte_from_flags [simp]:
  "pte_d (Pte_from w) = bit w 7" "pte_a (Pte_from w) = bit w 6" "pte_g (Pte_from w) = bit w 5"
  "pte_u (Pte_from w) = bit w 4" "pte_x (Pte_from w) = bit w 3" "pte_w (Pte_from w) = bit w 2"
  "pte_r (Pte_from w) = bit w 1" "pte_v (Pte_from w) = bit w 0"
  by (simp_all add: Pte_from_def and_bit_numerals)

lemma Pte_from_ppn: "pte_ppn (Pte_from w) = drop_bit 10 w"
  by (rule bit_word_eqI) (auto simp: Pte_from_def mask_numerals bit_simps dest: bit_imp_le_length)

lemma Pte_from_pa: "pte_pa (Pte_from w) = push_bit 2 (w AND NOT (mask 10))"
  by (rule bit_word_eqI) (auto simp: Pte_from_def mask_numerals bit_simps)

lemma Pte_from_ppn_pa: "push_bit 12 (pte_ppn (Pte_from w)) = pte_pa (Pte_from w)"
  unfolding Pte_from_ppn Pte_from_pa by (rule bit_word_eqI) (auto simp: bit_simps)

lemma Pte_from_perm: "pte_perm (Pte_from w) = w AND push_bit 1 (mask 4)"
  by (simp add: Pte_from_def mask_numerals)

lemma Pte_from_rsw: "pte_rsw (Pte_from w) = ucast (drop_bit 8 w AND mask 2)"
  by (rule bit_word_eqI) (auto simp: Pte_from_def mask_numerals bit_simps)

lemma page_aligned_pte_pa [simp]: "page_aligned (pte_pa (Pte_from w))"
  unfolding page_aligned_def Pte_from_pa by (rule bit_word_eqI) (auto simp: bit_simps)

section \<open>Round trips\<close>

lemma bit_Pte_into:
  assumes "n < 32"
  shows "bit (Pte_into p) n \<longleftrightarrow> (10 \<le> n \<and> bit (pte_ppn p) (n - 10)) \<or>
    (8 \<le> n \<and> bit (ucast (pte_rsw p) :: u32) (n - 8)) \<or> (n = 7 \<and> pte_d p) \<or> (n = 6 \<and> pte_a p) \<or>
    (n = 5 \<and> pte_g p) \<or> (n = 4 \<and> pte_u p) \<or> (n = 3 \<and> pte_x p) \<or> (n = 2 \<and> pte_w p) \<or>
    (n = 1 \<and> pte_r p) \<or> (n = 0 \<and> pte_v p)"
proof -
  have flag: "bit (push_bit k (of_bool b) :: u32) n \<longleftrightarrow> n = k \<and> b" for k b
    using assms by (auto simp: bit_simps)
  have num: "bit (push_bit k x :: u32) n \<longleftrightarrow> k \<le> n \<and> bit x (n - k)" for k x
    using assms by (auto simp: bit_simps)
  have v: "bit (of_bool b :: u32) n \<longleftrightarrow> n = 0 \<and> b" for b
    by (auto simp: bit_simps)
  show ?thesis
    unfolding Pte_into_def
    by (simp only: bit_or_iff flag v num [of 10 "pte_ppn p"] num [of 8 "ucast (pte_rsw p)"] disj_assoc)
qed

lemma Pte_into_from: "Pte_into (Pte_from w) = w"
proof (rule bit_word_eqI)
  fix n assume n: "n < LENGTH(32)"
  have rsw: "bit (ucast (pte_rsw (Pte_from w)) :: u32) m \<longleftrightarrow> m < 2 \<and> bit w (8 + m)" for m
    by (auto simp: Pte_from_rsw bit_simps)
  consider "n = 0" | "n = 1" | "n = 2" | "n = 3" | "n = 4" | "n = 5" | "n = 6" | "n = 7"
    | "n = 8" | "n = 9" | "10 \<le> n" by atomize_elim presburger
  then show "bit (Pte_into (Pte_from w)) n = bit w n"
    by cases (use n in \<open>auto simp: bit_Pte_into rsw Pte_from_ppn bit_drop_bit_eq\<close>)
qed

lemma Pte_into_valid: "Pte_into ((Pte_from w)\<lparr>pte_v := True\<rparr>) = w OR 1"
proof -
  have "Pte_into ((Pte_from w)\<lparr>pte_v := True\<rparr>) = Pte_into (Pte_from w) OR 1"
    by (rule bit_word_eqI) (auto simp: Pte_into_def bit_simps)
  then show ?thesis by (simp add: Pte_into_from)
qed

text \<open>The entry of \<open>from_addr\<close> with the valid bit: the page number and nothing else.\<close>

lemma Pte_from_addr_eq: "Pte_from_addr a = Pte_from (drop_bit 2 (page_of a))"
  by (simp add: Pte_from_addr_def page_of_def mask_eq_exp_minus_1 push_bit_eq_mult)

lemma Pte_into_addr:
  "page_aligned a \<Longrightarrow> Pte_into ((Pte_from_addr a)\<lparr>pte_v := True\<rparr>) = drop_bit 2 a OR 1"
  by (simp add: Pte_from_addr_eq Pte_into_valid)

lemma page_aligned_low_bits: "page_aligned a \<Longrightarrow> n < 12 \<Longrightarrow> \<not> bit a n"
  unfolding page_aligned_def by (metis bit_and_iff bit_mask_iff bit_0_eq bot_apply bot_bool_def
    bit_imp_le_length not_le possible_bit_word)

text \<open>Decoding an entry with page number \<open>a\<close> and flag bits \<open>k\<close>.\<close>

lemma pte_pa_compose:
  assumes "page_aligned a" and "k AND NOT (mask 10) = 0"
  shows "pte_pa (Pte_from (drop_bit 2 a OR k)) = a"
proof (rule bit_word_eqI)
  fix n assume n: "n < LENGTH(32)"
  have k: "\<not> bit k m" if "10 \<le> m" "m < 32" for m
    using arg_cong [OF assms(2), of "\<lambda>x. bit x m"] that by (simp add: bit_simps)
  show "bit (pte_pa (Pte_from (drop_bit 2 a OR k))) n = bit a n"
  proof (cases "n < 12")
    case True
    then show ?thesis
      using n page_aligned_low_bits [OF assms(1)] by (auto simp: Pte_from_pa bit_simps)
  next
    case False
    then have "2 + (n - 2) = n" by simp
    then show ?thesis
      using n False k [of "n - 2"] by (auto simp: Pte_from_pa bit_simps)
  qed
qed

lemma bit_compose_low:
  assumes "page_aligned a" and "n < 10"
  shows "bit (drop_bit 2 a OR k) n = bit k n"
  using assms page_aligned_low_bits [of a "2 + n"] by (simp add: bit_simps)

section \<open>Virtual addresses\<close>

lemma VA_from_vpn: "vpn1 (VA_from a) = drop_bit 22 a" "vpn0 (VA_from a) = drop_bit 12 a AND mask 10"
  by (rule bit_word_eqI; auto simp: VA_from_def mask_numerals bit_simps dest: bit_imp_le_length)+

lemma unat_vpn1: "unat (vpn1 (VA_from a)) = unat a div 2 ^ 22"
  by (simp only: VA_from_vpn unat_drop_bit_eq drop_bit_nat_def)

lemma unat_vpn0: "unat (vpn0 (VA_from a)) = unat a div 2 ^ 12 mod 2 ^ 10"
proof -
  have "drop_bit 12 a AND mask 10 = take_bit 10 (drop_bit 12 a)"
    by (simp add: take_bit_eq_mask)
  then show ?thesis
    by (simp add: VA_from_vpn unsigned_take_bit_eq unat_drop_bit_eq take_bit_nat_def drop_bit_nat_def)
qed

lemma vpn_bounds: "unat (vpn1 (VA_from a)) < 1024" "unat (vpn0 (VA_from a)) < 1024"
proof -
  have "unat a < 2 ^ 32" using unsigned_less [of a] by simp
  then show "unat (vpn1 (VA_from a)) < 1024" by (simp add: unat_vpn1 less_mult_imp_div_less)
  show "unat (vpn0 (VA_from a)) < 1024" by (simp add: unat_vpn0)
qed

lemma vpn_inj:
  "VA_from a = VA_from b \<longleftrightarrow> page_of a = page_of b"
proof -
  have *: "page_of x = push_bit 22 (vpn1 (VA_from x)) OR push_bit 12 (vpn0 (VA_from x))" for x
  proof (rule bit_word_eqI)
    fix n assume "n < LENGTH(32)"
    then consider "n < 12" | "12 \<le> n" "n < 22" | "22 \<le> n" "n < 32" by fastforce
    then show "bit (page_of x) n =
        bit (push_bit 22 (vpn1 (VA_from x)) OR push_bit 12 (vpn0 (VA_from x))) n"
      by cases (auto simp: VA_from_vpn page_of_def bit_simps)
  qed
  have "vpn1 (VA_from x) = drop_bit 22 (page_of x)"
    "vpn0 (VA_from x) = drop_bit 12 (page_of x) AND mask 10" for x
    unfolding VA_from_vpn page_of_def
    by (rule bit_word_eqI; auto simp: bit_simps dest: bit_imp_le_length)+
  then show ?thesis
    using * by (metis VA.equality old.unit.exhaust)
qed

lemma VA_vpn_simps [simp]: "VA_vpn va 0 = Some (vpn0 va)" "VA_vpn va 1 = Some (vpn1 va)"
  by (simp_all add: VA_vpn_def)

end
