(* ===== verification/Lock.thy ===== *)
theory Lock
  imports Machine
begin

text \<open>
  Interrupt-disabling locks: \<open>Cpu::push_interrupt_off\<close> and \<open>pop_interrupt_off\<close>
  (\<open>kernel.rs\<close>) and \<open>IntMutex\<close> (\<open>lock.rs\<close>). A lock is a place in the machine state
  that holds the flag of its \<open>spin::Mutex\<close>, given by a getter and a setter. The locale
  \<open>spin_crate\<close> states what the kernel relies on of the \<open>spin\<close> crate; the locale
  \<open>lock_cell\<close> is the contract between a lock's place and the lock operations, under which
  the lemmas show that taking and releasing a lock is neutral on the interrupt state.
\<close>

section \<open>Operations\<close>

definition push_interrupt_off :: "('h, 'z) machine_scheme \<Rightarrow> fault + ('h, 'z) machine_scheme" where
  "push_interrupt_off s =
     (let old = interrupt_read (csrs s);
          s1 = s\<lparr>csrs := interrupt_off (csrs s)\<rparr>;
          s2 = (if interrupt_off_stack (cpu s1) = 0
                then s1\<lparr>cpu := (cpu s1)\<lparr>interrupt_prev_state := old\<rparr>\<rparr> else s1)
      in bind_ok (add_chk (interrupt_off_stack (cpu s2)) 1) (\<lambda>n.
           Inr (s2\<lparr>cpu := (cpu s2)\<lparr>interrupt_off_stack := n\<rparr>\<rparr>)))"

definition pop_interrupt_off :: "('h, 'z) machine_scheme \<Rightarrow> fault + ('h, 'z) machine_scheme" where
  "pop_interrupt_off s =
     (if interrupt_off_stack (cpu s) < 1 then Inl (Panic ''pop interrupt; empty stack'')
      else bind_ok (sub_chk (interrupt_off_stack (cpu s)) 1) (\<lambda>n.
        let s1 = s\<lparr>cpu := (cpu s)\<lparr>interrupt_off_stack := n\<rparr>\<rparr>
        in if interrupt_off_stack (cpu s1) = 0 \<and> interrupt_prev_state (cpu s1)
           then Inr (s1\<lparr>csrs := interrupt_on (csrs s1)\<rparr>) else Inr s1))"

record 's lockref =
  lk_get :: "'s \<Rightarrow> bool"
  lk_set :: "bool \<Rightarrow> 's \<Rightarrow> 's"

definition IntMutex_lock :: "'h env \<Rightarrow> ('h, 'z) machine_scheme lockref \<Rightarrow>
    ('h, 'z) machine_scheme \<Rightarrow> fault + ('h, 'z) machine_scheme" where
  "IntMutex_lock E L s = bind_ok (push_interrupt_off s) (\<lambda>s1.
     case spin_lock E (lk_get L s1) of None \<Rightarrow> Inl Deadlock | Some b \<Rightarrow> Inr (lk_set L b s1))"

text \<open>The guard of \<open>lock_manual\<close> is forgotten, so its flag stays set, as with a live guard.\<close>

definition lock_manual :: "'h env \<Rightarrow> ('h, 'z) machine_scheme lockref \<Rightarrow>
    ('h, 'z) machine_scheme \<Rightarrow> fault + ('h, 'z) machine_scheme" where
  "lock_manual E L s = bind_ok (push_interrupt_off s) (\<lambda>s1.
     case spin_lock E (lk_get L s1) of None \<Rightarrow> Inl Deadlock | Some b \<Rightarrow> Inr (lk_set L b s1))"

definition unlock_manual :: "'h env \<Rightarrow> ('h, 'z) machine_scheme lockref \<Rightarrow>
    ('h, 'z) machine_scheme \<Rightarrow> fault + ('h, 'z) machine_scheme" where
  "unlock_manual E L s = pop_interrupt_off (lk_set L (spin_unlock E (lk_get L s)) s)"

text \<open>The drop of an \<open>IntMutexGuard\<close>: the inner guard goes first, then the interrupt level.\<close>

definition IntMutexGuard_drop :: "'h env \<Rightarrow> ('h, 'z) machine_scheme lockref \<Rightarrow>
    ('h, 'z) machine_scheme \<Rightarrow> fault + ('h, 'z) machine_scheme" where
  "IntMutexGuard_drop E L s = pop_interrupt_off (lk_set L (spin_unlock E (lk_get L s)) s)"

section \<open>The interrupt state\<close>

text \<open>
  Interrupts are off whenever some level of the off-stack is active, and the next push does not
  overflow the level counter.
\<close>

definition int_ok :: "('h, 'z) machine_scheme \<Rightarrow> bool" where
  "int_ok s \<longleftrightarrow> (interrupt_off_stack (cpu s) \<noteq> 0 \<longrightarrow> \<not> interrupt_read (csrs s)) \<and>
     interrupt_off_stack (cpu s) < 0xffffffff"

text \<open>The trace a balanced push and pop leaves: at level 0 the saved state is refreshed.\<close>

definition refresh_prev :: "('h, 'z) machine_scheme \<Rightarrow> ('h, 'z) machine_scheme" where
  "refresh_prev s = (if interrupt_off_stack (cpu s) = 0
     then s\<lparr>cpu := (cpu s)\<lparr>interrupt_prev_state := interrupt_read (csrs s)\<rparr>\<rparr> else s)"

text \<open>The state after a push: interrupts off, one level deeper.\<close>

definition pushed :: "('h, 'z) machine_scheme \<Rightarrow> ('h, 'z) machine_scheme" where
  "pushed s = (refresh_prev s)\<lparr>csrs := interrupt_off (csrs s),
     cpu := (cpu (refresh_prev s))\<lparr>interrupt_off_stack := interrupt_off_stack (cpu s) + 1\<rparr>\<rparr>"

lemma add_chk_one: "n < 0xffffffff \<Longrightarrow> add_chk n 1 = Inr (n + 1)"
  by (simp add: add_chk_def word_less_nat_alt)

lemma push_interrupt_off_eq:
  assumes "interrupt_off_stack (cpu s) < 0xffffffff"
  shows "push_interrupt_off s = Inr (pushed s)"
  using assms by (simp add: push_interrupt_off_def pushed_def refresh_prev_def Let_def add_chk_one)

lemma push_interrupt_off_overflow:
  assumes "interrupt_off_stack (cpu s) = 0xffffffff"
  shows "push_interrupt_off s = Inl Overflow"
  using assms by (simp add: push_interrupt_off_def Let_def add_chk_def)

lemma pushed_simps [simp]:
  "interrupt_off_stack (cpu (pushed s)) = interrupt_off_stack (cpu s) + 1"
  "csrs (pushed s) = interrupt_off (csrs s)"
  "mem (pushed s) = mem s" "heap_st (pushed s) = heap_st s" "heap_lock (pushed s) = heap_lock s"
  "uart_out (pushed s) = uart_out s" "stimecmp (pushed s) = stimecmp s"
  "current (cpu (pushed s)) = current (cpu s)" "cpu_context (cpu (pushed s)) = cpu_context (cpu s)"
  "machine.more (pushed s) = machine.more s"
  by (simp_all add: pushed_def refresh_prev_def)

lemma refresh_prev_simps [simp]:
  "interrupt_off_stack (cpu (refresh_prev s)) = interrupt_off_stack (cpu s)"
  "csrs (refresh_prev s) = csrs s" "mem (refresh_prev s) = mem s"
  "heap_st (refresh_prev s) = heap_st s" "heap_lock (refresh_prev s) = heap_lock s"
  "uart_out (refresh_prev s) = uart_out s" "stimecmp (refresh_prev s) = stimecmp s"
  "current (cpu (refresh_prev s)) = current (cpu s)"
  "cpu_context (cpu (refresh_prev s)) = cpu_context (cpu s)"
  "machine.more (refresh_prev s) = machine.more s"
  by (simp_all add: refresh_prev_def)

lemma int_ok_refresh_prev [simp]: "int_ok (refresh_prev s) \<longleftrightarrow> int_ok s"
  by (simp add: int_ok_def)

text \<open>
  Popping undoes a push: the CSRs, and with them the interrupt enable, and the level are back.
\<close>

lemma pop_pushed:
  assumes "int_ok s"
  shows "pop_interrupt_off (pushed s) = Inr (refresh_prev s)"
proof -
  let ?n = "interrupt_off_stack (cpu s)"
  have lt: "?n < 0xffffffff" and off: "?n \<noteq> 0 \<Longrightarrow> \<not> interrupt_read (csrs s)"
    using assms by (auto simp: int_ok_def)
  have ge: "\<not> ?n + 1 < 1"
    using lt by (simp add: word_less_nat_alt unat_word_ariths)
  have sub: "sub_chk (?n + 1) 1 = Inr ?n"
    using lt by (simp add: sub_chk_def word_le_nat_alt word_less_nat_alt unat_word_ariths)
  show ?thesis
  proof (cases "?n = 0 \<and> interrupt_read (csrs s)")
    case True
    then show ?thesis
      using ge sub by (simp add: pop_interrupt_off_def pushed_def refresh_prev_def interrupt_on_off)
  next
    case False
    then have "\<not> interrupt_read (csrs s)" using off by blast
    then show ?thesis
      using ge sub by (simp add: pop_interrupt_off_def pushed_def refresh_prev_def interrupt_off_id)
  qed
qed

section \<open>The spin crate and lock places\<close>

text \<open>
  The documented behaviour of \<open>spin::Mutex\<close> on one hart: locking a free mutex takes it,
  locking a held one spins, unlocking frees it.
\<close>

locale spin_crate =
  fixes E :: "'h env"
  assumes lock_free: "spin_lock E False = Some True"
    and lock_held: "spin_lock E True = None"
    and unlock_frees: "spin_unlock E b = False"

text \<open>
  The place of a lock: its flag is independent of the interrupt state, and setting it changes
  neither the interrupt state nor itself twice.
\<close>

locale lock_cell =
  fixes L :: "('h, 'z) machine_scheme lockref"
    and present :: "('h, 'z) machine_scheme \<Rightarrow> bool"
  assumes get_set: "present s \<Longrightarrow> lk_get L (lk_set L b s) = b"
    and set_set: "lk_set L b (lk_set L b2 s) = lk_set L b s"
    and set_get: "lk_get L s = b \<Longrightarrow> lk_set L b s = s"
    and get_csrs: "lk_get L (s\<lparr>csrs := k\<rparr>) = lk_get L s"
    and get_cpu: "lk_get L (s\<lparr>cpu := c\<rparr>) = lk_get L s"
    and set_csrs: "lk_set L b (s\<lparr>csrs := k\<rparr>) = (lk_set L b s)\<lparr>csrs := k\<rparr>"
    and set_cpu: "lk_set L b (s\<lparr>cpu := c\<rparr>) = (lk_set L b s)\<lparr>cpu := c\<rparr>"
    and csrs_set: "csrs (lk_set L b s) = csrs s"
    and cpu_set: "cpu (lk_set L b s) = cpu s"
begin

lemma pushed_set: "pushed (lk_set L b s) = lk_set L b (pushed s)"
  by (simp add: pushed_def refresh_prev_def csrs_set cpu_set set_csrs set_cpu)

lemma get_pushed: "lk_get L (pushed s) = lk_get L s"
  by (simp add: pushed_def refresh_prev_def get_csrs get_cpu)

lemma lock_manual_eq:
  assumes "spin_crate E" and "int_ok s" and "\<not> lk_get L s"
  shows "lock_manual E L s = Inr (lk_set L True (pushed s))"
  using assms spin_crate.lock_free [OF assms(1)]
  by (simp add: lock_manual_def push_interrupt_off_eq int_ok_def get_pushed)

lemma lock_manual_held:
  assumes "spin_crate E" and "int_ok s" and "lk_get L s"
  shows "lock_manual E L s = Inl Deadlock"
  using assms spin_crate.lock_held [OF assms(1)]
  by (simp add: lock_manual_def push_interrupt_off_eq int_ok_def get_pushed)

lemma IntMutex_lock_eq_manual: "IntMutex_lock E L s = lock_manual E L s"
  by (simp add: IntMutex_lock_def lock_manual_def)

lemma guard_drop_eq_manual: "IntMutexGuard_drop E L s = unlock_manual E L s"
  by (simp add: IntMutexGuard_drop_def unlock_manual_def)

lemma unlock_after_lock:
  assumes "spin_crate E" and "int_ok s" and "\<not> lk_get L s"
  shows "unlock_manual E L (lk_set L True (pushed s)) = Inr (refresh_prev s)"
proof -
  have "lk_set L False (pushed s) = pushed s"
    using assms(3) by (simp add: set_get get_pushed)
  then show ?thesis
    using assms(2)
    by (simp add: unlock_manual_def spin_crate.unlock_frees [OF assms(1)] set_set pop_pushed)
qed

text \<open>Taking and releasing a free lock only refreshes the saved interrupt state.\<close>

lemma lock_unlock:
  assumes "spin_crate E" and "int_ok s" and "\<not> lk_get L s"
  shows "bind_ok (lock_manual E L s) (unlock_manual E L) = Inr (refresh_prev s)"
  using assms by (simp add: lock_manual_eq unlock_after_lock)

end

end
