(* ===== verification/Allocator.thy ===== *)
theory Allocator
  imports Lock
begin

text \<open>
  Page allocation (\<open>allocator.rs\<close>): \<open>LockedHeap\<close>, the buddy heap behind an
  \<open>IntMutex\<close>, and \<open>FrameAllocator\<close>, which hands out whole pages. The heap itself is the
  \<open>buddy_system_allocator\<close> crate, a parameter of the model; the locale \<open>buddy_crate\<close>
  states what the kernel relies on of it for page-sized requests: a page that is handed out is
  not null, page aligned, inside the managed region and not handed out already, and a page given
  back is free again. The managed region ends at \<open>RAMEND\<close>, as \<open>main\<close> sets it up. The locale is interpreted on a free-list page heap.
\<close>

section \<open>Operations\<close>

definition LockedHeap_new :: "'h env \<Rightarrow> 'h \<times> bool" where
  "LockedHeap_new E = (bh_new E, False)"

definition LockedHeap_empty :: "'h env \<Rightarrow> 'h \<times> bool" where
  "LockedHeap_empty E = (bh_new E, False)"

text \<open>\<open>Deref\<close> of \<open>LockedHeap\<close>: the mutex inside it.\<close>

definition heap_lockref :: "('h, 'z) machine_scheme lockref" where
  "heap_lockref = \<lparr>lk_get = heap_lock, lk_set = (\<lambda>b s. s\<lparr>heap_lock := b\<rparr>)\<rparr>"

definition LockedHeap_alloc :: "'h env \<Rightarrow> Layout \<Rightarrow> ('h, 'z) machine_scheme \<Rightarrow>
    (('h, 'z) machine_scheme, usize) outcome" where
  "LockedHeap_alloc E layout s =
     bind_ok (IntMutex_lock E heap_lockref s) (\<lambda>s1.
       let (r, h) = bh_alloc E (heap_st s1) layout in
       bind_ok (IntMutexGuard_drop E heap_lockref (s1\<lparr>heap_st := h\<rparr>)) (\<lambda>s2.
         Inr (case r of None \<Rightarrow> 0 | Some p \<Rightarrow> p, s2)))"

definition LockedHeap_dealloc :: "'h env \<Rightarrow> usize \<Rightarrow> Layout \<Rightarrow> ('h, 'z) machine_scheme \<Rightarrow>
    (('h, 'z) machine_scheme, unit) outcome" where
  "LockedHeap_dealloc E ptr layout s =
     bind_ok (unwrap ''called Option::unwrap() on a None value'' (NonNull_new ptr)) (\<lambda>p.
       bind_ok (IntMutex_lock E heap_lockref s) (\<lambda>s1.
         bind_ok (IntMutexGuard_drop E heap_lockref
             (s1\<lparr>heap_st := bh_dealloc E (heap_st s1) p layout\<rparr>)) (\<lambda>s2. Inr ((), s2))))"

text \<open>The result is the slice's address and length; \<open>None\<close> is \<open>AllocError\<close>.\<close>

definition FrameAllocator_allocate :: "'h env \<Rightarrow> Layout \<Rightarrow> ('h, 'z) machine_scheme \<Rightarrow>
    (('h, 'z) machine_scheme, (usize \<times> usize) option) outcome" where
  "FrameAllocator_allocate E layout s =
     (if PAGESIZE < layout_size layout then Inr (None, s)
      else bind_ok (LockedHeap_alloc E PAGE_LAYOUT s) (\<lambda>(frame_ptr, s1).
        case NonNull_new frame_ptr of None \<Rightarrow> Inr (None, s1)
        | Some ptr \<Rightarrow> Inr (Some (ptr, layout_size layout), s1)))"

definition FrameAllocator_deallocate :: "'h env \<Rightarrow> usize \<Rightarrow> Layout \<Rightarrow> ('h, 'z) machine_scheme \<Rightarrow>
    (('h, 'z) machine_scheme, unit) outcome" where
  "FrameAllocator_deallocate E ptr layout s = LockedHeap_dealloc E ptr PAGE_LAYOUT s"

section \<open>The heap lock\<close>

interpretation heap_cell: lock_cell heap_lockref "\<lambda>_. True"
  by unfold_locales (simp_all add: heap_lockref_def)

text \<open>The heap can be used: its lock is free and the interrupt level has room.\<close>

definition heap_ready :: "('h, 'z) machine_scheme \<Rightarrow> bool" where
  "heap_ready s \<longleftrightarrow> int_ok s \<and> \<not> heap_lock s"

lemma heap_ready_frame [simp]:
  "heap_ready (s\<lparr>mem := m\<rparr>) = heap_ready s"
  "heap_ready (s\<lparr>heap_st := h\<rparr>) = heap_ready s"
  "heap_ready (refresh_prev s) = heap_ready s"
  by (simp_all add: heap_ready_def int_ok_def)

lemma heap_lockref_simps [simp]:
  "lk_get heap_lockref s = heap_lock s" "lk_set heap_lockref b s = s\<lparr>heap_lock := b\<rparr>"
  by (simp_all add: heap_lockref_def)

lemma refresh_prev_heap [simp]:
  "refresh_prev (s\<lparr>heap_st := h\<rparr>) = (refresh_prev s)\<lparr>heap_st := h\<rparr>"
  "refresh_prev (s\<lparr>mem := m\<rparr>) = (refresh_prev s)\<lparr>mem := m\<rparr>"
  by (simp_all add: refresh_prev_def)

lemma refresh_prev_twice [simp]: "refresh_prev (refresh_prev s) = refresh_prev s"
  by (simp add: refresh_prev_def)

lemma pushed_heap: "(pushed s)\<lparr>heap_st := h\<rparr> = pushed (s\<lparr>heap_st := h\<rparr>)"
  by (simp add: pushed_def refresh_prev_def)

text \<open>Under the heap lock the allocator runs on the current heap, and the lock is neutral.\<close>

lemma heap_critical:
  assumes "spin_crate E" and "heap_ready s"
  shows "IntMutex_lock E heap_lockref s = Inr ((pushed s)\<lparr>heap_lock := True\<rparr>)"
    and "IntMutexGuard_drop E heap_lockref ((pushed s)\<lparr>heap_lock := True, heap_st := h\<rparr>) =
      Inr ((refresh_prev s)\<lparr>heap_st := h\<rparr>)"
proof -
  have s: "int_ok s" "\<not> lk_get heap_lockref s"
    using assms(2) by (simp_all add: heap_ready_def)
  show "IntMutex_lock E heap_lockref s = Inr ((pushed s)\<lparr>heap_lock := True\<rparr>)"
    using heap_cell.lock_manual_eq [OF assms(1) s]
    by (simp add: heap_cell.IntMutex_lock_eq_manual)
  have h: "int_ok (s\<lparr>heap_st := h\<rparr>)" "\<not> lk_get heap_lockref (s\<lparr>heap_st := h\<rparr>)"
    using s by (simp_all add: int_ok_def)
  have "(pushed s)\<lparr>heap_lock := True, heap_st := h\<rparr> =
      lk_set heap_lockref True (pushed (s\<lparr>heap_st := h\<rparr>))"
    by (simp flip: pushed_heap)
  then show "IntMutexGuard_drop E heap_lockref ((pushed s)\<lparr>heap_lock := True, heap_st := h\<rparr>) =
      Inr ((refresh_prev s)\<lparr>heap_st := h\<rparr>)"
    using heap_cell.unlock_after_lock [OF assms(1) h]
    by (simp add: heap_cell.guard_drop_eq_manual)
qed

lemma LockedHeap_alloc_eq:
  assumes "spin_crate E" and "heap_ready s" and "bh_alloc E (heap_st s) layout = (r, h)"
  shows "LockedHeap_alloc E layout s =
    Inr (case r of None \<Rightarrow> 0 | Some p \<Rightarrow> p, (refresh_prev s)\<lparr>heap_st := h\<rparr>)"
  using assms(3) by (simp add: LockedHeap_alloc_def heap_critical [OF assms(1,2)])

lemma LockedHeap_dealloc_eq:
  assumes "spin_crate E" and "heap_ready s" and "p \<noteq> 0"
  shows "LockedHeap_dealloc E p layout s =
    Inr ((), (refresh_prev s)\<lparr>heap_st := bh_dealloc E (heap_st s) p layout\<rparr>)"
  using assms(3) by (simp add: LockedHeap_dealloc_def heap_critical [OF assms(1,2)])

lemma LockedHeap_dealloc_null:
  "LockedHeap_dealloc E 0 layout s = Inl (Panic ''called Option::unwrap() on a None value'')"
  by (simp add: LockedHeap_dealloc_def NonNull_new_def)

section \<open>Pages in a row\<close>

text \<open>
  \<open>takes E n h\<close>: the heap after \<open>n\<close> page requests, if it serves all of them. It measures
  how much memory an operation needs: \<open>served E n h ok h'\<close> says that an operation that made at
  most \<open>n\<close> page requests of the heap \<open>h\<close> was served, or failed because \<open>n\<close> pages were not
  there.
\<close>

fun takes :: "'h env \<Rightarrow> nat \<Rightarrow> 'h \<Rightarrow> 'h option" where
  "takes E 0 h = Some h"
| "takes E (Suc n) h = (case bh_alloc E h PAGE_LAYOUT of (None, _) \<Rightarrow> None | (Some _, h') \<Rightarrow> takes E n h')"

definition served :: "'h env \<Rightarrow> nat \<Rightarrow> 'h \<Rightarrow> bool \<Rightarrow> 'h \<Rightarrow> bool" where
  "served E n h ok h' \<longleftrightarrow> (if ok then \<exists>k\<le>n. takes E k h = Some h' else takes E n h = None)"

lemma takes_add: "takes E (m + n) h = Option.bind (takes E m h) (takes E n)"
  by (induction m arbitrary: h) (auto split: prod.splits option.splits)

lemma takes_None_mono:
  assumes "takes E m h = None" "m \<le> n"
  shows "takes E n h = None"
  using takes_add [of E m "n - m" h] assms by simp

lemma served_refl [simp]: "served E n h True h"
  unfolding served_def by (auto intro: exI [of _ 0])

lemma served_take:
  "bh_alloc E h PAGE_LAYOUT = (Some a, h') \<Longrightarrow> served E (Suc 0) h True h'"
  "bh_alloc E h PAGE_LAYOUT = (None, h') \<Longrightarrow> served E (Suc 0) h False h''"
  unfolding served_def by (auto intro!: exI [of _ "Suc 0"])

lemma served_mono: "served E m h ok h' \<Longrightarrow> m \<le> n \<Longrightarrow> served E n h ok h'"
  by (cases ok) (auto simp: served_def intro: takes_None_mono le_trans)

lemma served_trans:
  assumes "served E m h True h1" "served E n h1 ok h2"
  shows "served E (m + n) h ok h2"
proof -
  obtain k where k: "k \<le> m" "takes E k h = Some h1" using assms(1) by (auto simp: served_def)
  then have t: "takes E (k + j) h = takes E j h1" for j by (simp add: takes_add)
  show ?thesis
  proof (cases ok)
    case True
    then obtain j where "j \<le> n" "takes E j h1 = Some h2" using assms(2) by (auto simp: served_def)
    then show ?thesis using True k(1) t [of j] by (auto simp: served_def intro!: exI [of _ "k + j"])
  next
    case False
    then have "takes E (k + n) h = None" using assms(2) t by (simp add: served_def)
    then show ?thesis using False k(1) takes_None_mono [of E "k + n" h "m + n"] by (simp add: served_def)
  qed
qed

text \<open>Enough pages: the operation was served.\<close>

lemma served_enough: "served E n h ok h' \<Longrightarrow> takes E n h \<noteq> None \<Longrightarrow> ok"
  by (auto simp: served_def split: if_splits)

section \<open>The buddy heap\<close>

text \<open>
  \<open>live h\<close> is the set of pages the heap state \<open>h\<close> has handed out; \<open>hwf\<close> is the crate's
  own well-formedness; the managed region lies between \<open>lo\<close> and \<open>hi\<close>.
\<close>

locale buddy_crate =
  fixes E :: "'h env"
    and hwf :: "'h \<Rightarrow> bool"
    and live :: "'h \<Rightarrow> usize set"
    and lo :: usize
    and hi :: usize
  assumes alloc_Some: "hwf h \<Longrightarrow> bh_alloc E h PAGE_LAYOUT = (Some a, h') \<Longrightarrow>
      a \<noteq> 0 \<and> page_aligned a \<and> lo \<le> a \<and> a < hi \<and> a \<notin> live h \<and>
      live h' = insert a (live h) \<and> hwf h'"
    and alloc_None: "hwf h \<Longrightarrow> bh_alloc E h PAGE_LAYOUT = (None, h') \<Longrightarrow>
      live h' = live h \<and> hwf h'"
    and dealloc_live: "hwf h \<Longrightarrow> a \<in> live h \<Longrightarrow>
      live (bh_dealloc E h a PAGE_LAYOUT) = live h - {a} \<and> hwf (bh_dealloc E h a PAGE_LAYOUT)"
    and live_pages: "hwf h \<Longrightarrow> a \<in> live h \<Longrightarrow> a \<noteq> 0 \<and> page_aligned a \<and> lo \<le> a \<and> a < hi"
    and region: "hi \<le> RAMEND"

text \<open>Both crates together: what the memory components rely on.\<close>

locale platform = spin_crate E + buddy_crate E hwf live lo hi
  for E :: "'h env" and hwf :: "'h \<Rightarrow> bool" and live :: "'h \<Rightarrow> usize set"
    and lo :: usize and hi :: usize
begin

lemma spin: "spin_crate E"
  by unfold_locales

text \<open>
  A page request ends in one of two ways: null with nothing handed out, or a fresh page.
\<close>

lemma page_alloc_cases:
  assumes "heap_ready s" and "hwf (heap_st s)"
  obtains (oom) h where "LockedHeap_alloc E PAGE_LAYOUT s = Inr (0, (refresh_prev s)\<lparr>heap_st := h\<rparr>)"
      and "bh_alloc E (heap_st s) PAGE_LAYOUT = (None, h)"
      and "live h = live (heap_st s)" and "hwf h"
  | (page) a h where "LockedHeap_alloc E PAGE_LAYOUT s = Inr (a, (refresh_prev s)\<lparr>heap_st := h\<rparr>)"
      and "bh_alloc E (heap_st s) PAGE_LAYOUT = (Some a, h)"
      and "a \<noteq> 0" and "page_aligned a" and "lo \<le> a" and "a < hi"
      and "a \<notin> live (heap_st s)" and "live h = insert a (live (heap_st s))" and "hwf h"
proof -
  obtain r h where r: "bh_alloc E (heap_st s) PAGE_LAYOUT = (r, h)"
    by (cases "bh_alloc E (heap_st s) PAGE_LAYOUT")
  note eq = LockedHeap_alloc_eq [OF spin assms(1) r]
  show thesis
  proof (cases r)
    case None
    then show ?thesis
      using eq r alloc_None [OF assms(2)] by (intro oom [of h]) auto
  next
    case (Some a)
    then show ?thesis
      using eq r alloc_Some [OF assms(2)] by (intro page [of a h]) auto
  qed
qed

text \<open>A page of the heap does not end at the top of the address space.\<close>

lemma live_bound: "hwf h \<Longrightarrow> a \<in> live h \<Longrightarrow> unat a + 4096 < 2 ^ 32"
  using live_pages [of h a] region by (simp add: RAMEND_num word_le_nat_alt word_less_nat_alt)

lemma page_dealloc:
  assumes "heap_ready s" and "hwf (heap_st s)" and "a \<in> live (heap_st s)"
  obtains h where "LockedHeap_dealloc E a PAGE_LAYOUT s = Inr ((), (refresh_prev s)\<lparr>heap_st := h\<rparr>)"
    and "live h = live (heap_st s) - {a}" and "hwf h"
  using LockedHeap_dealloc_eq [OF spin assms(1)] live_pages [OF assms(2,3)]
    dealloc_live [OF assms(2,3)] that by blast

end

section \<open>A free-list page heap\<close>

text \<open>
  An instance of the parameters: a page heap that keeps the list of its free pages, a spin mutex
  that is its flag, and a plausible link map. It shows that the contracts above can be met and
  gives the concrete machine on which statements are evaluated.
\<close>

definition fl_managed :: "usize \<Rightarrow> bool" where
  "fl_managed a \<longleftrightarrow> page_aligned a \<and> 0x80300000 \<le> a \<and> a < RAMEND"

definition fl_wf :: "usize list \<Rightarrow> bool" where
  "fl_wf h \<longleftrightarrow> distinct h \<and> list_all fl_managed h"

definition fl_live :: "usize list \<Rightarrow> usize set" where
  "fl_live h = {a. fl_managed a} - set h"

definition fl_alloc :: "usize list \<Rightarrow> Layout \<Rightarrow> usize option \<times> usize list" where
  "fl_alloc h layout = (if layout = PAGE_LAYOUT
     then case h of [] \<Rightarrow> (None, []) | a # as \<Rightarrow> (Some a, as) else (None, h))"

definition fl_env :: "usize list env" where
  "fl_env = \<lparr>spin_lock = (\<lambda>b. if b then None else Some True), spin_unlock = (\<lambda>_. False),
     bh_new = [], bh_init = (\<lambda>h lo size. h), bh_alloc = fl_alloc,
     bh_dealloc = (\<lambda>h p _. p # h), sym_etext = 0x80220000, sym_ekernel = 0x80300000,
     sym_trampoline = 0x8021f000, fn_uservec = 0x8021f000, fn_userret = 0x8021f0a0,
     fn_usertrap = 0x80204000, fn_kernelvec = 0x80203000, fn_forkret = 0x80205000,
     img_INIT = (0x80230000, 5000), img_PRIME = (0x80240000, 5100)\<rparr>"

lemma fl_managed_nonzero: "fl_managed a \<Longrightarrow> a \<noteq> 0"
  by (auto simp: fl_managed_def)

lemma fl_takes: "takes fl_env n h = (if n \<le> length h then Some (drop n h) else None)"
  by (induction n arbitrary: h) (auto simp: fl_env_def fl_alloc_def split: list.splits)

interpretation fl_spin: spin_crate fl_env
  by unfold_locales (simp_all add: fl_env_def)

interpretation fl_buddy: buddy_crate fl_env fl_wf fl_live "0x80300000" RAMEND
proof unfold_locales
  fix h a h'
  assume "fl_wf h" and "bh_alloc fl_env h PAGE_LAYOUT = (Some a, h')"
  then have h: "h = a # h'" and "distinct h" "list_all fl_managed h"
    by (auto simp: fl_env_def fl_alloc_def fl_wf_def split: list.splits)
  then have "fl_managed a" by simp
  then show "a \<noteq> 0 \<and> page_aligned a \<and> 0x80300000 \<le> a \<and> a < RAMEND \<and> a \<notin> fl_live h \<and>
      fl_live h' = insert a (fl_live h) \<and> fl_wf h'"
    using h \<open>distinct h\<close> \<open>list_all fl_managed h\<close> fl_managed_nonzero
    by (auto simp: fl_live_def fl_wf_def fl_managed_def)
next
  fix h h'
  assume "fl_wf h" and "bh_alloc fl_env h PAGE_LAYOUT = (None, h')"
  then show "fl_live h' = fl_live h \<and> fl_wf h'"
    by (auto simp: fl_env_def fl_alloc_def split: list.splits)
next
  fix h a
  assume "fl_wf h" and "a \<in> fl_live h"
  then show "fl_live (bh_dealloc fl_env h a PAGE_LAYOUT) = fl_live h - {a} \<and>
      fl_wf (bh_dealloc fl_env h a PAGE_LAYOUT)"
    by (auto simp: fl_env_def fl_live_def fl_wf_def)
next
  fix h a
  assume "fl_wf h" and "a \<in> fl_live h"
  then show "a \<noteq> 0 \<and> page_aligned a \<and> 0x80300000 \<le> a \<and> a < RAMEND"
    by (auto simp: fl_live_def fl_managed_def)
qed simp

interpretation fl: platform fl_env fl_wf fl_live "0x80300000" RAMEND
  by unfold_locales

end
