(* ===== verification/PageTable.thy ===== *)
theory PageTable
  imports Pte Allocator
begin

text \<open>
  Two-level Sv32 page tables (\<open>virtmemory.rs\<close>, \<open>impl PageTable\<close>): allocation, the walk,
  mapping and unmapping of ranges, and the release of a table. The tables live in physical
  memory, as in the code: an entry is a word that \<open>walk\<close> finds by its address. This theory
  holds the operations; their meaning is the subject of \<open>PageTableInv\<close> and
  \<open>PageTableSpec\<close>.
\<close>

section \<open>Operations\<close>

record PageTable =
  pt_root :: usize

datatype WalkType = Alloc | Walk

text \<open>
  \<open>PageTable::new\<close>, also the \<open>Default\<close>: the new page is cleared before the null check, as in
  the code; \<open>write_bytes\<close> counts \<open>usize\<close> elements, 1024 of them.
\<close>

definition PageTable_new :: "'h env \<Rightarrow> ('h, 'z) machine_scheme \<Rightarrow>
    (('h, 'z) machine_scheme, PageTable) outcome" where
  "PageTable_new E s =
     bind_ok (LockedHeap_alloc E PAGE_LAYOUT s) (\<lambda>(ptr, s1).
       let s2 = s1\<lparr>mem := write_bytes (mem s1) ptr 0 (1024 * 4)\<rparr> in
       bind_ok (unwrap ''failed to allocate root page table'' (NonNull_new ptr)) (\<lambda>p.
         Inr (\<lparr>pt_root = p\<rparr>, s2)))"

text \<open>The address of entry \<open>i\<close> of the table at \<open>base\<close>: \<open>base.add(i)\<close> on \<open>*mut usize\<close>.\<close>

definition entry_addr :: "usize \<Rightarrow> usize \<Rightarrow> usize" where
  "entry_addr base i = base + 4 * i"

text \<open>
  \<open>free_req\<close> recurses through every valid entry without permission bits. The first argument
  bounds the depth of the recursion; exhausting it stands for the kernel stack overflowing. A
  table built by the operations below has two levels.
\<close>

fun free_req :: "nat \<Rightarrow> usize \<Rightarrow> ('h, 'z) machine_scheme \<Rightarrow> fault + ('h, 'z) machine_scheme"
  and free_req_loop :: "nat \<Rightarrow> usize \<Rightarrow> nat list \<Rightarrow> ('h, 'z) machine_scheme \<Rightarrow>
    fault + ('h, 'z) machine_scheme" where
  "free_req 0 root s = Inl StackOverflow"
| "free_req (Suc d) root s = free_req_loop d root [0..<1024] s"
| "free_req_loop d root [] s = Inr s"
| "free_req_loop d root (i # is) s =
     (let pte = Pte_from (load32 (mem s) (entry_addr root (of_nat i))) in
      if pte_v pte then
        if \<not> pte_r pte \<and> \<not> pte_w pte \<and> \<not> pte_x pte then
          bind_ok (unwrap ''called Option::unwrap() on a None value''
              (NonNull_new (push_bit 12 (pte_ppn pte)))) (\<lambda>child.
            bind_ok (free_req d child s) (\<lambda>s1.
              free_req_loop d root is (s1\<lparr>mem := store32 (mem s1) child 0\<rparr>)))
        else Inl (Panic ''unmapping allocated page'')
      else free_req_loop d root is s)"

definition free_req_depth :: nat where
  "free_req_depth = 16"

definition PageTable_free :: "'h env \<Rightarrow> PageTable \<Rightarrow> ('h, 'z) machine_scheme \<Rightarrow>
    (('h, 'z) machine_scheme, unit) outcome" where
  "PageTable_free E pt s =
     bind_ok (free_req free_req_depth (pt_root pt) s) (\<lambda>s1.
       LockedHeap_dealloc E (pt_root pt) PAGE_LAYOUT s1)"

definition PageTable_drop :: "'h env \<Rightarrow> PageTable \<Rightarrow> ('h, 'z) machine_scheme \<Rightarrow>
    (('h, 'z) machine_scheme, unit) outcome" where
  "PageTable_drop E pt s = PageTable_free E pt s"

definition walk :: "'h env \<Rightarrow> PageTable \<Rightarrow> usize \<Rightarrow> WalkType \<Rightarrow> ('h, 'z) machine_scheme \<Rightarrow>
    (('h, 'z) machine_scheme, usize option) outcome" where
  "walk E pt virt_a walk_type s =
     (let va = VA_from virt_a in
      case VA_vpn va 1 of None \<Rightarrow> Inr (None, s) | Some index \<Rightarrow>
      let pte_addr = entry_addr (pt_root pt) index;
          pte = Pte_from (load32 (mem s) pte_addr) in
      bind_ok
        (if pte_v pte then Inr (NonNull_new (push_bit 12 (pte_ppn pte)), s)
         else if walk_type = Walk then Inr (None, s)
         else bind_ok (LockedHeap_alloc E PAGE_LAYOUT s) (\<lambda>(new_page, s1).
           case NonNull_new new_page of None \<Rightarrow> Inr (None, s1) | Some a \<Rightarrow>
           let s2 = s1\<lparr>mem := write_bytes (mem s1) a 0 (1024 * 4)\<rparr>;
               new_pte = (Pte_from_addr a)\<lparr>pte_v := True\<rparr>;
               s3 = s2\<lparr>mem := store32 (mem s2) pte_addr (Pte_into new_pte)\<rparr>
           in Inr (Some a, s3)))
        (\<lambda>(base, s').
          case base of None \<Rightarrow> Inr (None, s') | Some a \<Rightarrow>
          case VA_vpn va 0 of None \<Rightarrow> Inr (None, s') | Some index0 \<Rightarrow>
          Inr (Some (entry_addr a index0), s')))"

text \<open>The word \<open>map\<close> writes for a page: \<open>from_addr\<close>, the valid bit, then \<open>|= perm\<close>.\<close>

definition leaf_word :: "usize \<Rightarrow> usize \<Rightarrow> usize" where
  "leaf_word paddr perm = Pte_into ((Pte_from_addr paddr)\<lparr>pte_v := True\<rparr>) OR perm"

function map_loop :: "'h env \<Rightarrow> PageTable \<Rightarrow> usize \<Rightarrow> usize \<Rightarrow> usize \<Rightarrow> usize \<Rightarrow>
    ('h, 'z) machine_scheme \<Rightarrow> (('h, 'z) machine_scheme, unit rresult) outcome" where
  "map_loop E pt vaddr paddr vaddr_end perm s =
     (if vaddr < vaddr_end then
        bind_ok (walk E pt vaddr Alloc s) (\<lambda>(pte_addr, s1).
          case pte_addr of None \<Rightarrow> Inr (Err, s1) | Some p \<Rightarrow>
          bind_ok (add_chk vaddr PAGESIZE) (\<lambda>vaddr'. bind_ok (add_chk paddr PAGESIZE) (\<lambda>paddr'.
            map_loop E pt vaddr' paddr' vaddr_end perm
              (s1\<lparr>mem := store32 (mem s1) p (leaf_word paddr perm)\<rparr>))))
      else Inr (Ok (), s))"
  by pat_completeness auto
termination
proof (relation "measure (\<lambda>(E, pt, vaddr, paddr, vaddr_end, perm, s). unat vaddr_end - unat vaddr)",
    goal_cases)
  case 1
  then show ?case by simp
next
  case (2 E pt vaddr paddr vaddr_end perm s x x1 y p vaddr' paddr')
  then have "unat vaddr' = unat vaddr + 4096"
    by (auto dest!: add_chk_unat simp: PAGESIZE_num)
  with 2(1) show ?case by (simp add: word_less_nat_alt)
qed

declare map_loop.simps [simp del]

definition PageTable_map :: "'h env \<Rightarrow> PageTable \<Rightarrow> usize \<Rightarrow> usize \<Rightarrow> usize \<Rightarrow> usize \<Rightarrow>
    ('h, 'z) machine_scheme \<Rightarrow> (('h, 'z) machine_scheme, unit rresult) outcome" where
  "PageTable_map E pt virt phys sz perm s =
     (if \<not> is_multiple_of phys PAGESIZE then Inl (Panic ''mapping to unalinged frame'')
      else if \<not> is_multiple_of virt PAGESIZE then Inl (Panic ''mapping unalinged page'')
      else if \<not> is_multiple_of sz PAGESIZE then Inl (Panic ''mapping not whole pages'')
      else bind_ok (add_chk virt sz) (\<lambda>vaddr_end.
        map_loop E pt virt phys vaddr_end perm s))"

text \<open>One round of \<open>unmap\<close>: the entry of \<open>va\<close>, if the walk finds one and it is valid, is
  cleared; a user leaf page is given back first when \<open>free\<close> is set.\<close>

definition unmap_page :: "'h env \<Rightarrow> PageTable \<Rightarrow> usize \<Rightarrow> bool \<Rightarrow> ('h, 'z) machine_scheme \<Rightarrow>
    fault + ('h, 'z) machine_scheme" where
  "unmap_page E pt va free s =
     bind_ok (walk E pt va Walk s) (\<lambda>(pte_addr, s1).
       case pte_addr of None \<Rightarrow> Inr s1 | Some p \<Rightarrow>
       let pte = Pte_from (load32 (mem s1) p) in
       if pte_v pte then
         let is_leaf = pte_r pte \<or> pte_w pte \<or> pte_x pte in
         bind_ok (if free \<and> is_leaf \<and> pte_u pte
             then LockedHeap_dealloc E (push_bit 12 (pte_ppn pte)) PAGE_LAYOUT s1
             else Inr ((), s1)) (\<lambda>(_, s2).
           Inr (s2\<lparr>mem := store32 (mem s2) p 0\<rparr>))
       else Inr s1)"

fun unmap_loop :: "'h env \<Rightarrow> PageTable \<Rightarrow> nat \<Rightarrow> usize \<Rightarrow> bool \<Rightarrow> ('h, 'z) machine_scheme \<Rightarrow>
    (('h, 'z) machine_scheme, unit rresult) outcome" where
  "unmap_loop E pt 0 va free s = Inr (Ok (), s)"
| "unmap_loop E pt (Suc n) va free s =
     bind_ok (unmap_page E pt va free s) (\<lambda>s1.
       bind_ok (add_chk va PAGESIZE) (\<lambda>va'. unmap_loop E pt n va' free s1))"

definition PageTable_unmap :: "'h env \<Rightarrow> PageTable \<Rightarrow> usize \<Rightarrow> usize \<Rightarrow> bool \<Rightarrow>
    ('h, 'z) machine_scheme \<Rightarrow> (('h, 'z) machine_scheme, unit rresult) outcome" where
  "PageTable_unmap E pt virt sz free s =
     (if \<not> is_multiple_of sz PAGESIZE then Inr (Err, s)
      else unmap_loop E pt (unat (sz div PAGESIZE)) virt free s)"

text \<open>\<open>walkaddr\<close>: the physical address behind a virtual one; it asks for some permission bit,
  not for the user bit.\<close>

definition walkaddr :: "'h env \<Rightarrow> PageTable \<Rightarrow> usize \<Rightarrow> ('h, 'z) machine_scheme \<Rightarrow>
    (('h, 'z) machine_scheme, usize option) outcome" where
  "walkaddr E pt virt_a s =
     bind_ok (walk E pt virt_a Walk s) (\<lambda>(pte_addr, s1).
       case pte_addr of None \<Rightarrow> Inr (None, s1) | Some p \<Rightarrow>
       let pte = Pte_from (load32 (mem s1) p) in
       if \<not> pte_v pte \<or> \<not> (pte_r pte \<or> pte_w pte \<or> pte_x pte) then Inr (None, s1)
       else bind_ok (add_chk (pte_pa pte) (virt_a mod PAGESIZE)) (\<lambda>pa. Inr (Some pa, s1)))"

end
