(* ===== verification/Uart.thy ===== *)
theory Uart
  imports Machine
begin

text \<open>
  The console (\<open>uart.rs\<close>): \<open>uart_print\<close>, which writes every byte of a message to the
  UART's data register, and \<open>UartWriter\<close>, the 256-byte stack buffer used in trap context.
  The bytes the UART has been given, oldest first, are the field \<open>uart_out\<close> of the machine.
\<close>

section \<open>Operations\<close>

definition write_volatile_uart :: "u8 \<Rightarrow> ('h, 'z) machine_scheme \<Rightarrow> ('h, 'z) machine_scheme" where
  "write_volatile_uart c s = s\<lparr>uart_out := uart_out s @ [c]\<rparr>"

fun uart_print :: "u8 list \<Rightarrow> ('h, 'z) machine_scheme \<Rightarrow> ('h, 'z) machine_scheme" where
  "uart_print [] s = s"
| "uart_print (c # cs) s = uart_print cs (write_volatile_uart c s)"

record UartWriter =
  uw_buf :: "u8 list"
  uw_pos :: nat

definition UartWriter_new :: UartWriter where
  "UartWriter_new = \<lparr>uw_buf = replicate 256 0, uw_pos = 0\<rparr>"

definition UartWriter_put :: "UartWriter \<Rightarrow> u8 \<Rightarrow> UartWriter" where
  "UartWriter_put w b = (if uw_pos w < length (uw_buf w)
     then w\<lparr>uw_buf := (uw_buf w)[uw_pos w := b], uw_pos := uw_pos w + 1\<rparr> else w)"

fun UartWriter_write_str :: "UartWriter \<Rightarrow> u8 list \<Rightarrow> unit rresult \<times> UartWriter" where
  "UartWriter_write_str w [] = (Ok (), w)"
| "UartWriter_write_str w (b # bs) = UartWriter_write_str (UartWriter_put w b) bs"

fun flush_loop :: "u8 list \<Rightarrow> ('h, 'z) machine_scheme \<Rightarrow> ('h, 'z) machine_scheme" where
  "flush_loop [] s = s"
| "flush_loop (b # bs) s = flush_loop bs (write_volatile_uart b s)"

text \<open>\<open>&buf[..pos]\<close> panics when \<open>pos\<close> exceeds the buffer.\<close>

definition UartWriter_flush ::
    "UartWriter \<Rightarrow> ('h, 'z) machine_scheme \<Rightarrow> fault + ('h, 'z) machine_scheme" where
  "UartWriter_flush w s = (if length (uw_buf w) < uw_pos w
     then Inl (Panic ''range end index out of range for slice'')
     else Inr (flush_loop (take (uw_pos w) (uw_buf w)) s))"

section \<open>Facts\<close>

definition writer_inv :: "UartWriter \<Rightarrow> bool" where
  "writer_inv w \<longleftrightarrow> length (uw_buf w) = 256 \<and> uw_pos w \<le> 256"

lemma uart_print_appends: "uart_print msg s = s\<lparr>uart_out := uart_out s @ msg\<rparr>"
  by (induction msg arbitrary: s) (simp_all add: write_volatile_uart_def)

lemma flush_loop_appends: "flush_loop bs s = s\<lparr>uart_out := uart_out s @ bs\<rparr>"
  by (induction bs arbitrary: s) (simp_all add: write_volatile_uart_def)

lemma writer_inv_new: "writer_inv UartWriter_new"
  by (simp add: writer_inv_def UartWriter_new_def)

lemma writer_inv_put: "writer_inv w \<Longrightarrow> writer_inv (UartWriter_put w b)"
  by (auto simp: writer_inv_def UartWriter_put_def)

lemma put_contents:
  assumes "writer_inv w"
  shows "take (uw_pos (UartWriter_put w b)) (uw_buf (UartWriter_put w b)) =
    take 256 (take (uw_pos w) (uw_buf w) @ [b])"
  using assms by (auto simp: writer_inv_def UartWriter_put_def take_Suc_conv_app_nth)

lemma write_str_contents:
  assumes "writer_inv w"
  shows "writer_inv (snd (UartWriter_write_str w msg)) \<and>
    take (uw_pos (snd (UartWriter_write_str w msg))) (uw_buf (snd (UartWriter_write_str w msg))) =
      take 256 (take (uw_pos w) (uw_buf w) @ msg)"
  using assms
proof (induction msg arbitrary: w)
  case Nil
  then show ?case by (simp add: writer_inv_def)
next
  case (Cons b bs)
  let ?w = "UartWriter_put w b"
  have "take 256 (take (uw_pos ?w) (uw_buf ?w) @ bs) = take 256 (take (uw_pos w) (uw_buf w) @ b # bs)"
    unfolding put_contents [OF Cons.prems]
    using Cons.prems by (cases "uw_pos w < 256") (simp_all add: writer_inv_def)
  with Cons.IH [OF writer_inv_put [OF Cons.prems]] show ?case by simp
qed

end
