(* ===== verification/Uvm.thy ===== *)
theory Uvm
  imports PageTable Uart
begin

text \<open>
  Address spaces (\<open>virtmemory.rs\<close>): the kernel's (\<open>Kvm\<close>), the users' (\<open>Uvm\<close>) and
  the copy functions between kernel and user memory. An \<open>&mut self\<close> method returns the
  updated structure with its result. A structure that goes out of scope is dropped where Rust
  drops it: the drop of a \<open>Uvm\<close> runs its own \<open>free\<close> and then drops its page table.
\<close>

section \<open>Kernel address space\<close>

record Kvm =
  kvm_pagetable :: PageTable

text \<open>\<open>KERNEL_STACK_PAGES\<close> (\<open>process.rs\<close>).\<close>

definition KERNEL_STACK_PAGES :: usize where "KERNEL_STACK_PAGES = 2"

text \<open>One \<open>map(...)?\<close> of \<open>Kvm::init\<close>: an error returns early and drops the table.\<close>

definition kvm_map :: "'h env \<Rightarrow> PageTable \<Rightarrow> usize \<Rightarrow> usize \<Rightarrow> usize \<Rightarrow> usize \<Rightarrow>
    (('h, 'z) machine_scheme \<Rightarrow> (('h, 'z) machine_scheme, Kvm rresult) outcome) \<Rightarrow>
    ('h, 'z) machine_scheme \<Rightarrow> (('h, 'z) machine_scheme, Kvm rresult) outcome" where
  "kvm_map E pt virt phys sz perm k s =
     bind_ok (PageTable_map E pt virt phys sz perm s) (\<lambda>(r, s1).
       case r of Err \<Rightarrow> bind_ok (PageTable_drop E pt s1) (\<lambda>(_, s2). Inr (Err, s2))
       | Ok _ \<Rightarrow> k s1)"

definition Kvm_init :: "'h env \<Rightarrow> ('h, 'z) machine_scheme \<Rightarrow>
    (('h, 'z) machine_scheme, Kvm rresult) outcome" where
  "Kvm_init E s =
     (let trampoline = sym_trampoline E in
      bind_ok (PageTable_new E s) (\<lambda>(pt, s0).
        kvm_map E pt UART UART PAGESIZE (PTE_R OR PTE_W) (\<lambda>s1.
        let end_text = sym_etext E in
        bind_ok (sub_chk end_text KERNEL_START) (\<lambda>text_size.
        kvm_map E pt KERNEL_START KERNEL_START text_size (PTE_X OR PTE_R) (\<lambda>s2.
        bind_ok (sub_chk RAMEND end_text) (\<lambda>data_size.
        kvm_map E pt end_text end_text data_size (PTE_R OR PTE_W) (\<lambda>s3.
        kvm_map E pt TRAMPOLINE trampoline PAGESIZE (PTE_R OR PTE_X) (\<lambda>s4.
        Inr (Ok \<lparr>kvm_pagetable = pt\<rparr>, s4)) s3) s2)) s1)) s0))"

text \<open>\<open>alloc_kstack\<close>: \<open>for i in 0..KERNEL_STACK_PAGES\<close>.\<close>

fun alloc_kstack_loop :: "'h env \<Rightarrow> PageTable \<Rightarrow> usize \<Rightarrow> nat list \<Rightarrow> ('h, 'z) machine_scheme \<Rightarrow>
    fault + ('h, 'z) machine_scheme" where
  "alloc_kstack_loop E pt va [] s = Inr s"
| "alloc_kstack_loop E pt va (i # is) s =
     bind_ok (FrameAllocator_allocate E PAGE_LAYOUT s) (\<lambda>(r, s1).
       bind_ok (unwrap ''called Result::unwrap() on an Err value: AllocError'' r) (\<lambda>(kstack_page, _).
         bind_ok (mul_chk (of_nat i) PAGESIZE) (\<lambda>off. bind_ok (add_chk va off) (\<lambda>virt.
           bind_ok (PageTable_map E pt virt kstack_page PAGESIZE (PTE_R OR PTE_W) s1) (\<lambda>(m, s2).
             case m of Err \<Rightarrow> Inl (Panic ''called Result::unwrap() on an Err value'')
             | Ok _ \<Rightarrow> alloc_kstack_loop E pt va is s2)))))"

definition Kvm_alloc_kstack :: "'h env \<Rightarrow> Kvm \<Rightarrow> usize \<Rightarrow> ('h, 'z) machine_scheme \<Rightarrow>
    fault + ('h, 'z) machine_scheme" where
  "Kvm_alloc_kstack E kvm va s =
     alloc_kstack_loop E (kvm_pagetable kvm) va [0..<unat KERNEL_STACK_PAGES] s"

definition Kvm_start_kvm :: "Kvm \<Rightarrow> ('h, 'z) machine_scheme \<Rightarrow> ('h, 'z) machine_scheme" where
  "Kvm_start_kvm kvm s =
     (let satp = \<lparr>satp_mode = 1, satp_asid = 0, satp_ppn = drop_bit 12 (pt_root (kvm_pagetable kvm))\<rparr>
      in s\<lparr>csrs := write_csr (csrs s) Csr_satp (SATP_into satp)\<rparr>)"

section \<open>User address spaces\<close>

record Uvm =
  uvm_begin :: usize
  uvm_size :: usize
  uvm_pagetable :: PageTable

definition Uvm_new :: "'h env \<Rightarrow> ('h, 'z) machine_scheme \<Rightarrow>
    (('h, 'z) machine_scheme, Uvm rresult) outcome" where
  "Uvm_new E s = bind_ok (PageTable_new E s) (\<lambda>(pt, s1).
     Inr (Ok \<lparr>uvm_begin = USER_START, uvm_size = 0, uvm_pagetable = pt\<rparr>, s1))"

text \<open>\<open>Result::unwrap\<close> on \<open>Result<T, ()>\<close>.\<close>

definition unwrap_result :: "'a rresult \<Rightarrow> fault + 'a" where
  "unwrap_result r = (case r of Ok x \<Rightarrow> Inr x
     | Err \<Rightarrow> Inl (Panic ''called Result::unwrap() on an Err value: ()''))"

definition Uvm_free :: "'h env \<Rightarrow> Uvm \<Rightarrow> ('h, 'z) machine_scheme \<Rightarrow>
    (('h, 'z) machine_scheme, unit) outcome" where
  "Uvm_free E uv s =
     bind_ok (PageTable_unmap E (uvm_pagetable uv) TRAMPOLINE PAGESIZE False s) (\<lambda>(r1, s1).
     bind_ok (unwrap_result r1) (\<lambda>_.
     bind_ok (PageTable_unmap E (uvm_pagetable uv) TRAPFRAME PAGESIZE False s1) (\<lambda>(r2, s2).
     bind_ok (unwrap_result r2) (\<lambda>_.
     if 0 < uvm_size uv then
       bind_ok (PageTable_unmap E (uvm_pagetable uv) (uvm_begin uv) (uvm_size uv) True s2) (\<lambda>(r3, s3).
       bind_ok (unwrap_result r3) (\<lambda>_. Inr ((), s3)))
     else Inr ((), s2)))))"

definition Uvm_drop :: "'h env \<Rightarrow> Uvm \<Rightarrow> ('h, 'z) machine_scheme \<Rightarrow>
    (('h, 'z) machine_scheme, unit) outcome" where
  "Uvm_drop E uv s =
     bind_ok (Uvm_free E uv s) (\<lambda>(_, s1). PageTable_drop E (uvm_pagetable uv) s1)"

definition Uvm_get_satp :: "Uvm \<Rightarrow> SATP" where
  "Uvm_get_satp uv =
     \<lparr>satp_mode = 1, satp_asid = 0, satp_ppn = drop_bit 12 (pt_root (uvm_pagetable uv))\<rparr>"

definition Uvm_end :: "Uvm \<Rightarrow> fault + usize" where
  "Uvm_end uv = add_chk (uvm_begin uv) (uvm_size uv)"

function Uvm_alloc :: "'h env \<Rightarrow> Uvm \<Rightarrow> usize \<Rightarrow> usize \<Rightarrow> ('h, 'z) machine_scheme \<Rightarrow>
    (('h, 'z) machine_scheme, unit rresult \<times> Uvm) outcome" where
  "Uvm_alloc E uv sz perm s =
     (if uvm_size uv < sz then
        if perm = 0 then
          bind_ok (add_chk (uvm_size uv) PAGESIZE) (\<lambda>n. Uvm_alloc E (uv\<lparr>uvm_size := n\<rparr>) sz perm s)
        else
          bind_ok (LockedHeap_alloc E PAGE_LAYOUT s) (\<lambda>(page, s1).
            if page = 0 then Inr ((Err, uv), s1)
            else bind_ok (Uvm_end uv) (\<lambda>end_va.
              bind_ok (PageTable_map E (uvm_pagetable uv) end_va page PAGESIZE (perm OR PTE_U) s1) (\<lambda>(r, s2).
                case r of
                  Err \<Rightarrow> bind_ok (LockedHeap_dealloc E page PAGE_LAYOUT s2) (\<lambda>(_, s3). Inr ((Err, uv), s3))
                | Ok _ \<Rightarrow> bind_ok (add_chk (uvm_size uv) PAGESIZE) (\<lambda>n.
                    Uvm_alloc E (uv\<lparr>uvm_size := n\<rparr>) sz perm s2))))
      else Inr ((Ok (), uv), s))"
  by pat_completeness auto
termination
  by (relation "measure (\<lambda>(E, uv, sz, perm, s). unat sz - unat (uvm_size uv))")
    (auto dest!: add_chk_unat simp: PAGESIZE_num word_less_nat_alt)

declare Uvm_alloc.simps [simp del]

definition Uvm_grow :: "'h env \<Rightarrow> Uvm \<Rightarrow> usize \<Rightarrow> usize \<Rightarrow> ('h, 'z) machine_scheme \<Rightarrow>
    (('h, 'z) machine_scheme, unit rresult \<times> Uvm) outcome" where
  "Uvm_grow E uv sz perm s =
     bind_ok (add_chk (uvm_size uv) sz) (\<lambda>n. Uvm_alloc E uv n perm s)"

definition Uvm_dealloc :: "'h env \<Rightarrow> Uvm \<Rightarrow> usize \<Rightarrow> ('h, 'z) machine_scheme \<Rightarrow>
    (('h, 'z) machine_scheme, unit rresult \<times> Uvm) outcome" where
  "Uvm_dealloc E uv sz s =
     (if \<not> is_multiple_of sz PAGESIZE then Inr ((Err, uv), s)
      else bind_ok (add_chk USER_START sz) (\<lambda>newend.
        bind_ok (sub_chk (uvm_size uv) sz) (\<lambda>n.
          bind_ok (PageTable_unmap E (uvm_pagetable uv) newend n True s) (\<lambda>(r, s1).
            case r of Err \<Rightarrow> Inr ((Err, uv), s1)
            | Ok _ \<Rightarrow> Inr ((Ok (), uv\<lparr>uvm_size := sz\<rparr>), s1)))))"

text \<open>\<open>init_proc\<close> takes the address of the process's trapframe.\<close>

definition Uvm_init_proc :: "'h env \<Rightarrow> Uvm \<Rightarrow> usize \<Rightarrow> ('h, 'z) machine_scheme \<Rightarrow>
    (('h, 'z) machine_scheme, unit rresult) outcome" where
  "Uvm_init_proc E uv trapframe s =
     bind_ok (PageTable_map E (uvm_pagetable uv) TRAMPOLINE (sym_trampoline E) PAGESIZE
         (PTE_R OR PTE_X) s) (\<lambda>(r, s1).
       case r of Err \<Rightarrow> Inr (Err, s1) | Ok _ \<Rightarrow>
       bind_ok (PageTable_map E (uvm_pagetable uv) TRAPFRAME trapframe PAGESIZE
           (PTE_R OR PTE_W) s1) (\<lambda>(r', s2).
         case r' of Err \<Rightarrow> Inr (Err, s2) | Ok _ \<Rightarrow> Inr (Ok (), s2)))"

text \<open>\<open>(a..b).step_by(n)\<close> for a positive step.\<close>

definition step_range :: "usize \<Rightarrow> usize \<Rightarrow> usize \<Rightarrow> usize list" where
  "step_range a b n = map (\<lambda>i. a + of_nat i * n) [0..<(unat b - unat a + (unat n - 1)) div unat n]"

fun clone_loop :: "'h env \<Rightarrow> PageTable \<Rightarrow> PageTable \<Rightarrow> usize list \<Rightarrow> ('h, 'z) machine_scheme \<Rightarrow>
    fault + ('h, 'z) machine_scheme" where
  "clone_loop E src dst [] s = Inr s"
| "clone_loop E src dst (addr # as) s =
     bind_ok (walk E src addr Walk s) (\<lambda>(p, s1).
       bind_ok (unwrap ''called Option::unwrap() on a None value'' p) (\<lambda>pte_addr.
         let pte = Pte_from (load32 (mem s1) pte_addr) in
         if \<not> pte_v pte then clone_loop E src dst as s1
         else bind_ok (FrameAllocator_allocate E PAGE_LAYOUT s1) (\<lambda>(r, s2).
           bind_ok (unwrap ''called Result::unwrap() on an Err value: AllocError'' r) (\<lambda>(to, _).
             let s3 = s2\<lparr>mem := copy_nonoverlapping (mem s2) (pte_pa pte) to (unat PAGESIZE)\<rparr> in
             bind_ok (PageTable_map E dst addr to PAGESIZE (pte_perm pte) s3) (\<lambda>(m, s4).
               bind_ok (unwrap_result m) (\<lambda>_. clone_loop E src dst as s4))))))"

definition Uvm_clone :: "'h env \<Rightarrow> Uvm \<Rightarrow> ('h, 'z) machine_scheme \<Rightarrow>
    (('h, 'z) machine_scheme, Uvm) outcome" where
  "Uvm_clone E uv s =
     bind_ok (Uvm_new E s) (\<lambda>(r, s1).
       bind_ok (unwrap_result r) (\<lambda>vm0.
         let vm = vm0\<lparr>uvm_begin := uvm_begin uv, uvm_size := uvm_size uv\<rparr> in
         bind_ok (Uvm_end uv) (\<lambda>end_va.
           bind_ok (clone_loop E (uvm_pagetable uv) (uvm_pagetable vm)
               (step_range USER_START end_va PAGESIZE) s1) (\<lambda>s2. Inr (vm, s2)))))"

text \<open>
  \<open>load\<close>: the image is the slice of \<open>len\<close> bytes at \<open>img\<close>; \<open>chunks(PAGESIZE)\<close>
  gives the addresses \<open>img\<close>, \<open>img + 4096\<close> and so on, and the loop copies a whole page
  from each, the last one included.
\<close>

fun load_loop :: "'h env \<Rightarrow> PageTable \<Rightarrow> usize \<Rightarrow> usize list \<Rightarrow> ('h, 'z) machine_scheme \<Rightarrow>
    (('h, 'z) machine_scheme, unit rresult) outcome" where
  "load_loop E pt va [] s = Inr (Ok (), s)"
| "load_loop E pt va (src_addr # cs) s =
     bind_ok (walk E pt va Walk s) (\<lambda>(p, s1).
       case p of None \<Rightarrow> Inr (Err, s1) | Some pte_addr \<Rightarrow>
       let pte = Pte_from (load32 (mem s1) pte_addr); dst_addr = pte_pa pte;
           m1 = write_bytes (mem s1) dst_addr 0 (unat PAGESIZE);
           m2 = copy_nonoverlapping m1 src_addr dst_addr (unat PAGESIZE)
       in bind_ok (add_chk va PAGESIZE) (\<lambda>va'. load_loop E pt va' cs (s1\<lparr>mem := m2\<rparr>)))"

definition chunk_addrs :: "usize \<Rightarrow> usize \<Rightarrow> usize list" where
  "chunk_addrs img len = map (\<lambda>i. img + of_nat i * PAGESIZE) [0..<(unat len + 4095) div 4096]"

definition Uvm_load :: "'h env \<Rightarrow> Uvm \<Rightarrow> usize \<Rightarrow> usize \<times> usize \<Rightarrow> ('h, 'z) machine_scheme \<Rightarrow>
    (('h, 'z) machine_scheme, unit rresult) outcome" where
  "Uvm_load E uv va img s =
     (if \<not> is_multiple_of va PAGESIZE then Inr (Err, s)
      else load_loop E (uvm_pagetable uv) va (chunk_addrs (fst img) (snd img)) s)"

end
