(* ===== verification/PageTableInv.thy ===== *)
theory PageTableInv
  imports PageTable
begin

text \<open>
  The meaning of a page table in memory: \<open>l2\<close> reads the second-level table of a root entry,
  \<open>leaf\<close> the valid leaf entry of a virtual address. \<open>pt_wf\<close> is the well-formedness the
  operations keep: the second-level tables are distinct pages, none is the root, and the root
  holds no leaf. The lemmas say how each of the three kinds of store the operations make (a new
  second-level table, a leaf entry, a page outside the table) changes that meaning.
\<close>

section \<open>Definitions\<close>

definition l2 :: "memory \<Rightarrow> usize \<Rightarrow> usize \<Rightarrow> usize option" where
  "l2 m r i = (let e = load32 m (entry_addr r i) in
     if bit e 0 then Some (pte_pa (Pte_from e)) else None)"

definition leaf_addr :: "memory \<Rightarrow> usize \<Rightarrow> usize \<Rightarrow> usize option" where
  "leaf_addr m r va = map_option (\<lambda>a. entry_addr a (vpn0 (VA_from va))) (l2 m r (vpn1 (VA_from va)))"

definition leaf :: "memory \<Rightarrow> usize \<Rightarrow> usize \<Rightarrow> usize option" where
  "leaf m r va = (case leaf_addr m r va of None \<Rightarrow> None
     | Some p \<Rightarrow> if bit (load32 m p) 0 then Some (load32 m p) else None)"

text \<open>
  A valid root entry points to a second-level table: it has no permission bit, and the page lies
  in the 32-bit part of the physical address space.
\<close>

definition root_nonleaf :: "memory \<Rightarrow> usize \<Rightarrow> usize \<Rightarrow> bool" where
  "root_nonleaf m r i \<longleftrightarrow> (let e = load32 m (entry_addr r i) in
     bit e 0 \<longrightarrow> \<not> bit e 1 \<and> \<not> bit e 2 \<and> \<not> bit e 3 \<and> drop_bit 30 e = 0)"

definition pt_frames :: "memory \<Rightarrow> usize \<Rightarrow> usize set" where
  "pt_frames m r = insert r {a. \<exists>i. unat i < 1024 \<and> l2 m r i = Some a}"

definition pt_wf :: "memory \<Rightarrow> usize \<Rightarrow> bool" where
  "pt_wf m r \<longleftrightarrow> page_aligned r \<and> r \<noteq> 0 \<and>
     (\<forall>i. unat i < 1024 \<longrightarrow> root_nonleaf m r i) \<and>
     (\<forall>i a. unat i < 1024 \<longrightarrow> l2 m r i = Some a \<longrightarrow> a \<noteq> 0 \<and> a \<noteq> r) \<and>
     (\<forall>i j a. unat i < 1024 \<longrightarrow> unat j < 1024 \<longrightarrow> l2 m r i = Some a \<longrightarrow> l2 m r j = Some a \<longrightarrow> i = j)"

section \<open>Entry addresses\<close>

lemma unat_times4: "unat (i :: usize) < 1024 \<Longrightarrow> unat (4 * i) = 4 * unat i"
  by (simp add: unat_word_ariths)

lemma times4_inj:
  assumes "unat (i :: usize) < 1024" "unat j < 1024"
  shows "4 * i = 4 * j \<longleftrightarrow> i = j"
  using assms by (simp add: word_unat_eq_iff unat_times4)

lemma page_of_entry [simp]:
  assumes "page_aligned b" "unat i < 1024"
  shows "page_of (entry_addr b i) = b"
  using assms by (simp add: entry_addr_def page_of_plus unat_times4)

lemma word_aligned_entry [simp]:
  assumes "page_aligned b" "unat i < 1024"
  shows "word_aligned (entry_addr b i)"
proof -
  have "unat (entry_addr b i) = unat b + 4 * unat i"
    using assms by (simp add: entry_addr_def unat_page_plus unat_times4)
  moreover have "4 dvd unat b"
    using page_aligned_imp_word_aligned [OF assms(1)] by (simp add: word_aligned_iff_dvd)
  ultimately show ?thesis by (simp add: word_aligned_iff_dvd)
qed

lemma entry_addr_inj:
  assumes "page_aligned b" "page_aligned c" "unat i < 1024" "unat j < 1024"
  shows "entry_addr b i = entry_addr c j \<longleftrightarrow> b = c \<and> i = j"
  using assms page_plus_inj [of b c "4 * i" "4 * j"]
  by (simp add: entry_addr_def unat_times4 times4_inj)

lemmas vpn1_bound [simp] = vpn_bounds(1)
lemmas vpn0_bound [simp] = vpn_bounds(2)

section \<open>Basic facts of tables\<close>

lemma l2_aligned: "l2 m r i = Some a \<Longrightarrow> page_aligned a"
  by (auto simp: l2_def Let_def split: if_splits)

lemma pt_wfD:
  assumes "pt_wf m r"
  shows "page_aligned r" "r \<noteq> 0"
    and "unat i < 1024 \<Longrightarrow> root_nonleaf m r i"
    and "unat i < 1024 \<Longrightarrow> l2 m r i = Some a \<Longrightarrow> a \<noteq> 0"
    and "unat i < 1024 \<Longrightarrow> l2 m r i = Some a \<Longrightarrow> a \<noteq> r"
    and "unat i < 1024 \<Longrightarrow> unat j < 1024 \<Longrightarrow> l2 m r i = Some a \<Longrightarrow> l2 m r j = Some a \<Longrightarrow> i = j"
  using assms unfolding pt_wf_def by blast+

lemma l2_in_frames: "unat i < 1024 \<Longrightarrow> l2 m r i = Some a \<Longrightarrow> a \<in> pt_frames m r"
  by (auto simp: pt_frames_def)

lemma root_in_frames [simp]: "r \<in> pt_frames m r"
  by (simp add: pt_frames_def)

lemma pt_frames_aligned: "pt_wf m r \<Longrightarrow> p \<in> pt_frames m r \<Longrightarrow> page_aligned p \<and> p \<noteq> 0"
  by (auto simp: pt_frames_def l2_aligned dest: pt_wfD)

lemma leaf_addrE:
  assumes "leaf_addr m r va = Some p"
  obtains a where "l2 m r (vpn1 (VA_from va)) = Some a" "p = entry_addr a (vpn0 (VA_from va))"
    "page_aligned a" "page_of p = a" "word_aligned p"
  using assms by (auto simp: leaf_addr_def l2_aligned)

lemma leaf_page_cong: "page_of va = page_of vb \<Longrightarrow> leaf m r va = leaf m r vb"
  using vpn_inj [of va vb] by (simp add: leaf_def leaf_addr_def)

text \<open>The table is determined by the contents of its frames.\<close>

lemma l2_frame:
  assumes "same_page m m' r" "page_aligned r" "unat i < 1024"
  shows "l2 m' r i = l2 m r i"
  using load32_same_page [of m m' "entry_addr r i"] assms by (simp add: l2_def)

lemma root_nonleaf_frame:
  assumes "same_page m m' r" "page_aligned r" "unat i < 1024"
  shows "root_nonleaf m' r i = root_nonleaf m r i"
  using load32_same_page [of m m' "entry_addr r i"] assms by (simp add: root_nonleaf_def)

lemma pt_frames_frame:
  assumes "same_page m m' r" "page_aligned r"
  shows "pt_frames m' r = pt_frames m r"
  using l2_frame [OF assms] by (auto simp: pt_frames_def)

lemma pt_wf_frame:
  assumes "same_page m m' r" "pt_wf m r"
  shows "pt_wf m' r"
proof -
  have al: "page_aligned r" using assms(2) by (rule pt_wfD)
  show ?thesis
    using assms(2) l2_frame [OF assms(1) al] root_nonleaf_frame [OF assms(1) al]
    unfolding pt_wf_def by simp
qed

lemma leaf_addr_frame:
  assumes "same_page m m' r" "page_aligned r"
  shows "leaf_addr m' r va = leaf_addr m r va"
  using l2_frame [OF assms] by (simp add: leaf_addr_def)

lemma leaf_frame:
  assumes "pt_wf m r" "\<And>p. p \<in> pt_frames m r \<Longrightarrow> same_page m m' p"
  shows "leaf m' r va = leaf m r va"
proof -
  have r: "same_page m m' r" and al: "page_aligned r"
    using assms by (auto simp: pt_wfD)
  show ?thesis
  proof (cases "leaf_addr m r va")
    case None
    then show ?thesis by (simp add: leaf_def leaf_addr_frame [OF r al])
  next
    case (Some p)
    then obtain a where "l2 m r (vpn1 (VA_from va)) = Some a" "page_of p = a" "word_aligned p"
      by (rule leaf_addrE)
    then have "load32 m' p = load32 m p"
      using assms(2) l2_in_frames [OF vpn1_bound] by (intro load32_same_page) auto
    then show ?thesis by (simp add: leaf_def leaf_addr_frame [OF r al] Some)
  qed
qed

section \<open>A new second-level table\<close>

text \<open>The memory after \<open>walk\<close> has entered the fresh page \<open>a\<close> as table \<open>i\<close>.\<close>

definition add_table :: "memory \<Rightarrow> usize \<Rightarrow> usize \<Rightarrow> usize \<Rightarrow> memory" where
  "add_table m r i a = store32 (write_bytes m a 0 4096) (entry_addr r i) (drop_bit 2 a OR 1)"

lemma add_table_entry:
  assumes "page_aligned r" "page_aligned a" "a \<noteq> r" "unat i < 1024" "unat j < 1024"
  shows "load32 (add_table m r i a) (entry_addr r j) =
    (if j = i then drop_bit 2 a OR 1 else load32 m (entry_addr r j))"
proof (cases "j = i")
  case True
  then show ?thesis by (simp add: add_table_def load32_store32_same)
next
  case False
  then have "load32 (add_table m r i a) (entry_addr r j) =
      load32 (write_bytes m a 0 4096) (entry_addr r j)"
    using assms by (simp add: add_table_def load32_store32_other entry_addr_inj)
  also have "\<dots> = load32 m (entry_addr r j)"
    using assms by (intro load32_same_page) (simp_all add: same_page_write_page)
  finally show ?thesis using False by simp
qed

lemma add_table_l2:
  assumes "page_aligned r" "page_aligned a" "a \<noteq> r" "unat i < 1024" "unat j < 1024"
  shows "l2 (add_table m r i a) r j = (if j = i then Some a else l2 m r j)"
proof -
  have "pte_pa (Pte_from (drop_bit 2 a OR 1)) = a"
    by (rule pte_pa_compose [OF assms(2)]) (rule bit_word_eqI, auto simp: bit_simps)
  moreover have "bit (drop_bit 2 a OR 1) 0"
    by (simp add: bit_simps)
  ultimately show ?thesis
    by (simp add: l2_def add_table_entry [OF assms])
qed

lemma add_table_nonleaf:
  assumes "page_aligned r" "page_aligned a" "a \<noteq> r" "unat i < 1024" "unat j < 1024"
    and "root_nonleaf m r j"
  shows "root_nonleaf (add_table m r i a) r j"
proof (cases "j = i")
  case True
  have low: "bit (drop_bit 2 a OR 1) n = (n = 0)" if "n < 10" for n
    using bit_compose_low [OF assms(2) that, of 1] by (simp add: bit_simps)
  have "load32 (add_table m r i a) (entry_addr r j) = drop_bit 2 a OR 1"
    using add_table_entry [OF assms(1-5)] True by simp
  moreover have "drop_bit 30 (drop_bit 2 a OR 1) = 0"
    by (rule bit_word_eqI) (auto simp: bit_simps dest: bit_imp_le_length)
  ultimately show ?thesis
    using low [of 1] low [of 2] low [of 3] by (simp add: root_nonleaf_def)
next
  case False
  then show ?thesis
    using assms(6) by (simp add: root_nonleaf_def add_table_entry [OF assms(1-5)])
qed

lemma add_table_same_page:
  assumes "page_aligned r" "page_aligned a" "unat i < 1024" "p \<noteq> a" "p \<noteq> r"
  shows "same_page m (add_table m r i a) p"
  unfolding add_table_def using assms
  by (intro same_page_trans [OF same_page_write_page same_page_store32]) auto

text \<open>
  Entering a fresh table: it is one of the frames now, the table stays well-formed and no
  translation changes, since all its entries are invalid.
\<close>

lemma add_table_frames:
  assumes "pt_wf m r" "page_aligned a" "a \<notin> pt_frames m r" "unat i < 1024" "l2 m r i = None"
  shows "pt_frames (add_table m r i a) r = insert a (pt_frames m r)"
proof -
  have "a \<noteq> r" using assms(3) by auto
  note L = add_table_l2 [OF pt_wfD(1) [OF assms(1)] assms(2) \<open>a \<noteq> r\<close> assms(4)]
  have "(\<exists>j. unat j < 1024 \<and> l2 (add_table m r i a) r j = Some b) \<longleftrightarrow>
      b = a \<or> (\<exists>j. unat j < 1024 \<and> l2 m r j = Some b)" for b
    using L assms(4,5) by (metis option.distinct(1) option.inject)
  then show ?thesis by (auto simp: pt_frames_def)
qed

lemma add_table_wf:
  assumes "pt_wf m r" "page_aligned a" "a \<noteq> 0" "a \<notin> pt_frames m r" "unat i < 1024" "l2 m r i = None"
  shows "pt_wf (add_table m r i a) r"
proof -
  have al: "page_aligned r" and "r \<noteq> 0" using assms(1) by (auto simp: pt_wfD)
  have ar: "a \<noteq> r" using assms(4) by auto
  note L = add_table_l2 [OF al assms(2) ar assms(5)]
  have old: "\<And>j b. unat j < 1024 \<Longrightarrow> l2 m r j = Some b \<Longrightarrow> b \<noteq> a"
    using assms(4) by (auto simp: pt_frames_def)
  show ?thesis
    unfolding pt_wf_def
  proof (intro conjI allI impI)
    show "page_aligned r" "r \<noteq> 0" by fact+
    show "root_nonleaf (add_table m r i a) r j" if "unat j < 1024" for j
      using add_table_nonleaf [OF al assms(2) ar assms(5) that] pt_wfD(3) [OF assms(1) that] by simp
    show "b \<noteq> 0" "b \<noteq> r" if "unat j < 1024" "l2 (add_table m r i a) r j = Some b" for j b
      using that assms(3) ar pt_wfD(4,5) [OF assms(1) that(1)] by (auto simp: L split: if_splits)
    show "j = k" if "unat j < 1024" "unat k < 1024" "l2 (add_table m r i a) r j = Some b"
      "l2 (add_table m r i a) r k = Some b" for j k b
      using that pt_wfD(6) [OF assms(1) that(1,2)] old by (auto simp: L split: if_splits)
  qed
qed

lemma add_table_leaf:
  assumes "pt_wf m r" "page_aligned a" "a \<notin> pt_frames m r" "unat i < 1024" "l2 m r i = None"
  shows "leaf (add_table m r i a) r va = leaf m r va"
proof -
  let ?m = "add_table m r i a" and ?j = "vpn1 (VA_from va)"
  have al: "page_aligned r" using assms(1) by (rule pt_wfD)
  have ar: "a \<noteq> r" using assms(3) by auto
  note L = add_table_l2 [OF al assms(2) ar assms(4) vpn1_bound]
  show ?thesis
  proof (cases "?j = i")
    case True
    let ?p = "entry_addr a (vpn0 (VA_from va))"
    have "load32 ?m ?p = load32 (write_bytes m a 0 4096) ?p"
      using assms al ar by (simp add: add_table_def load32_store32_other entry_addr_inj)
    also have "\<dots> = 0" using assms(2) by (simp add: load32_zero_page)
    finally have "load32 ?m ?p = 0" .
    moreover have "l2 ?m r ?j = Some a" using L [of m va] unfolding True by simp
    ultimately show ?thesis using True assms(5) by (simp add: leaf_def leaf_addr_def)
  next
    case False
    show ?thesis
    proof (cases "l2 m r ?j")
      case None
      then show ?thesis using False by (simp add: leaf_def leaf_addr_def L)
    next
      case (Some b)
      let ?p = "entry_addr b (vpn0 (VA_from va))"
      have "b \<noteq> a" "b \<noteq> r" "page_aligned b"
        using Some assms pt_wfD(5) l2_in_frames l2_aligned by (metis vpn1_bound)+
      then have "load32 ?m ?p = load32 m ?p"
        using add_table_same_page [OF al assms(2,4), of b m] by (intro load32_same_page) auto
      then show ?thesis using False Some by (simp add: leaf_def leaf_addr_def L)
    qed
  qed
qed

section \<open>Storing a leaf entry\<close>

lemma store_leaf_root:
  assumes "pt_wf m r" "leaf_addr m r va = Some p"
  shows "same_page m (store32 m p w) r"
proof -
  obtain a where "l2 m r (vpn1 (VA_from va)) = Some a" "page_of p = a" "word_aligned p"
    using assms(2) by (rule leaf_addrE)
  moreover then have "a \<noteq> r" using pt_wfD(5) [OF assms(1) vpn1_bound] by blast
  ultimately show ?thesis by (intro same_page_store32) auto
qed

lemma store_leaf_wf:
  assumes "pt_wf m r" "leaf_addr m r va = Some p"
  shows "pt_wf (store32 m p w) r" "pt_frames (store32 m p w) r = pt_frames m r"
  using pt_wf_frame [OF store_leaf_root [OF assms] assms(1)]
    pt_frames_frame [OF store_leaf_root [OF assms] pt_wfD(1) [OF assms(1)]] by auto

lemma store_leaf_same_page:
  assumes "pt_wf m r" "leaf_addr m r va = Some p" "q \<notin> pt_frames m r"
  shows "same_page m (store32 m p w) q"
  using assms(2)
proof (rule leaf_addrE)
  fix a assume "l2 m r (vpn1 (VA_from va)) = Some a" "page_of p = a" "word_aligned p"
  then show ?thesis
    using assms(3) l2_in_frames [OF vpn1_bound] by (intro same_page_store32) auto
qed

text \<open>A stored entry is the translation of its page, and of no other.\<close>

lemma store_leaf:
  assumes "pt_wf m r" "leaf_addr m r va = Some p"
  shows "leaf (store32 m p w) r vb =
    (if page_of vb = page_of va then (if bit w 0 then Some w else None) else leaf m r vb)"
proof -
  let ?m = "store32 m p w"
  have al: "page_aligned r" using assms(1) by (rule pt_wfD)
  note addr = leaf_addr_frame [OF store_leaf_root [OF assms, of w] al]
  obtain a where a: "l2 m r (vpn1 (VA_from va)) = Some a" "p = entry_addr a (vpn0 (VA_from va))"
      "page_aligned a" "word_aligned p"
    using assms(2) by (rule leaf_addrE)
  show ?thesis
  proof (cases "page_of vb = page_of va")
    case True
    then have "leaf ?m r vb = leaf ?m r va" by (rule leaf_page_cong)
    then show ?thesis using True assms(2) by (simp add: leaf_def addr load32_store32_same)
  next
    case False
    show ?thesis
    proof (cases "leaf_addr m r vb")
      case None
      then show ?thesis using False by (simp add: leaf_def addr)
    next
      case (Some q)
      then obtain b where b: "l2 m r (vpn1 (VA_from vb)) = Some b"
          "q = entry_addr b (vpn0 (VA_from vb))" "page_aligned b" "word_aligned q"
        by (rule leaf_addrE)
      have "p \<noteq> q"
      proof
        assume "p = q"
        then have "a = b" "vpn0 (VA_from va) = vpn0 (VA_from vb)"
          using a b by (simp_all add: entry_addr_inj)
        moreover have "vpn1 (VA_from va) = vpn1 (VA_from vb)"
          using pt_wfD(6) [OF assms(1) vpn1_bound vpn1_bound a(1)] b(1) \<open>a = b\<close> by simp
        ultimately have "VA_from va = VA_from vb" by simp
        with False show False by (simp add: vpn_inj)
      qed
      then have "load32 ?m q = load32 m q"
        using a(4) b(4) by (intro load32_store32_other) auto
      then show ?thesis using False by (simp add: leaf_def addr Some)
    qed
  qed
qed

section \<open>A cleared page is an empty table\<close>

lemma l2_zero_page:
  assumes "page_aligned r" "unat i < 1024"
  shows "l2 (write_bytes m r 0 4096) r i = None"
  using assms by (simp add: l2_def load32_zero_page)

lemma zero_page_table:
  assumes "page_aligned r" "r \<noteq> 0"
  shows "pt_wf (write_bytes m r 0 4096) r" "pt_frames (write_bytes m r 0 4096) r = {r}"
    "leaf (write_bytes m r 0 4096) r va = None"
  using assms l2_zero_page [OF assms(1)]
  by (auto simp: pt_wf_def pt_frames_def root_nonleaf_def leaf_def leaf_addr_def load32_zero_page)

end
