(* ===== verification/PageTableSpec.thy ===== *)
theory PageTableSpec
  imports PageTableInv
begin

text \<open>
  What the page table operations do, against an abstract address space: a function from virtual
  addresses to leaf entries. \<open>as_map\<close> and \<open>as_unmap\<close> are the abstract operations;
  \<open>walk_Alloc\<close>, \<open>map_refines\<close> and \<open>unmap_refines\<close> show that the code implements them,
  what memory it may touch and which pages it takes from or returns to the heap. The last section
  relates the tables to the hardware's translation.
\<close>

section \<open>The abstract address space\<close>

type_synonym addr_space = "usize \<Rightarrow> usize option"

definition in_range :: "usize \<Rightarrow> nat \<Rightarrow> usize \<Rightarrow> bool" where
  "in_range base n va \<longleftrightarrow> unat base \<le> unat va \<and> unat va < unat base + n"

definition as_map :: "usize \<Rightarrow> usize \<Rightarrow> nat \<Rightarrow> usize \<Rightarrow> addr_space \<Rightarrow> addr_space" where
  "as_map virt phys n perm f = (\<lambda>va. if in_range virt n va
     then Some (leaf_word (phys + (page_of va - virt)) perm) else f va)"

definition as_unmap :: "usize \<Rightarrow> nat \<Rightarrow> addr_space \<Rightarrow> addr_space" where
  "as_unmap virt n f = (\<lambda>va. if in_range virt n va then None else f va)"

text \<open>
  A leaf entry of user space has a permission bit and the user bit. \<open>pte_page\<close> is the page an
  entry points to; \<open>user_words f P\<close> are the user entries of the addresses that satisfy \<open>P\<close>.
\<close>

definition user_leaf :: "usize \<Rightarrow> bool" where
  "user_leaf w \<longleftrightarrow> (bit w 1 \<or> bit w 2 \<or> bit w 3) \<and> bit w 4"

definition pte_page :: "usize \<Rightarrow> usize" where
  "pte_page w = pte_pa (Pte_from w)"

definition user_words :: "addr_space \<Rightarrow> (usize \<Rightarrow> bool) \<Rightarrow> usize set" where
  "user_words f P = {w. \<exists>va. P va \<and> f va = Some w \<and> user_leaf w}"

definition user_pages :: "addr_space \<Rightarrow> usize set" where
  "user_pages f = pte_page ` user_words f (\<lambda>_. True)"

text \<open>No page backs two user pages of the address space.\<close>

definition user_inj :: "addr_space \<Rightarrow> bool" where
  "user_inj f \<longleftrightarrow> (\<forall>va vb w x. f va = Some w \<longrightarrow> f vb = Some x \<longrightarrow> user_leaf w \<longrightarrow> user_leaf x \<longrightarrow>
     pte_page w = pte_page x \<longrightarrow> page_of va = page_of vb)"

section \<open>Frames of the operations\<close>

text \<open>Everything but memory, the heap and the refreshed saved interrupt state is unchanged.\<close>

definition same_rest :: "('h, 'z) machine_scheme \<Rightarrow> ('h, 'z) machine_scheme \<Rightarrow> bool" where
  "same_rest s s' \<longleftrightarrow> csrs s' = csrs s \<and> stimecmp s' = stimecmp s \<and> uart_out s' = uart_out s \<and>
     heap_lock s' = heap_lock s \<and> machine.more s' = machine.more s \<and>
     interrupt_off_stack (cpu s') = interrupt_off_stack (cpu s) \<and>
     current (cpu s') = current (cpu s) \<and> cpu_context (cpu s') = cpu_context (cpu s)"

definition table_ok :: "('h \<Rightarrow> bool) \<Rightarrow> ('h \<Rightarrow> usize set) \<Rightarrow> ('h, 'z) machine_scheme \<Rightarrow> usize \<Rightarrow> bool"
  where
  "table_ok hwf live s r \<longleftrightarrow> heap_ready s \<and> hwf (heap_st s) \<and> pt_wf (mem s) r \<and>
     pt_frames (mem s) r \<subseteq> live (heap_st s)"

text \<open>
  A step that may add second-level tables: the new frames come fresh from the heap, and no page
  outside the table changes.
\<close>

definition grows :: "('h \<Rightarrow> bool) \<Rightarrow> ('h \<Rightarrow> usize set) \<Rightarrow> usize \<Rightarrow> ('h, 'z) machine_scheme \<Rightarrow>
    ('h, 'z) machine_scheme \<Rightarrow> bool" where
  "grows hwf live r s s' \<longleftrightarrow> table_ok hwf live s' r \<and> same_rest s s' \<and>
     live (heap_st s') = live (heap_st s) \<union> pt_frames (mem s') r \<and>
     pt_frames (mem s') r \<inter> live (heap_st s) = pt_frames (mem s) r \<and>
     (\<forall>q. q \<notin> pt_frames (mem s') r \<longrightarrow> same_page (mem s) (mem s') q)"

text \<open>
  An address space that owns its user pages: they are handed out, none is part of the table and
  none is used twice.
\<close>

definition owned :: "('h \<Rightarrow> bool) \<Rightarrow> ('h \<Rightarrow> usize set) \<Rightarrow> ('h, 'z) machine_scheme \<Rightarrow> usize \<Rightarrow> bool" where
  "owned hwf live s r \<longleftrightarrow> table_ok hwf live s r \<and> user_inj (leaf (mem s) r) \<and>
     user_pages (leaf (mem s) r) \<subseteq> live (heap_st s) - pt_frames (mem s) r"

text \<open>The pages \<open>unmap\<close> gives back: the user pages of the range, if \<open>free\<close> is set.\<close>

definition released :: "bool \<Rightarrow> usize \<Rightarrow> nat \<Rightarrow> addr_space \<Rightarrow> usize set" where
  "released free base n f = (if free then pte_page ` user_words f (in_range base n) else {})"

definition unmapped :: "('h \<Rightarrow> bool) \<Rightarrow> ('h \<Rightarrow> usize set) \<Rightarrow> usize \<Rightarrow> bool \<Rightarrow> usize \<Rightarrow> nat \<Rightarrow>
    ('h, 'z) machine_scheme \<Rightarrow> ('h, 'z) machine_scheme \<Rightarrow> bool" where
  "unmapped hwf live r free base n s s' \<longleftrightarrow> owned hwf live s' r \<and> same_rest s s' \<and>
     pt_frames (mem s') r = pt_frames (mem s) r \<and>
     leaf (mem s') r = as_unmap base n (leaf (mem s) r) \<and>
     live (heap_st s') = live (heap_st s) - released free base n (leaf (mem s) r) \<and>
     (\<forall>q. q \<notin> pt_frames (mem s) r \<longrightarrow> same_page (mem s) (mem s') q)"

lemma same_rest_refl [simp]: "same_rest s s"
  by (simp add: same_rest_def)

lemma same_rest_trans: "same_rest s s' \<Longrightarrow> same_rest s' s'' \<Longrightarrow> same_rest s s''"
  by (simp add: same_rest_def)

lemma same_rest_mem [simp]: "same_rest s (t\<lparr>mem := m\<rparr>) = same_rest s t"
  by (simp add: same_rest_def)

lemma same_rest_heap [simp]: "same_rest s (t\<lparr>heap_st := h\<rparr>) = same_rest s t"
  by (simp add: same_rest_def)

lemma same_rest_refresh [simp]: "same_rest s (refresh_prev t) = same_rest s t"
  by (simp add: same_rest_def)

lemma heap_ready_same_rest: "heap_ready s \<Longrightarrow> same_rest s s' \<Longrightarrow> heap_ready s'"
  by (simp add: heap_ready_def same_rest_def int_ok_def)

lemma table_okD:
  assumes "table_ok hwf live s r"
  shows "heap_ready s" "hwf (heap_st s)" "pt_wf (mem s) r" "pt_frames (mem s) r \<subseteq> live (heap_st s)"
  using assms by (auto simp: table_ok_def)

lemma grows_refl: "table_ok hwf live s r \<Longrightarrow> grows hwf live r s s"
  by (auto simp: grows_def table_ok_def)

lemma growsD:
  assumes "grows hwf live r s s'"
  shows "table_ok hwf live s' r" "same_rest s s'"
    "live (heap_st s') = live (heap_st s) \<union> pt_frames (mem s') r"
    "pt_frames (mem s') r \<inter> live (heap_st s) = pt_frames (mem s) r"
    "q \<notin> pt_frames (mem s') r \<Longrightarrow> same_page (mem s) (mem s') q"
    "pt_frames (mem s) r \<subseteq> pt_frames (mem s') r"
  using assms unfolding grows_def by blast+

lemma grows_trans:
  assumes "grows hwf live r s s'" "grows hwf live r s' s''"
  shows "grows hwf live r s s''"
proof -
  note a = growsD [OF assms(1)] and b = growsD [OF assms(2)]
  have "pt_frames (mem s'') r \<inter> live (heap_st s) = pt_frames (mem s) r"
    using a(3,4) b(4) by blast
  moreover have "live (heap_st s'') = live (heap_st s) \<union> pt_frames (mem s'') r"
    using a(3) b(3,6) by blast
  moreover have "same_page (mem s) (mem s'') q" if "q \<notin> pt_frames (mem s'') r" for q
  proof -
    have "q \<notin> pt_frames (mem s') r" using that b(6) by blast
    then show ?thesis using same_page_trans [OF a(5) b(5)] that by blast
  qed
  ultimately show ?thesis
    unfolding grows_def using b(1) same_rest_trans [OF a(2) b(2)] by blast
qed

lemma grows_store_leaf:
  assumes "table_ok hwf live s r" "leaf_addr (mem s) r va = Some p"
  shows "grows hwf live r s (s\<lparr>mem := store32 (mem s) p w\<rparr>)"
proof -
  note ok = table_okD [OF assms(1)]
  note st = store_leaf_wf [OF ok(3) assms(2), of w]
  show ?thesis
    unfolding grows_def table_ok_def
    using ok st store_leaf_same_page [OF ok(3) assms(2)] by auto
qed

section \<open>The walk\<close>

lemma walk_Walk:
  assumes "pt_wf (mem s) (pt_root pt)"
  shows "walk E pt va Walk s = Inr (leaf_addr (mem s) (pt_root pt) va, s)"
proof (cases "l2 (mem s) (pt_root pt) (vpn1 (VA_from va))")
  case None
  then show ?thesis
    by (auto simp: walk_def leaf_addr_def l2_def Let_def split: if_splits)
next
  case (Some a)
  then have "a \<noteq> 0" using pt_wfD(4) [OF assms vpn1_bound] by blast
  then show ?thesis
    using Some
    by (auto simp: walk_def leaf_addr_def l2_def Let_def Pte_from_ppn_pa split: if_splits)
qed

context platform
begin

lemma walk_Alloc_new:
  assumes "l2 (mem s) (pt_root pt) (vpn1 (VA_from va)) = None"
    and "LockedHeap_alloc E PAGE_LAYOUT s = Inr (a, s1)" and "mem s1 = mem s"
    and "a \<noteq> 0" and "page_aligned a"
  shows "walk E pt va Alloc s = Inr (Some (entry_addr a (vpn0 (VA_from va))),
    s1\<lparr>mem := add_table (mem s) (pt_root pt) (vpn1 (VA_from va)) a\<rparr>)"
  using assms
  by (auto simp: walk_def l2_def Let_def add_table_def Pte_into_addr split: if_splits)

lemma walk_Alloc_oom:
  assumes "l2 (mem s) (pt_root pt) (vpn1 (VA_from va)) = None"
    and "LockedHeap_alloc E PAGE_LAYOUT s = Inr (0, s1)"
  shows "walk E pt va Alloc s = Inr (None, s1)"
  using assms by (auto simp: walk_def l2_def Let_def split: if_splits)

lemma walk_Alloc_present:
  assumes "l2 (mem s) (pt_root pt) (vpn1 (VA_from va)) = Some a" "a \<noteq> 0"
  shows "walk E pt va Alloc s = Inr (Some (entry_addr a (vpn0 (VA_from va))), s)"
  using assms by (auto simp: walk_def l2_def Let_def Pte_from_ppn_pa split: if_splits)

text \<open>
  A walk with \<open>Alloc\<close> yields the address of the leaf entry and changes no translation; it fails
  only when a table is missing and the heap has no page for it.
\<close>

lemma walk_Alloc:
  assumes "table_ok hwf live s (pt_root pt)"
  obtains (found) p s' where "walk E pt va Alloc s = Inr (Some p, s')"
      "grows hwf live (pt_root pt) s s'" "leaf_addr (mem s') (pt_root pt) va = Some p"
      "leaf (mem s') (pt_root pt) = leaf (mem s) (pt_root pt)" "served E (Suc 0) (heap_st s) True (heap_st s')"
  | (oom) s' where "walk E pt va Alloc s = Inr (None, s')" "grows hwf live (pt_root pt) s s'"
      "leaf (mem s') (pt_root pt) = leaf (mem s) (pt_root pt)"
      "served E (Suc 0) (heap_st s) False (heap_st s')"
proof -
  let ?r = "pt_root pt" and ?i = "vpn1 (VA_from va)"
  note ok = table_okD [OF assms]
  show thesis
  proof (cases "l2 (mem s) ?r ?i")
    case (Some a)
    then have "a \<noteq> 0" using pt_wfD(4) [OF ok(3) vpn1_bound] by blast
    with Some show ?thesis
      using walk_Alloc_present grows_refl [OF assms]
      by (intro found) (auto simp: leaf_addr_def)
  next
    case None
    show ?thesis
      using ok(1,2)
    proof (cases rule: page_alloc_cases)
      case (oom h)
      then show ?thesis
        using walk_Alloc_oom [OF None oom(1)] assms ok served_take(2) [OF oom(2)]
        by (intro that(2) [of "(refresh_prev s)\<lparr>heap_st := h\<rparr>"]) (auto simp: grows_def table_ok_def)
    next
      case (page a h)
      let ?m = "add_table (mem s) ?r ?i a"
      let ?s = "(refresh_prev s)\<lparr>heap_st := h, mem := ?m\<rparr>"
      have fresh: "a \<notin> pt_frames (mem s) ?r" using page(7) ok(4) by blast
      have fr: "pt_frames ?m ?r = insert a (pt_frames (mem s) ?r)"
        by (rule add_table_frames [OF ok(3) page(4) fresh vpn1_bound None])
      have wf: "pt_wf ?m ?r"
        by (rule add_table_wf [OF ok(3) page(4,3) fresh vpn1_bound None])
      have al: "page_aligned ?r" using ok(3) by (rule pt_wfD)
      have sp: "same_page (mem s) ?m q" if "q \<notin> pt_frames ?m ?r" for q
      proof -
        have "q \<noteq> a" "q \<noteq> ?r"
          using that fr root_in_frames [of ?r "mem s"] by (blast, blast)
        then show ?thesis by (rule add_table_same_page [OF al page(4) vpn1_bound])
      qed
      have "table_ok hwf live ?s ?r"
        unfolding table_ok_def using ok(1,4) page(8,9) fr wf by auto
      moreover have "live (heap_st ?s) = live (heap_st s) \<union> pt_frames (mem ?s) ?r"
        using page(8) fr ok(4) by auto
      moreover have "pt_frames (mem ?s) ?r \<inter> live (heap_st s) = pt_frames (mem s) ?r"
        using fr page(7) ok(4) by auto
      ultimately have "grows hwf live ?r s ?s"
        using sp by (simp add: grows_def)
      moreover have "leaf_addr ?m ?r va = Some (entry_addr a (vpn0 (VA_from va)))"
      proof -
        have "a \<noteq> ?r" using fresh root_in_frames [of ?r "mem s"] by blast
        then have "l2 ?m ?r ?i = Some a"
          using add_table_l2 [OF al page(4) _ vpn1_bound vpn1_bound] by simp
        then show ?thesis by (simp add: leaf_addr_def)
      qed
      moreover have "leaf ?m ?r = leaf (mem s) ?r"
        using add_table_leaf [OF ok(3) page(4) fresh vpn1_bound None] by (intro ext)
      ultimately show ?thesis
        using walk_Alloc_new [OF None page(1) _ page(3,4)] served_take(1) [OF page(2)] by (intro found [of _ ?s]) auto
    qed
  qed
qed

end

section \<open>Mapping a range\<close>

lemma leaf_word_eq: "page_aligned a \<Longrightarrow> leaf_word a perm = drop_bit 2 a OR (1 OR perm)"
  by (simp add: leaf_word_def Pte_into_addr or.assoc)

lemma leaf_word_valid: "page_aligned a \<Longrightarrow> bit (leaf_word a perm) 0"
  by (simp add: leaf_word_eq bit_simps)

lemma page_range:
  assumes "page_aligned v"
  shows "in_range v 4096 va \<longleftrightarrow> page_of va = v"
proof
  assume "in_range v 4096 va"
  then have "v \<le> va" "unat (va - v) < 4096"
    by (auto simp: in_range_def word_le_nat_alt unat_sub)
  then show "page_of va = v" using page_offset_iff [OF assms] by blast
next
  assume "page_of va = v"
  then have "unat v = unat va div 4096 * 4096" using unat_page_of by metis
  then show "in_range v 4096 va" by (simp add: in_range_def)
qed

lemma page_aligned_add:
  assumes "page_aligned a" "unat a + 4096 < 2 ^ 32"
  shows "page_aligned (a + 4096)" "unat (a + 4096) = unat a + 4096"
  using assms by (auto simp: page_aligned_iff_dvd unat_word_ariths)

lemma as_map_0 [simp]: "as_map v p 0 perm f = f"
  by (rule ext) (auto simp: as_map_def in_range_def)

lemma as_map_Suc:
  assumes "page_aligned v" "unat v + 4096 < 2 ^ 32"
  shows "as_map (v + 4096) (p + 4096) n perm
      (\<lambda>va. if page_of va = v then Some (leaf_word p perm) else f va) =
    as_map v p (4096 + n) perm f"
proof
  fix va
  note v = page_aligned_add [OF assms]
  have "in_range v (4096 + n) va \<longleftrightarrow> in_range v 4096 va \<or> in_range (v + 4096) n va"
    by (auto simp: in_range_def v(2))
  moreover have "in_range (v + 4096) n va \<Longrightarrow> \<not> in_range v 4096 va"
    by (auto simp: in_range_def v(2))
  ultimately show "as_map (v + 4096) (p + 4096) n perm
      (\<lambda>va. if page_of va = v then Some (leaf_word p perm) else f va) va =
    as_map v p (4096 + n) perm f va"
    by (auto simp: as_map_def page_range [OF assms(1)] algebra_simps)
qed

context platform
begin

lemma map_loop_refines:
  assumes "table_ok hwf live s (pt_root pt)" "page_aligned v" "page_aligned p"
    and "unat v + 4096 * n = unat vend" "unat p + 4096 * n < 2 ^ 32"
  shows "\<exists>res s' k. map_loop E pt v p vend perm s = Inr (res, s') \<and> grows hwf live (pt_root pt) s s' \<and>
    k \<le> n \<and> (res = Ok () \<longleftrightarrow> k = n) \<and>
    leaf (mem s') (pt_root pt) = as_map v p (4096 * k) perm (leaf (mem s) (pt_root pt)) \<and>
    served E n (heap_st s) (res = Ok ()) (heap_st s')"
  using assms
proof (induction n arbitrary: v p s)
  case 0
  then have "\<not> v < vend" by (simp add: word_less_nat_alt)
  then show ?case
    using grows_refl [OF "0.prems"(1)]
    by (auto simp: map_loop.simps)
next
  case (Suc n)
  let ?r = "pt_root pt"
  have lt: "v < vend" and vb: "unat v + 4096 < 2 ^ 32"
    using Suc.prems(4) unat_u32_bound [of vend] by (auto simp: word_less_nat_alt)
  have pb: "unat p + 4096 < 2 ^ 32" using Suc.prems(5) by simp
  have chk: "add_chk v PAGESIZE = Inr (v + 4096)" "add_chk p PAGESIZE = Inr (p + 4096)"
    using vb pb by (simp_all add: add_chk_def PAGESIZE_num)
  show ?case
    using Suc.prems(1)
  proof (cases rule: walk_Alloc [of s pt v])
    case (oom s')
    then show ?thesis
      using lt served_mono [OF oom(4), of "Suc n"] by (intro exI [of _ Err] exI [of _ s'] exI [of _ 0])
        (auto simp: map_loop.simps [of E pt v])
  next
    case (found a s1)
    let ?s2 = "s1\<lparr>mem := store32 (mem s1) a (leaf_word p perm)\<rparr>"
    have g: "grows hwf live ?r s ?s2"
      using grows_trans [OF found(2) grows_store_leaf [OF growsD(1) [OF found(2)] found(3)]] .
    have wf1: "pt_wf (mem s1) ?r" using growsD(1) [OF found(2)] by (rule table_okD)
    have lf: "leaf (store32 (mem s1) a (leaf_word p perm)) ?r =
        (\<lambda>va. if page_of va = v then Some (leaf_word p perm) else leaf (mem s) ?r va)"
      using store_leaf [OF wf1 found(3)] leaf_word_valid [OF Suc.prems(3)] Suc.prems(2) found(4)
      by (intro ext) auto
    have "map_loop E pt v p vend perm s = map_loop E pt (v + 4096) (p + 4096) vend perm ?s2"
      using lt found(1) chk by (simp add: map_loop.simps [of E pt v])
    moreover obtain res s' k where IH: "map_loop E pt (v + 4096) (p + 4096) vend perm ?s2 = Inr (res, s')"
        "grows hwf live ?r ?s2 s'" "k \<le> n" "res = Ok () \<longleftrightarrow> k = n"
        "leaf (mem s') ?r = as_map (v + 4096) (p + 4096) (4096 * k) perm (leaf (mem ?s2) ?r)"
        "served E n (heap_st ?s2) (res = Ok ()) (heap_st s')"
      using Suc.IH [OF growsD(1) [OF g] page_aligned_add(1) [OF Suc.prems(2) vb]
          page_aligned_add(1) [OF Suc.prems(3) pb]] page_aligned_add(2) [OF Suc.prems(2) vb]
        page_aligned_add(2) [OF Suc.prems(3) pb] Suc.prems(4,5) by auto
    moreover have "leaf (mem s') ?r = as_map v p (4096 * Suc k) perm (leaf (mem s) ?r)"
      using IH(5) as_map_Suc [OF Suc.prems(2) vb] by (simp add: lf)
    ultimately show ?thesis
      using grows_trans [OF g IH(2)] served_trans [OF found(5), of n _ "heap_st s'"]
      by (intro exI [of _ res] exI [of _ s'] exI [of _ "Suc k"]) auto
  qed
qed

text \<open>
  Mapping a range of whole pages either enters every page of it, or stops with \<open>Err\<close> after a
  prefix of pages when the heap runs out; in both cases no other translation changes.
\<close>

lemma map_refines:
  assumes "table_ok hwf live s (pt_root pt)"
    and "page_aligned virt" "page_aligned phys" "page_aligned sz"
    and "unat virt + unat sz < 2 ^ 32" "unat phys + unat sz < 2 ^ 32"
  obtains res s' k where "PageTable_map E pt virt phys sz perm s = Inr (res, s')"
    "grows hwf live (pt_root pt) s s'" "k \<le> unat sz div 4096" "res = Ok () \<longleftrightarrow> k = unat sz div 4096"
    "leaf (mem s') (pt_root pt) = as_map virt phys (4096 * k) perm (leaf (mem s) (pt_root pt))"
    "served E (unat sz div 4096) (heap_st s) (res = Ok ()) (heap_st s')"
proof -
  have n: "4096 * (unat sz div 4096) = unat sz"
    using assms(4) by (simp add: page_aligned_iff_dvd)
  have e: "unat (virt + sz) = unat virt + unat sz"
    using assms(5) by (simp add: unat_word_ariths)
  have "PageTable_map E pt virt phys sz perm s = map_loop E pt virt phys (virt + sz) perm s"
    using assms(2-5) by (simp add: PageTable_map_def PAGESIZE_num is_multiple_of_page add_chk_def)
  then show thesis
    using map_loop_refines [OF assms(1-3), of "unat sz div 4096" "virt + sz" perm] assms(6) n e that
    by auto
qed

end

section \<open>Unmapping a range\<close>

lemma as_unmap_0 [simp]: "as_unmap v 0 f = f"
  by (rule ext) (auto simp: as_unmap_def in_range_def)

lemma as_unmap_Some [simp]: "as_unmap v n f va = Some w \<longleftrightarrow> \<not> in_range v n va \<and> f va = Some w"
  by (simp add: as_unmap_def)

lemma released_0 [simp]: "released free v 0 f = {}"
  by (simp add: released_def user_words_def in_range_def)

lemma in_range_Suc:
  assumes "page_aligned v" "unat v + 4096 < 2 ^ 32"
  shows "in_range v (4096 + n) va \<longleftrightarrow> in_range v 4096 va \<or> in_range (v + 4096) n va"
  using page_aligned_add(2) [OF assms] by (auto simp: in_range_def)

lemma as_unmap_Suc:
  assumes "page_aligned v" "unat v + 4096 < 2 ^ 32"
  shows "as_unmap (v + 4096) n (as_unmap v 4096 f) = as_unmap v (4096 + n) f"
  by (rule ext) (simp add: as_unmap_def in_range_Suc [OF assms])

lemma released_Suc:
  assumes "page_aligned v" "unat v + 4096 < 2 ^ 32"
  shows "released free v (4096 + n) f =
    released free v 4096 f \<union> released free (v + 4096) n (as_unmap v 4096 f)"
proof -
  have "user_words f (in_range v (4096 + n)) = user_words f (in_range v 4096) \<union>
      user_words (as_unmap v 4096 f) (in_range (v + 4096) n)"
    unfolding user_words_def as_unmap_Some in_range_Suc [OF assms] by blast
  then show ?thesis by (simp add: released_def image_Un)
qed

lemma user_inj_unmap: "user_inj f \<Longrightarrow> user_inj (as_unmap v n f)"
  unfolding user_inj_def as_unmap_Some by blast

lemma released_subset: "released free v n f \<subseteq> user_pages f"
  by (auto simp: released_def user_pages_def user_words_def)

lemma unmapped_refl: "owned hwf live s r \<Longrightarrow> unmapped hwf live r free v 0 s s"
  by (auto simp: unmapped_def)

lemma unmapped_trans:
  assumes "page_aligned v" "unat v + 4096 < 2 ^ 32"
    and "unmapped hwf live r free v 4096 s s1" "unmapped hwf live r free (v + 4096) n s1 s2"
  shows "unmapped hwf live r free v (4096 + n) s s2"
proof -
  have s1: "owned hwf live s2 r" "same_rest s s2"
      "pt_frames (mem s2) r = pt_frames (mem s) r"
    using assms(3,4) same_rest_trans by (auto simp: unmapped_def)
  moreover have "leaf (mem s2) r = as_unmap v (4096 + n) (leaf (mem s) r)"
    using assms(3,4) by (simp add: unmapped_def as_unmap_Suc [OF assms(1,2)])
  moreover have "live (heap_st s2) = live (heap_st s) - released free v (4096 + n) (leaf (mem s) r)"
    using assms(3,4) unfolding unmapped_def released_Suc [OF assms(1,2)] by (simp add: Diff_eq Int_assoc)
  moreover have "same_page (mem s) (mem s2) q" if "q \<notin> pt_frames (mem s) r" for q
    using assms(3,4) that same_page_trans unfolding unmapped_def by blast
  ultimately show ?thesis by (simp add: unmapped_def)
qed

text \<open>The pages that stay mapped are not among those given back.\<close>

lemma unmap_keeps_owned:
  assumes "user_inj f" "page_aligned v" "user_pages f \<subseteq> L"
  shows "user_pages (as_unmap v 4096 f) \<subseteq> L - released free v 4096 f"
proof
  fix p assume "p \<in> user_pages (as_unmap v 4096 f)"
  then obtain va w where p: "p = pte_page w" "f va = Some w" "user_leaf w" "page_of va \<noteq> v"
    unfolding user_pages_def user_words_def as_unmap_Some page_range [OF assms(2)] by blast
  then have "p \<in> L" using assms(3) by (auto simp: user_pages_def user_words_def)
  moreover have "p \<notin> released free v 4096 f"
  proof
    assume "p \<in> released free v 4096 f"
    then obtain vb x where "p = pte_page x" "f vb = Some x" "user_leaf x" "page_of vb = v"
      by (auto simp: released_def user_words_def page_range [OF assms(2)] split: if_splits)
    with p assms(1) show False unfolding user_inj_def by metis
  qed
  ultimately show "p \<in> L - released free v 4096 f" by simp
qed

context platform
begin

lemma unmap_page_valid:
  assumes "owned hwf live s (pt_root pt)" "leaf (mem s) (pt_root pt) v = Some w"
  obtains s' p where "unmap_page E pt v free s = Inr s'" "leaf_addr (mem s) (pt_root pt) v = Some p"
    "mem s' = store32 (mem s) p 0" "same_rest s s'" "hwf (heap_st s')"
    "live (heap_st s') = live (heap_st s) -
       (if free \<and> user_leaf w then {pte_page w} else {})"
proof -
  let ?r = "pt_root pt"
  have ok: "table_ok hwf live s ?r"
    and up: "user_pages (leaf (mem s) ?r) \<subseteq> live (heap_st s) - pt_frames (mem s) ?r"
    using assms(1) by (auto simp: owned_def)
  note okD = table_okD [OF ok]
  obtain p where p: "leaf_addr (mem s) ?r v = Some p" "load32 (mem s) p = w" "bit w 0"
    using assms(2) by (auto simp: leaf_def split: option.splits if_splits)
  show thesis
  proof (cases "free \<and> user_leaf w")
    case True
    then have live: "pte_page w \<in> live (heap_st s)"
      using up assms(2) by (auto simp: user_pages_def user_words_def)
    obtain h where h: "LockedHeap_dealloc E (pte_page w) PAGE_LAYOUT s =
        Inr ((), (refresh_prev s)\<lparr>heap_st := h\<rparr>)"
        "live h = live (heap_st s) - {pte_page w}" "hwf h"
      using page_dealloc [OF okD(1,2) live] by blast
    then have "unmap_page E pt v free s =
        Inr ((refresh_prev s)\<lparr>heap_st := h, mem := store32 (mem s) p 0\<rparr>)"
      using True p walk_Walk [OF okD(3)]
      by (simp add: unmap_page_def user_leaf_def Pte_from_ppn_pa flip: pte_page_def)
    then show ?thesis using True h p(1) that by simp
  next
    case False
    then have "unmap_page E pt v free s = Inr (s\<lparr>mem := store32 (mem s) p 0\<rparr>)"
      using p walk_Walk [OF okD(3)] by (auto simp: unmap_page_def user_leaf_def)
    then show ?thesis using False okD(2) p(1) that by auto
  qed
qed

lemma unmap_page_refines:
  assumes "owned hwf live s (pt_root pt)" "page_aligned v"
  obtains s' where "unmap_page E pt v free s = Inr s'" "unmapped hwf live (pt_root pt) free v 4096 s s'"
proof -
  let ?r = "pt_root pt" and ?f = "leaf (mem s) (pt_root pt)"
  let ?rel = "released free v 4096 ?f"
  have ok: "table_ok hwf live s ?r" and inj: "user_inj ?f"
    and up: "user_pages ?f \<subseteq> live (heap_st s) - pt_frames (mem s) ?r"
    using assms(1) by (auto simp: owned_def)
  note okD = table_okD [OF ok]
  have cong: "in_range v 4096 va \<Longrightarrow> ?f va = ?f v" for va
    using leaf_page_cong [of va v] assms(2) page_range [OF assms(2)] by simp
  show thesis
  proof (cases "?f v")
    case None
    have "unmap_page E pt v free s = Inr s"
      using None walk_Walk [OF okD(3)]
      by (auto simp: unmap_page_def leaf_def Let_def split: option.splits if_splits)
    moreover have "as_unmap v 4096 ?f = ?f" "?rel = {}"
      using None cong by (auto simp: as_unmap_def released_def user_words_def)
    ultimately show ?thesis
      using assms(1) by (intro that [of s]) (auto simp: unmapped_def)
  next
    case (Some w)
    obtain s' p where s': "unmap_page E pt v free s = Inr s'" "leaf_addr (mem s) ?r v = Some p"
        "mem s' = store32 (mem s) p 0" "same_rest s s'" "hwf (heap_st s')"
        "live (heap_st s') = live (heap_st s) -
          (if free \<and> user_leaf w then {pte_page w} else {})"
      using unmap_page_valid [OF assms(1) Some] by blast
    have "x \<in> user_words ?f (in_range v 4096) \<longleftrightarrow> x = w \<and> user_leaf w" for x
    proof -
      have "in_range v 4096 v" by (simp add: in_range_def)
      then show ?thesis using cong Some unfolding user_words_def by fastforce
    qed
    then have "user_words ?f (in_range v 4096) = (if user_leaf w then {w} else {})"
      by (auto split: if_splits)
    then have rel: "?rel = (if free \<and> user_leaf w then {pte_page w} else {})"
      by (simp add: released_def)
    have lf: "leaf (mem s') ?r = as_unmap v 4096 ?f"
      using store_leaf [OF okD(3) s'(2), of 0] assms(2)
      by (intro ext) (simp add: as_unmap_def page_range s'(3))
    note wf = store_leaf_wf [OF okD(3) s'(2), of 0, folded s'(3)]
    have "pt_frames (mem s') ?r \<subseteq> live (heap_st s')"
      using okD(4) up released_subset [of free v 4096 ?f]
      unfolding wf(2) s'(6) rel [symmetric] by blast
    moreover have "user_pages (leaf (mem s') ?r) \<subseteq> live (heap_st s') - pt_frames (mem s') ?r"
      using unmap_keeps_owned [OF inj assms(2) up, of free]
      unfolding lf wf(2) s'(6) rel [symmetric] by blast
    ultimately have "owned hwf live s' ?r"
      using wf(1) s'(5) heap_ready_same_rest [OF okD(1) s'(4)] user_inj_unmap [OF inj]
      by (simp add: owned_def table_ok_def lf)
    moreover have "same_page (mem s) (mem s') q" if "q \<notin> pt_frames (mem s) ?r" for q
      using store_leaf_same_page [OF okD(3) s'(2) that] by (simp add: s'(3))
    ultimately show ?thesis
      using s'(4,6) wf(2) lf rel by (intro that [OF s'(1)]) (simp add: unmapped_def)
  qed
qed

lemma unmap_loop_refines:
  assumes "owned hwf live s (pt_root pt)" "page_aligned v" "unat v + 4096 * n < 2 ^ 32"
  shows "\<exists>s'. unmap_loop E pt n v free s = Inr (Ok (), s') \<and>
    unmapped hwf live (pt_root pt) free v (4096 * n) s s'"
  using assms
proof (induction n arbitrary: v s)
  case 0
  then show ?case using unmapped_refl by simp
next
  case (Suc n)
  have vb: "unat v + 4096 < 2 ^ 32" using Suc.prems(3) by simp
  note v = page_aligned_add [OF Suc.prems(2) vb]
  obtain s1 where s1: "unmap_page E pt v free s = Inr s1"
      "unmapped hwf live (pt_root pt) free v 4096 s s1"
    using unmap_page_refines [OF Suc.prems(1,2)] by blast
  then have "owned hwf live s1 (pt_root pt)" by (simp add: unmapped_def)
  then obtain s' where s': "unmap_loop E pt n (v + 4096) free s1 = Inr (Ok (), s')"
      "unmapped hwf live (pt_root pt) free (v + 4096) (4096 * n) s1 s'"
    using Suc.IH [OF _ v(1)] v(2) Suc.prems(3) by auto
  have "add_chk v PAGESIZE = Inr (v + 4096)"
    using vb by (simp add: add_chk_def PAGESIZE_num)
  then show ?case
    using s1 s' unmapped_trans [OF Suc.prems(2) vb s1(2) s'(2)] by auto
qed

text \<open>
  Unmapping whole pages removes exactly the translations of the range and gives back exactly its
  user pages, each once; the table's own pages stay.
\<close>

lemma unmap_refines:
  assumes "owned hwf live s (pt_root pt)" "page_aligned virt" "page_aligned sz"
    and "unat virt + unat sz < 2 ^ 32"
  obtains s' where "PageTable_unmap E pt virt sz free s = Inr (Ok (), s')"
    "unmapped hwf live (pt_root pt) free virt (unat sz) s s'"
proof -
  have n: "4096 * (unat sz div 4096) = unat sz"
    using assms(3) by (simp add: page_aligned_iff_dvd)
  have "unat (sz div 4096) = unat sz div 4096"
    by (simp add: unat_div_distrib)
  then have "PageTable_unmap E pt virt sz free s = unmap_loop E pt (unat sz div 4096) virt free s"
    using assms(3) by (simp add: PageTable_unmap_def PAGESIZE_num is_multiple_of_page)
  then show thesis
    using unmap_loop_refines [OF assms(1,2), of "unat sz div 4096" free] assms(4) n that by auto
qed

end

end
