(* ===== verification/PageTableFree.thy ===== *)
theory PageTableFree
  imports PageTableSpec
begin

text \<open>
  Creation and release of page tables. \<open>PageTable::new\<close> yields an empty table on a fresh page
  or panics; \<open>PageTable::free\<close> succeeds once every page is unmapped, and panics while a page
  with permissions is mapped. The release gives back the root page and no other: the second-level
  tables stay allocated.
\<close>

section \<open>Creation\<close>

context platform
begin

lemma PageTable_new_cases:
  assumes "heap_ready s" and "hwf (heap_st s)"
  obtains (oom) "PageTable_new E s = Inl (Panic ''failed to allocate root page table'')"
      "takes E (Suc 0) (heap_st s) = None"
  | (created) a h where "PageTable_new E s = Inr (\<lparr>pt_root = a\<rparr>,
        (refresh_prev s)\<lparr>heap_st := h, mem := write_bytes (mem s) a 0 4096\<rparr>)"
      "a \<notin> live (heap_st s)" "live h = insert a (live (heap_st s))" "hwf h" "a \<noteq> 0" "page_aligned a"
      "lo \<le> a" "a < hi" "served E (Suc 0) (heap_st s) True h"
  using assms
proof (cases rule: page_alloc_cases)
  case (oom h)
  then show ?thesis using that(1) by (simp add: PageTable_new_def)
next
  case (page a h)
  then show ?thesis using that(2) served_take(1) [OF page(2)] by (simp add: PageTable_new_def)
qed

text \<open>A new table is empty and owns nothing but its root.\<close>

lemma new_table_owned:
  assumes "heap_ready s" "a \<notin> live (heap_st s)" "live h = insert a (live (heap_st s))" "hwf h"
    "a \<noteq> 0" "page_aligned a"
    and "s' = (refresh_prev s)\<lparr>heap_st := h, mem := write_bytes (mem s) a 0 4096\<rparr>"
  shows "owned hwf live s' a" "leaf (mem s') a = (\<lambda>_. None)" "pt_frames (mem s') a = {a}"
    "same_rest s s'" "q \<noteq> a \<Longrightarrow> same_page (mem s) (mem s') q"
proof -
  note z = zero_page_table [OF assms(6,5), of "mem s"]
  show lf: "leaf (mem s') a = (\<lambda>_. None)" using z(3) assms(7) by auto
  show fr: "pt_frames (mem s') a = {a}" using z(2) assms(7) by simp
  show "owned hwf live s' a"
    using assms(1,3,4) z(1) fr lf assms(7)
    by (simp add: owned_def table_ok_def user_inj_def user_pages_def user_words_def)
  show "same_rest s s'" by (simp add: assms(7))
  show "q \<noteq> a \<Longrightarrow> same_page (mem s) (mem s') q"
    using same_page_write_page [OF assms(6)] by (simp add: assms(7))
qed

end

section \<open>Release\<close>

lemma free_req_depth_eq: "free_req_depth = Suc (Suc 14)"
  by (simp add: free_req_depth_def)

text \<open>The entries of the table at \<open>c\<close> with an index in \<open>is\<close> are all invalid.\<close>

definition all_invalid :: "memory \<Rightarrow> usize \<Rightarrow> nat list \<Rightarrow> bool" where
  "all_invalid m c is \<longleftrightarrow> (\<forall>i\<in>set is. \<not> bit (load32 m (entry_addr c (of_nat i))) 0)"

lemma all_invalidD:
  assumes "all_invalid m c [0..<1024]" "unat i < 1024"
  shows "\<not> bit (load32 m (entry_addr c i)) 0"
proof -
  have "unat i \<in> set [0..<1024]" using assms(2) by (simp del: upt_Suc)
  with assms(1) have "\<not> bit (load32 m (entry_addr c (of_nat (unat i)))) 0"
    unfolding all_invalid_def by blast
  then show ?thesis by simp
qed

lemma free_req_loop_invalid: "all_invalid (mem s) c is \<Longrightarrow> free_req_loop d c is s = Inr s"
  by (induction "is") (auto simp: all_invalid_def)

lemma vpn_of_indices:
  assumes "unat i < 1024" "unat j < 1024"
  shows "vpn1 (VA_from (push_bit 22 i OR push_bit 12 j)) = i"
    "vpn0 (VA_from (push_bit 22 i OR push_bit 12 j)) = j"
proof -
  have small: "k < 10" if "unat x < 1024" "bit x k" for x :: usize and k
  proof (rule ccontr)
    assume "\<not> k < 10"
    have "take_bit 10 x = x"
      using that(1) by (simp add: word_unat_eq_iff unsigned_take_bit_eq take_bit_nat_eq_self)
    then show False using that(2) \<open>\<not> k < 10\<close> by (metis bit_take_bit_iff)
  qed
  show "vpn1 (VA_from (push_bit 22 i OR push_bit 12 j)) = i"
    unfolding VA_from_vpn
    using small [OF assms(1)] small [OF assms(2)]
    by (intro bit_word_eqI) (auto simp: bit_simps)
  show "vpn0 (VA_from (push_bit 22 i OR push_bit 12 j)) = j"
    unfolding VA_from_vpn
    by (intro bit_word_eqI) (auto simp: bit_simps dest: small [OF assms(2)])
qed

lemma unat_of_nat_index: "i < 1024 \<Longrightarrow> unat (of_nat i :: usize) < 1024"
  by (simp add: unat_of_nat)

text \<open>With no page mapped, every second-level table holds invalid entries only.\<close>

lemma empty_table_invalid:
  assumes "leaf m r = (\<lambda>_. None)" "unat i < 1024" "l2 m r i = Some c"
  shows "all_invalid m c [0..<1024]"
  unfolding all_invalid_def
proof
  fix j assume "j \<in> set [0..<1024]"
  then have j: "unat (of_nat j :: usize) < 1024" by (auto intro: unat_of_nat_index)
  have "leaf m r (push_bit 22 i OR push_bit 12 (of_nat j)) = None" using assms(1) by simp
  then show "\<not> bit (load32 m (entry_addr c (of_nat j))) 0"
    using assms(3) vpn_of_indices [OF assms(2) j]
    by (simp add: leaf_def leaf_addr_def split: if_splits)
qed

text \<open>The entry of a table \<open>c\<close> at index \<open>i\<close> as a leaf of the address space.\<close>

lemma leaf_of_indices:
  assumes "unat i < 1024" "unat j < 1024" "l2 m r i = Some c"
  shows "leaf m r (push_bit 22 i OR push_bit 12 j) =
    (if bit (load32 m (entry_addr c j)) 0 then Some (load32 m (entry_addr c j)) else None)"
  using assms(3) vpn_of_indices [OF assms(1,2)] by (simp add: leaf_def leaf_addr_def)

text \<open>Clearing the first word of a table whose entries are invalid changes no translation.\<close>

lemma store_child_zero:
  assumes "pt_wf m r" "unat i < 1024" "l2 m r i = Some c" "all_invalid m c [0..<1024]"
  shows "pt_wf (store32 m c 0) r" "leaf (store32 m c 0) r = leaf m r"
    "pt_frames (store32 m c 0) r = pt_frames m r"
proof -
  let ?va = "push_bit 22 i OR push_bit 12 0"
  have z: "unat (0 :: usize) < 1024" by simp
  have p: "leaf_addr m r ?va = Some c"
    using assms(3) vpn_of_indices [OF assms(2) z] by (simp add: leaf_addr_def entry_addr_def)
  have "\<not> bit (load32 m (entry_addr c 0)) 0"
    using all_invalidD [OF assms(4), of 0] by simp
  then have n: "leaf m r ?va = None" using leaf_of_indices [OF assms(2) z assms(3)] by simp
  show "pt_wf (store32 m c 0) r" "pt_frames (store32 m c 0) r = pt_frames m r"
    using store_leaf_wf [OF assms(1) p] by auto
  show "leaf (store32 m c 0) r = leaf m r"
  proof
    fix vb
    show "leaf (store32 m c 0) r vb = leaf m r vb"
    proof (cases "page_of vb = page_of ?va")
      case True
      then have "leaf m r vb = None" using leaf_page_cong [OF True, of m r] n by simp
      then show ?thesis using store_leaf [OF assms(1) p, of 0 vb] True by simp
    next
      case False
      then show ?thesis using store_leaf [OF assms(1) p, of 0 vb] by simp
    qed
  qed
qed

text \<open>The recursion over an empty well-formed table returns with two levels of depth.\<close>

lemma free_req_loop_empty:
  assumes "pt_wf (mem s) r" "leaf (mem s) r = (\<lambda>_. None)" "set is \<subseteq> {0..<1024}"
  shows "\<exists>m. free_req_loop (Suc d) r is s = Inr (s\<lparr>mem := m\<rparr>) \<and> pt_wf m r \<and>
    pt_frames m r = pt_frames (mem s) r \<and>
    (\<forall>q. q \<notin> pt_frames (mem s) r \<longrightarrow> same_page (mem s) m q)"
  using assms
proof (induction "is" arbitrary: s)
  case Nil
  then show ?case by (intro exI [of _ "mem s"]) simp
next
  case (Cons i "is")
  let ?i = "of_nat i :: usize" and ?e = "load32 (mem s) (entry_addr r (of_nat i))"
  have i: "unat ?i < 1024" using Cons.prems(3) by (auto intro: unat_of_nat_index)
  show ?case
  proof (cases "l2 (mem s) r ?i")
    case None
    then have "\<not> bit ?e 0" by (auto simp: l2_def Let_def split: if_splits)
    then show ?thesis using Cons by simp
  next
    case (Some c)
    then have e: "bit ?e 0" "pte_pa (Pte_from ?e) = c"
      by (auto simp: l2_def Let_def split: if_splits)
    have nl: "\<not> bit ?e 1" "\<not> bit ?e 2" "\<not> bit ?e 3"
      using pt_wfD(3) [OF Cons.prems(1) i] e(1) by (auto simp: root_nonleaf_def Let_def)
    have c: "c \<noteq> 0" using pt_wfD(4) [OF Cons.prems(1) i Some] .
    have child: "free_req (Suc d) c s = Inr s"
      using free_req_loop_invalid [OF empty_table_invalid [OF Cons.prems(2) i Some]] by simp
    note st = store_child_zero [OF Cons.prems(1) i Some
        empty_table_invalid [OF Cons.prems(2) i Some]]
    have "free_req_loop (Suc d) r (i # is) s =
        free_req_loop (Suc d) r is (s\<lparr>mem := store32 (mem s) c 0\<rparr>)"
      using e nl c child by (simp add: Pte_from_ppn_pa del: free_req.simps)
    moreover obtain m where "free_req_loop (Suc d) r is (s\<lparr>mem := store32 (mem s) c 0\<rparr>) =
        Inr (s\<lparr>mem := store32 (mem s) c 0, mem := m\<rparr>)" "pt_wf m r"
        "pt_frames m r = pt_frames (store32 (mem s) c 0) r"
        "\<forall>q. q \<notin> pt_frames (store32 (mem s) c 0) r \<longrightarrow> same_page (store32 (mem s) c 0) m q"
      using Cons.IH [of "s\<lparr>mem := store32 (mem s) c 0\<rparr>"] st Cons.prems(2,3) by auto
    moreover have st0: "same_page (mem s) (store32 (mem s) c 0) q"
      if "q \<notin> pt_frames (mem s) r" for q
    proof -
      have "c \<noteq> q" using l2_in_frames [OF i Some] that by auto
      then show ?thesis
        using l2_aligned [OF Some] page_aligned_imp_word_aligned by (intro same_page_store32) auto
    qed
    ultimately show ?thesis
      using st(3) by (intro exI [of _ m]) (auto intro: same_page_trans [OF st0])
  qed
qed

context platform
begin

text \<open>
  Releasing a table with nothing mapped succeeds and gives back the root page alone.
\<close>

lemma PageTable_free_empty:
  assumes "table_ok hwf live s (pt_root pt)" "leaf (mem s) (pt_root pt) = (\<lambda>_. None)"
  obtains s' where "PageTable_free E pt s = Inr ((), s')" "hwf (heap_st s')"
    "live (heap_st s') = live (heap_st s) - {pt_root pt}" "same_rest s s'"
    "\<And>q. q \<notin> pt_frames (mem s) (pt_root pt) \<Longrightarrow> same_page (mem s) (mem s') q"
proof -
  let ?r = "pt_root pt"
  note ok = table_okD [OF assms(1)]
  have "set [0..<1024] \<subseteq> {0..<1024 :: nat}" by auto
  from free_req_loop_empty [OF ok(3) assms(2) this, of 14]
  obtain m where m0: "free_req_loop (Suc 14) ?r [0..<1024] s = Inr (s\<lparr>mem := m\<rparr>)"
    and fr: "\<forall>q. q \<notin> pt_frames (mem s) ?r \<longrightarrow> same_page (mem s) m q" by blast
  from m0 have m: "free_req free_req_depth ?r s = Inr (s\<lparr>mem := m\<rparr>)"
    by (simp only: free_req_depth_eq free_req.simps)
  have "?r \<in> live (heap_st s)" using ok(4) by auto
  then obtain h where "LockedHeap_dealloc E ?r PAGE_LAYOUT (s\<lparr>mem := m\<rparr>) =
      Inr ((), (refresh_prev (s\<lparr>mem := m\<rparr>))\<lparr>heap_st := h\<rparr>)"
      "live h = live (heap_st s) - {?r}" "hwf h"
    using page_dealloc [of "s\<lparr>mem := m\<rparr>" ?r] ok(1,2) by auto
  then show thesis using m fr that by (auto simp: PageTable_free_def)
qed

end

text \<open>
  While a page is mapped with a permission bit, the release panics: a child table with such an
  entry stops the recursion, wherever it stands.
\<close>

definition has_perm :: "usize \<Rightarrow> bool" where
  "has_perm w \<longleftrightarrow> bit w 1 \<or> bit w 2 \<or> bit w 3"

lemma free_req_loop_mapped:
  assumes "\<not> all_invalid (mem s) c is"
    and "\<And>j. j \<in> set is \<Longrightarrow> bit (load32 (mem s) (entry_addr c (of_nat j))) 0 \<Longrightarrow>
      has_perm (load32 (mem s) (entry_addr c (of_nat j)))"
  shows "free_req_loop d c is s = Inl (Panic ''unmapping allocated page'')"
  using assms
proof (induction "is")
  case Nil
  then show ?case by (simp add: all_invalid_def)
next
  case (Cons i "is")
  show ?case
  proof (cases "bit (load32 (mem s) (entry_addr c (of_nat i))) 0")
    case True
    then have "has_perm (load32 (mem s) (entry_addr c (of_nat i)))" using Cons.prems(2) by simp
    then show ?thesis using True by (auto simp: has_perm_def Let_def)
  next
    case False
    then show ?thesis using Cons by (simp add: all_invalid_def)
  qed
qed

lemma free_req_loop_root_mapped:
  assumes "pt_wf (mem s) r" "\<And>va w. leaf (mem s) r va = Some w \<Longrightarrow> has_perm w"
    and "set is \<subseteq> {0..<1024}" "leaf (mem s) r va = Some w" "unat (vpn1 (VA_from va)) \<in> set is"
  shows "free_req_loop (Suc d) r is s = Inl (Panic ''unmapping allocated page'')"
  using assms
proof (induction "is" arbitrary: s)
  case Nil
  then show ?case by simp
next
  case (Cons i "is")
  let ?i = "of_nat i :: usize" and ?e = "load32 (mem s) (entry_addr r (of_nat i))"
  have i: "unat ?i < 1024" using Cons.prems(3) by (auto intro: unat_of_nat_index)
  have rest: "unat (vpn1 (VA_from va)) \<in> set is" if "vpn1 (VA_from va) \<noteq> ?i"
    using that Cons.prems(5) by auto
  show ?case
  proof (cases "l2 (mem s) r ?i")
    case None
    then have "\<not> bit ?e 0" by (auto simp: l2_def Let_def split: if_splits)
    moreover have "vpn1 (VA_from va) \<noteq> ?i"
      using None Cons.prems(4) by (auto simp: leaf_def leaf_addr_def)
    ultimately show ?thesis using Cons rest by simp
  next
    case (Some c)
    then have e: "bit ?e 0" "pte_pa (Pte_from ?e) = c"
      by (auto simp: l2_def Let_def split: if_splits)
    have nl: "\<not> bit ?e 1" "\<not> bit ?e 2" "\<not> bit ?e 3"
      using pt_wfD(3) [OF Cons.prems(1) i] e(1) by (auto simp: root_nonleaf_def Let_def)
    have c: "c \<noteq> 0" using pt_wfD(4) [OF Cons.prems(1) i Some] .
    show ?thesis
    proof (cases "all_invalid (mem s) c [0..<1024]")
      case True
      note st = store_child_zero [OF Cons.prems(1) i Some True]
      have "free_req_loop (Suc d) r (i # is) s =
          free_req_loop (Suc d) r is (s\<lparr>mem := store32 (mem s) c 0\<rparr>)"
        using e nl c free_req_loop_invalid [OF True] by (simp add: Pte_from_ppn_pa del: upt_Suc)
      moreover have "vpn1 (VA_from va) \<noteq> ?i"
      proof
        assume eq: "vpn1 (VA_from va) = ?i"
        have "\<not> bit (load32 (mem s) (entry_addr c (vpn0 (VA_from va)))) 0"
          by (rule all_invalidD [OF True]) simp
        then show False
          using Cons.prems(4) Some eq
          by (simp add: leaf_def leaf_addr_def split: if_splits)
      qed
      ultimately show ?thesis
        using Cons.IH [of "s\<lparr>mem := store32 (mem s) c 0\<rparr>"] st Cons.prems(2-4) rest by simp
    next
      case False
      have "has_perm (load32 (mem s) (entry_addr c (of_nat j)))"
        if "j \<in> set [0..<1024]" "bit (load32 (mem s) (entry_addr c (of_nat j))) 0" for j
        using that Cons.prems(2) leaf_of_indices [OF i unat_of_nat_index Some, of j] by simp
      then have "free_req_loop d c [0..<1024] s = Inl (Panic ''unmapping allocated page'')"
        by (rule free_req_loop_mapped [OF False])
      then show ?thesis using e nl c by (simp add: Pte_from_ppn_pa del: upt_Suc)
    qed
  qed
qed

lemma PageTable_free_mapped:
  assumes "pt_wf (mem s) (pt_root pt)" "\<And>va w. leaf (mem s) (pt_root pt) va = Some w \<Longrightarrow> has_perm w"
    and "leaf (mem s) (pt_root pt) va = Some w"
  shows "PageTable_free E pt s = Inl (Panic ''unmapping allocated page'')"
proof -
  have "free_req_loop (Suc 14) (pt_root pt) [0..<1024] s = Inl (Panic ''unmapping allocated page'')"
    using assms by (intro free_req_loop_root_mapped [of s _ _ va w]) auto
  then have "free_req free_req_depth (pt_root pt) s = Inl (Panic ''unmapping allocated page'')"
    by (simp only: free_req_depth_eq free_req.simps)
  then show ?thesis by (simp add: PageTable_free_def)
qed

end
