(* ===== verification/Sv32.thy ===== *)
theory Sv32
  imports PageTableFree
begin

text \<open>
  What the hardware sees of a page table. \<open>sv32_translate\<close> is the address translation of the
  RISC-V privileged architecture for Sv32, written from the architecture and not from the kernel;
  the lemmas show that on a well-formed table it is the translation of \<open>leaf\<close>, that mapping and
  unmapping have their effect on the hardware, and that the kernel's own \<open>walkaddr\<close> finds the
  address the hardware would use.
\<close>

section \<open>The architecture\<close>

datatype access = Fetch | Load | Store
datatype priv = UMode | SMode

text \<open>
  The permission check for an access, with \<open>sstatus.SUM\<close> and \<open>MXR\<close> clear, as the kernel
  leaves them. The accessed and dirty bits are the hardware's to update.
\<close>

definition sv32_permits :: "access \<Rightarrow> priv \<Rightarrow> usize \<Rightarrow> bool" where
  "sv32_permits acc p w \<longleftrightarrow>
     (case acc of Fetch \<Rightarrow> bit w 3 | Load \<Rightarrow> bit w 1 | Store \<Rightarrow> bit w 2) \<and>
     (case p of UMode \<Rightarrow> bit w 4 | SMode \<Rightarrow> \<not> bit w 4)"

text \<open>A leaf the architecture accepts: valid, readable or executable, no write-only page, and in
  the 32-bit part of the physical address space.\<close>

definition sv32_leaf_ok :: "usize \<Rightarrow> bool" where
  "sv32_leaf_ok w \<longleftrightarrow> bit w 0 \<and> (bit w 1 \<or> bit w 3) \<and> (bit w 2 \<longrightarrow> bit w 1) \<and> drop_bit 30 w = 0"

definition sv32_translate :: "memory \<Rightarrow> usize \<Rightarrow> access \<Rightarrow> priv \<Rightarrow> usize \<Rightarrow> usize option" where
  "sv32_translate m root acc p va =
     (let e1 = load32 m (root + 4 * drop_bit 22 va) in
      if \<not> bit e1 0 \<or> (bit e1 2 \<and> \<not> bit e1 1) \<or> drop_bit 30 e1 \<noteq> 0 then None
      else if bit e1 1 \<or> bit e1 3 then
        (if take_bit 10 (drop_bit 10 e1) = 0 \<and> sv32_permits acc p e1
         then Some (push_bit 22 (drop_bit 20 e1) OR take_bit 22 va) else None)
      else
        let e0 = load32 m (push_bit 12 (drop_bit 10 e1) + 4 * take_bit 10 (drop_bit 12 va)) in
        if sv32_leaf_ok e0 \<and> sv32_permits acc p e0
        then Some (push_bit 12 (drop_bit 10 e0) OR take_bit 12 va) else None)"

section \<open>Agreement with the tables of the kernel\<close>

lemma pte_page_eq: "push_bit 12 (drop_bit 10 w) = pte_page w"
  using Pte_from_ppn_pa [of w] by (simp add: pte_page_def Pte_from_ppn)

lemma page_aligned_pte_page [simp]: "page_aligned (pte_page w)"
  by (simp add: pte_page_def)

lemma page_plus_offset:
  assumes "page_aligned a"
  shows "a OR take_bit 12 va = a + va mod 4096"
proof -
  have "a AND take_bit 12 va = 0"
    by (rule bit_word_eqI) (auto simp: bit_simps page_aligned_low_bits [OF assms])
  then have "a OR take_bit 12 va = a + take_bit 12 va"
    by (simp add: disjunctive_add_eq_or)
  then show ?thesis by (simp add: take_bit_eq_mod)
qed

lemma sv32_translate_leaf:
  assumes "pt_wf m r"
  shows "sv32_translate m r acc p va = (case leaf m r va of None \<Rightarrow> None
    | Some w \<Rightarrow> if sv32_leaf_ok w \<and> sv32_permits acc p w then Some (pte_page w + va mod 4096)
        else None)"
proof -
  let ?e = "load32 m (entry_addr r (vpn1 (VA_from va)))"
  have e: "load32 m (r + 4 * drop_bit 22 va) = ?e"
    by (simp add: entry_addr_def VA_from_vpn)
  have nl: "bit ?e 0 \<Longrightarrow> \<not> bit ?e 1 \<and> \<not> bit ?e 2 \<and> \<not> bit ?e 3 \<and> drop_bit 30 ?e = 0"
    using pt_wfD(3) [OF assms vpn1_bound, of va] by (simp add: root_nonleaf_def Let_def)
  have i0: "take_bit 10 (drop_bit 12 va) = vpn0 (VA_from va)"
    by (simp add: VA_from_vpn take_bit_eq_mask)
  show ?thesis
  proof (cases "bit ?e 0")
    case False
    then show ?thesis
      by (simp add: sv32_translate_def e leaf_def leaf_addr_def l2_def)
  next
    case True
    let ?p = "entry_addr (pte_page ?e) (vpn0 (VA_from va))"
    have addr: "leaf_addr m r va = Some ?p"
      using True by (simp add: leaf_addr_def l2_def pte_page_def)
    have "sv32_translate m r acc p va = (let e0 = load32 m ?p in
        if sv32_leaf_ok e0 \<and> sv32_permits acc p e0
        then Some (pte_page e0 OR take_bit 12 va) else None)"
      unfolding sv32_translate_def e i0 using True nl
      by (simp add: pte_page_eq entry_addr_def Let_def)
    then show ?thesis
      by (auto simp: leaf_def addr page_plus_offset sv32_leaf_ok_def Let_def)
  qed
qed

lemma walkaddr_leaf:
  assumes "pt_wf (mem s) (pt_root pt)"
  shows "walkaddr E pt va s = Inr (case leaf (mem s) (pt_root pt) va of None \<Rightarrow> None
    | Some w \<Rightarrow> if has_perm w then Some (pte_page w + va mod 4096) else None, s)"
proof -
  have "unat (va mod 4096) < 4096" by (simp add: unat_mod_distrib)
  then have chk: "add_chk (pte_page w) (va mod 4096) = Inr (pte_page w + va mod 4096)" for w
    using page_aligned_bound [OF page_aligned_pte_page, of w] by (simp add: add_chk_def)
  show ?thesis
    unfolding walkaddr_def walk_Walk [OF assms] PAGESIZE_num
    by (auto simp: leaf_def Let_def has_perm_def chk simp flip: pte_page_def split: option.splits)
qed

section \<open>The entries the kernel writes\<close>

text \<open>A permission mask as the kernel passes it: bits 1 to 4 only.\<close>

definition perm_mask :: "usize \<Rightarrow> bool" where
  "perm_mask perm \<longleftrightarrow> perm AND NOT 0b11110 = 0"

lemma perm_mask_bits: "perm_mask perm \<Longrightarrow> bit perm n \<Longrightarrow> 1 \<le> n \<and> n \<le> 4"
proof -
  assume "perm_mask perm" "bit perm n"
  then have n: "bit (0b11110 :: usize) n"
    unfolding perm_mask_def using bit_imp_le_length [of perm n]
    by (metis bit_0_eq bit_and_iff bit_not_iff bot_apply bot_bool_def possible_bit_word)
  have m: "(0b11110 :: usize) = push_bit 1 (mask 4)" by (simp add: mask_eq_exp_minus_1)
  show ?thesis using n unfolding m bit_push_bit_iff bit_mask_iff by auto
qed

lemma leaf_word_bits:
  assumes "page_aligned a" "n < 10"
  shows "bit (leaf_word a perm) n \<longleftrightarrow> n = 0 \<or> bit perm n"
  using bit_compose_low [OF assms, of "1 OR perm"] by (auto simp: leaf_word_eq assms(1) bit_simps)

lemma leaf_word_page:
  assumes "page_aligned a" "perm_mask perm"
  shows "pte_page (leaf_word a perm) = a"
proof -
  have "(1 OR perm) AND NOT (mask 10) = 0"
    by (intro bit_word_eqI) (auto simp: bit_simps dest: perm_mask_bits [OF assms(2)])
  then show ?thesis
    using pte_pa_compose [OF assms(1)] by (simp add: pte_page_def leaf_word_eq assms(1))
qed

lemma leaf_word_high:
  assumes "page_aligned a" "perm_mask perm"
  shows "drop_bit 30 (leaf_word a perm) = 0"
  unfolding leaf_word_eq [OF assms(1)]
  by (intro bit_word_eqI)
    (auto simp: bit_simps dest: bit_imp_le_length perm_mask_bits [OF assms(2)])

lemma leaf_word_accepted:
  assumes "page_aligned a" "perm_mask perm" "bit perm 1 \<or> bit perm 3" "bit perm 2 \<longrightarrow> bit perm 1"
  shows "sv32_leaf_ok (leaf_word a perm)"
    "sv32_permits acc p (leaf_word a perm) = sv32_permits acc p perm"
  using assms leaf_word_high [OF assms(1,2)]
  by (auto simp: sv32_leaf_ok_def sv32_permits_def leaf_word_bits [OF assms(1)] split: access.splits priv.splits)

end
