(* ===== verification/UserCopy.thy ===== *)
theory UserCopy
  imports Uvm Sv32
begin

text \<open>
  Copying between the kernel and a user address space (\<open>virtmemory.rs\<close>, \<open>copy_in\<close> to
  \<open>copy_out_cont\<close>), and \<open>String::from_utf8\<close>. The type parameter \<open>T\<close> of a copy is a
  record of its size and of its reading and writing at an address; the kernel uses \<open>u8\<close> and
  the 32-bit integers. Each copy translates its first address only.
\<close>

section \<open>Operations\<close>

record 'a repr =
  rep_size :: usize
  rep_read :: "memory \<Rightarrow> usize \<Rightarrow> 'a"
  rep_write :: "memory \<Rightarrow> usize \<Rightarrow> 'a \<Rightarrow> memory"

definition repr_u8 :: "u8 repr" where
  "repr_u8 = \<lparr>rep_size = 1, rep_read = (\<lambda>m a. m a), rep_write = (\<lambda>m a v. m(a := v))\<rparr>"

definition repr_u32 :: "u32 repr" where
  "repr_u32 = \<lparr>rep_size = 4, rep_read = load32, rep_write = store32\<rparr>"

definition copy_in :: "'h env \<Rightarrow> 'a repr \<Rightarrow> Uvm \<Rightarrow> usize \<Rightarrow> ('h, 'z) machine_scheme \<Rightarrow>
    (('h, 'z) machine_scheme, 'a rresult) outcome" where
  "copy_in E T uv addr s =
     bind_ok (walkaddr E (uvm_pagetable uv) addr s) (\<lambda>(r, s1).
       case r of None \<Rightarrow> Inr (Err, s1) | Some user_addr \<Rightarrow>
       Inr (Ok (rep_read T (mem s1) user_addr), s1))"

text \<open>\<open>(user_addr as *const T).add(i)\<close> for \<open>i\<close> in \<open>0..len\<close>.\<close>

definition copy_in_cont :: "'h env \<Rightarrow> 'a repr \<Rightarrow> Uvm \<Rightarrow> usize \<Rightarrow> usize \<Rightarrow> ('h, 'z) machine_scheme \<Rightarrow>
    (('h, 'z) machine_scheme, 'a list rresult) outcome" where
  "copy_in_cont E T uv addr len s =
     bind_ok (walkaddr E (uvm_pagetable uv) addr s) (\<lambda>(r, s1).
       case r of None \<Rightarrow> Inr (Err, s1) | Some user_addr \<Rightarrow>
       Inr (Ok (map (\<lambda>i. rep_read T (mem s1) (user_addr + of_nat i * rep_size T)) [0..<unat len]), s1))"

text \<open>The bytes up to the first zero; the index overflows if there is none.\<close>

function str_loop :: "memory \<Rightarrow> usize \<Rightarrow> usize \<Rightarrow> fault + u8 list" where
  "str_loop m a i =
     (if m (a + i) = 0 then Inr []
      else bind_ok (add_chk i 1) (\<lambda>i'. bind_ok (str_loop m a i') (\<lambda>bs. Inr (m (a + i) # bs))))"
  by pat_completeness auto
termination
proof (relation "measure (\<lambda>(m, a, i). 2 ^ 32 - unat i)", goal_cases)
  case (2 m a i i')
  then have "unat i' = unat i + 1" by (auto dest: add_chk_unat)
  then show ?case using unat_u32_bound [of i'] by simp
qed simp

declare str_loop.simps [simp del]

text \<open>\<open>String::from_utf8\<close>: the well-formed byte sequences of the Unicode standard.\<close>

definition is_tail :: "u8 \<Rightarrow> bool" where
  "is_tail b \<longleftrightarrow> 0x80 \<le> b \<and> b \<le> 0xBF"

fun utf8_valid :: "u8 list \<Rightarrow> bool" where
  "utf8_valid [] = True"
| "utf8_valid (a # bs) =
     (if a < 0x80 then utf8_valid bs
      else case bs of [] \<Rightarrow> False | b # cs \<Rightarrow>
        if 0xC2 \<le> a \<and> a \<le> 0xDF then is_tail b \<and> utf8_valid cs
        else case cs of [] \<Rightarrow> False | c # ds \<Rightarrow>
          if a = 0xE0 then 0xA0 \<le> b \<and> b \<le> 0xBF \<and> is_tail c \<and> utf8_valid ds
          else if a = 0xED then 0x80 \<le> b \<and> b \<le> 0x9F \<and> is_tail c \<and> utf8_valid ds
          else if 0xE1 \<le> a \<and> a \<le> 0xEF then is_tail b \<and> is_tail c \<and> utf8_valid ds
          else case ds of [] \<Rightarrow> False | d # es \<Rightarrow>
            if a = 0xF0 then 0x90 \<le> b \<and> b \<le> 0xBF \<and> is_tail c \<and> is_tail d \<and> utf8_valid es
            else if 0xF1 \<le> a \<and> a \<le> 0xF3 then is_tail b \<and> is_tail c \<and> is_tail d \<and> utf8_valid es
            else if a = 0xF4 then 0x80 \<le> b \<and> b \<le> 0x8F \<and> is_tail c \<and> is_tail d \<and> utf8_valid es
            else False)"

definition from_utf8 :: "u8 list \<Rightarrow> u8 list rresult" where
  "from_utf8 bs = (if utf8_valid bs then Ok bs else Err)"

definition copy_in_str :: "'h env \<Rightarrow> Uvm \<Rightarrow> usize \<Rightarrow> ('h, 'z) machine_scheme \<Rightarrow>
    (('h, 'z) machine_scheme, u8 list rresult) outcome" where
  "copy_in_str E uv addr s =
     bind_ok (walkaddr E (uvm_pagetable uv) addr s) (\<lambda>(r, s1).
       case r of None \<Rightarrow> Inr (Err, s1) | Some user_addr \<Rightarrow>
       bind_ok (str_loop (mem s1) user_addr 0) (\<lambda>bytes. Inr (from_utf8 bytes, s1)))"

definition copy_out :: "'h env \<Rightarrow> 'a repr \<Rightarrow> Uvm \<Rightarrow> usize \<Rightarrow> 'a \<Rightarrow> ('h, 'z) machine_scheme \<Rightarrow>
    (('h, 'z) machine_scheme, unit rresult) outcome" where
  "copy_out E T uv addr data s =
     bind_ok (walkaddr E (uvm_pagetable uv) addr s) (\<lambda>(r, s1).
       case r of None \<Rightarrow> Inr (Err, s1) | Some user_addr \<Rightarrow>
       Inr (Ok (), s1\<lparr>mem := rep_write T (mem s1) user_addr data\<rparr>))"

fun write_list :: "'a repr \<Rightarrow> usize \<Rightarrow> 'a list \<Rightarrow> memory \<Rightarrow> memory" where
  "write_list T a [] m = m"
| "write_list T a (x # xs) m = write_list T (a + rep_size T) xs (rep_write T m a x)"

definition copy_out_cont :: "'h env \<Rightarrow> 'a repr \<Rightarrow> Uvm \<Rightarrow> usize \<Rightarrow> 'a list \<Rightarrow> ('h, 'z) machine_scheme \<Rightarrow>
    (('h, 'z) machine_scheme, unit rresult) outcome" where
  "copy_out_cont E T uv addr data s =
     bind_ok (walkaddr E (uvm_pagetable uv) addr s) (\<lambda>(r, s1).
       case r of None \<Rightarrow> Inr (Err, s1) | Some user_addr \<Rightarrow>
       Inr (Ok (), s1\<lparr>mem := write_list T user_addr data (mem s1)\<rparr>))"

end
