(* ===== verification/Console.thy ===== *)
theory Console
  imports Uart
begin

text \<open>
  The printing macros of \<open>main.rs\<close> and what they use of \<open>core::fmt\<close>. A message is the
  list of its bytes. \<open>print!\<close> and \<open>println!\<close> hand the formatted message to
  \<open>uart_print\<close>; \<open>kprint!\<close> and \<open>kprintln!\<close>, for trap handlers, collect the pieces
  of the message in a \<open>UartWriter\<close> and flush it. The memory \<open>alloc::format!\<close> takes from
  the heap and gives back is not modelled.
\<close>

section \<open>Formatting\<close>

definition ascii :: "string \<Rightarrow> u8 list" where
  "ascii = map of_char"

text \<open>The digits of a number, most significant first, and their characters.\<close>

function digits :: "nat \<Rightarrow> nat \<Rightarrow> nat list" where
  "digits b n = (if b < 2 \<or> n < b then [n] else digits b (n div b) @ [n mod b])"
  by pat_completeness auto
termination
  by (relation "measure snd") auto

declare digits.simps [simp del]

definition digit_char :: "nat \<Rightarrow> u8" where
  "digit_char d = (if d < 10 then 48 + of_nat d else 87 + of_nat d)"

definition fmt_radix :: "nat \<Rightarrow> u32 \<Rightarrow> u8 list" where
  "fmt_radix b n = map digit_char (digits b (unat n))"

text \<open>\<open>{}\<close>, \<open>{:x}\<close>, \<open>{:b}\<close> and \<open>{:08x}\<close> of a \<open>usize\<close>.\<close>

definition fmt_dec :: "usize \<Rightarrow> u8 list" where "fmt_dec = fmt_radix 10"
definition fmt_hex :: "usize \<Rightarrow> u8 list" where "fmt_hex = fmt_radix 16"
definition fmt_bin :: "usize \<Rightarrow> u8 list" where "fmt_bin = fmt_radix 2"

definition fmt_hex8 :: "usize \<Rightarrow> u8 list" where
  "fmt_hex8 n = replicate (8 - length (fmt_hex n)) 48 @ fmt_hex n"

definition fmt_bool :: "bool \<Rightarrow> u8 list" where
  "fmt_bool b = ascii (if b then ''true'' else ''false'')"

text \<open>\<open>{:?}\<close> of an \<open>Option<usize>\<close>.\<close>

fun fmt_option :: "usize option \<Rightarrow> u8 list" where
  "fmt_option None = ascii ''None''"
| "fmt_option (Some n) = ascii ''Some('' @ fmt_dec n @ ascii '')''"

section \<open>Macros\<close>

definition print :: "u8 list list \<Rightarrow> ('h, 'z) machine_scheme \<Rightarrow> ('h, 'z) machine_scheme" where
  "print args s = uart_print (concat args) s"

definition println :: "u8 list list \<Rightarrow> ('h, 'z) machine_scheme \<Rightarrow> ('h, 'z) machine_scheme" where
  "println args s = uart_print (concat args @ [10]) s"

text \<open>\<open>core::write!\<close> calls \<open>write_str\<close> for the pieces in turn; its result is ignored.\<close>

fun write_pieces :: "UartWriter \<Rightarrow> u8 list list \<Rightarrow> UartWriter" where
  "write_pieces w [] = w"
| "write_pieces w (a # as) = (case UartWriter_write_str w a of (Err, w') \<Rightarrow> w' | (Ok _, w') \<Rightarrow> write_pieces w' as)"

definition kprint :: "u8 list list \<Rightarrow> ('h, 'z) machine_scheme \<Rightarrow> fault + ('h, 'z) machine_scheme" where
  "kprint args s = UartWriter_flush (write_pieces UartWriter_new args) s"

definition kprintln :: "u8 list list \<Rightarrow> ('h, 'z) machine_scheme \<Rightarrow> fault + ('h, 'z) machine_scheme" where
  "kprintln args s = bind_ok (kprint args s) (kprint [[10]])"

section \<open>Facts\<close>

lemma print_eq: "print args s = s\<lparr>uart_out := uart_out s @ concat args\<rparr>"
  by (simp add: print_def uart_print_appends)

lemma println_eq: "println args s = s\<lparr>uart_out := uart_out s @ concat args @ [10]\<rparr>"
  by (simp add: println_def uart_print_appends)

lemma write_str_Ok: "fst (UartWriter_write_str w msg) = Ok ()"
  by (induction msg arbitrary: w) auto

lemma take_take_append: "take n (take n xs @ ys) = take n (xs @ ys)"
  by (cases "length xs \<le> n") simp_all

lemma write_pieces_contents:
  assumes "writer_inv w"
  shows "writer_inv (write_pieces w args) \<and>
    take (uw_pos (write_pieces w args)) (uw_buf (write_pieces w args)) =
      take 256 (take (uw_pos w) (uw_buf w) @ concat args)"
  using assms
proof (induction w args rule: write_pieces.induct)
  case (2 w a as)
  obtain w' where w': "UartWriter_write_str w a = (Ok (), w')"
    using write_str_Ok [of w a] by (cases "UartWriter_write_str w a") auto
  then have c: "writer_inv w'" "take (uw_pos w') (uw_buf w') = take 256 (take (uw_pos w) (uw_buf w) @ a)"
    using write_str_contents [OF "2.prems", of a] by auto
  have "take 256 (take 256 (take (uw_pos w) (uw_buf w) @ a) @ concat as) =
      take 256 (take (uw_pos w) (uw_buf w) @ a @ concat as)"
    using take_take_append [of 256 "take (uw_pos w) (uw_buf w) @ a" "concat as"] by simp
  then show ?case using "2.IH" [OF w' [symmetric]] c w' by simp
qed (simp add: writer_inv_def)

text \<open>\<open>kprint!\<close> never panics, and prints the first 256 bytes of the message.\<close>

lemma kprint_eq: "kprint args s = Inr (s\<lparr>uart_out := uart_out s @ take 256 (concat args)\<rparr>)"
  using write_pieces_contents [OF writer_inv_new, of args]
  by (auto simp: kprint_def UartWriter_flush_def flush_loop_appends writer_inv_def UartWriter_new_def)

lemma kprintln_eq: "kprintln args s = Inr (s\<lparr>uart_out := uart_out s @ take 256 (concat args) @ [10]\<rparr>)"
  by (simp add: kprintln_def kprint_eq)

lemma ascii_length [simp]: "length (ascii cs) = length cs"
  by (simp add: ascii_def)

subsection \<open>Numbers\<close>

lemma digits_less: "2 \<le> b \<Longrightarrow> \<forall>d \<in> set (digits b n). d < b"
  by (induction b n rule: digits.induct) (subst digits.simps, auto)

lemma digits_value: "2 \<le> b \<Longrightarrow> foldl (\<lambda>v d. v * b + d) 0 (digits b n) = n"
proof (induction b n rule: digits.induct)
  case (1 b n)
  then show ?case by (cases "n < b") (simp_all add: digits.simps [of b n])
qed

lemma digits_length:
  assumes "2 \<le> b" "n < b ^ k" "0 < k"
  shows "length (digits b n) \<le> k"
  using assms
proof (induction b n arbitrary: k rule: digits.induct)
  case (1 b n)
  show ?case
  proof (cases "n < b")
    case True
    then show ?thesis using "1.prems" by (simp add: digits.simps [of b n])
  next
    case False
    then obtain j where k: "k = Suc j" "0 < j" using "1.prems"
      by (cases k; cases "k = 1") auto
    then have "n div b < b ^ j" using "1.prems" by (simp add: div_less_iff_less_mult mult.commute)
    then have "length (digits b (n div b)) \<le> j" using "1.IH" [OF _ "1.prems"(1)] False "1.prems"(1) k by simp
    then show ?thesis using False "1.prems" k by (simp add: digits.simps [of b n])
  qed
qed

lemma fmt_length:
  "length (fmt_dec n) \<le> 10" "length (fmt_hex n) \<le> 8" "length (fmt_bin n) \<le> 32"
  using unat_u32_bound [of n]
  by (auto simp: fmt_dec_def fmt_hex_def fmt_bin_def fmt_radix_def intro!: digits_length)

lemma fmt_hex8_length: "length (fmt_hex8 n) = 8"
  using fmt_length(2) [of n] by (simp add: fmt_hex8_def)

lemma fmt_option_length: "length (fmt_option p) \<le> 16"
  using fmt_length(1) by (cases p) (auto intro: le_trans)

text \<open>Reading a printed number back.\<close>

definition digit_of :: "u8 \<Rightarrow> nat" where
  "digit_of c = (if c < 87 then unat c - 48 else unat c - 87)"

definition parse_radix :: "nat \<Rightarrow> u8 list \<Rightarrow> nat" where
  "parse_radix b cs = foldl (\<lambda>v c. v * b + digit_of c) 0 cs"

lemma digit_of_char: "d < 36 \<Longrightarrow> digit_of (digit_char d) = d"
  by (auto simp: digit_of_def digit_char_def unat_word_ariths unat_of_nat word_less_nat_alt)

lemma parse_fmt_radix:
  assumes "2 \<le> b" "b \<le> 36"
  shows "parse_radix b (fmt_radix b n) = unat n"
proof -
  have "parse_radix b (fmt_radix b n) = foldl (\<lambda>v d. v * b + d) 0 (digits b (unat n))"
    unfolding parse_radix_def fmt_radix_def foldl_map
    using digits_less [OF assms(1), of "unat n"] assms(2)
    by (intro foldl_cong) (auto simp: digit_of_char)
  then show ?thesis by (simp add: digits_value assms(1))
qed

end
