(* ===== verification/Process.thy ===== *)
theory Process
  imports UserCopy Console
begin

text \<open>
  Processes and the kernel state (\<open>process.rs\<close>, \<open>process/trapframe.rs\<close>,
  \<open>kernel.rs\<close>). The kernel state extends the machine by the contents of the static
  \<open>KERNEL\<close>: the kernel page table, the process table and the next pid, with the flag of its
  mutex. A \<open>&mut Process\<close> is the index of the process in the table; the boxed trapframe is the
  address of its page, and its fields are read and written in memory at their \<open>repr(C)\<close>
  offsets, where the trampoline finds them.
\<close>

section \<open>Trapframes\<close>

datatype (plugins only: code) tf_field =
    kernel_satp | kernel_sp | trap_handler | epc | hartid | tf_ra | tf_sp | tf_gp | tf_tp
  | tf_t0 | tf_t1 | tf_t2 | tf_s0 | tf_s1 | tf_a0 | tf_a1 | tf_a2 | tf_a3 | tf_a4 | tf_a5 | tf_a6
  | tf_a7 | tf_s2 | tf_s3 | tf_s4 | tf_s5 | tf_s6 | tf_s7 | tf_s8 | tf_s9 | tf_s10 | tf_s11
  | tf_t3 | tf_t4 | tf_t5 | tf_t6

text \<open>The fields in the order of the struct; each is one \<open>usize\<close>.\<close>

definition tf_fields :: "tf_field list" where
  "tf_fields = [kernel_satp, kernel_sp, trap_handler, epc, hartid, tf_ra, tf_sp, tf_gp, tf_tp,
     tf_t0, tf_t1, tf_t2, tf_s0, tf_s1, tf_a0, tf_a1, tf_a2, tf_a3, tf_a4, tf_a5, tf_a6, tf_a7,
     tf_s2, tf_s3, tf_s4, tf_s5, tf_s6, tf_s7, tf_s8, tf_s9, tf_s10, tf_s11,
     tf_t3, tf_t4, tf_t5, tf_t6]"

fun index_of :: "'a \<Rightarrow> 'a list \<Rightarrow> nat" where
  "index_of x [] = 0"
| "index_of x (y # ys) = (if x = y then 0 else Suc (index_of x ys))"

definition tf_offset :: "tf_field \<Rightarrow> usize" where
  "tf_offset f = 4 * of_nat (index_of f tf_fields)"

type_synonym Trapframe = "tf_field \<Rightarrow> usize"

definition tf_get :: "memory \<Rightarrow> usize \<Rightarrow> tf_field \<Rightarrow> usize" where
  "tf_get m tf f = load32 m (tf + tf_offset f)"

definition tf_set :: "memory \<Rightarrow> usize \<Rightarrow> tf_field \<Rightarrow> usize \<Rightarrow> memory" where
  "tf_set m tf f v = store32 m (tf + tf_offset f) v"

definition Trapframe_default :: Trapframe where
  "Trapframe_default = (\<lambda>_. 0)"

definition Trapframe_read :: "memory \<Rightarrow> usize \<Rightarrow> Trapframe" where
  "Trapframe_read m tf = (\<lambda>f. tf_get m tf f)"

definition Trapframe_write :: "memory \<Rightarrow> usize \<Rightarrow> Trapframe \<Rightarrow> memory" where
  "Trapframe_write m tf v = fold (\<lambda>f m. tf_set m tf f (v f)) tf_fields m"

definition TF_LAYOUT :: Layout where
  "TF_LAYOUT = \<lparr>layout_size = 144, layout_align = 4\<rparr>"

text \<open>\<open>Box::new_in(tf, &FRAME_ALLOCATOR)\<close> and the drop of such a box.\<close>

definition Box_new_in :: "'h env \<Rightarrow> Trapframe \<Rightarrow> ('h, 'z) machine_scheme \<Rightarrow>
    (('h, 'z) machine_scheme, usize) outcome" where
  "Box_new_in E tf s =
     bind_ok (FrameAllocator_allocate E TF_LAYOUT s) (\<lambda>(r, s1).
       case r of None \<Rightarrow> Inl (Panic ''memory allocation of 144 bytes failed'')
       | Some (p, _) \<Rightarrow> Inr (p, s1\<lparr>mem := Trapframe_write (mem s1) p tf\<rparr>))"

definition Box_drop :: "'h env \<Rightarrow> usize \<Rightarrow> ('h, 'z) machine_scheme \<Rightarrow>
    (('h, 'z) machine_scheme, unit) outcome" where
  "Box_drop E p s = FrameAllocator_deallocate E p TF_LAYOUT s"

section \<open>Processes and the kernel state\<close>

datatype ProcState = Unused | Used | Sleeping | Runnable | Running | Zombie | Delete

text \<open>
  \<open>KSTACK!(n)\<close>: the lowest address of the two stack pages of process \<open>n\<close>, with a guard
  page below.
\<close>

definition KSTACK :: "usize \<Rightarrow> fault + usize" where
  "KSTACK n = bind_ok (add_chk n 1) (\<lambda>a. bind_ok (mul_chk a PAGESIZE) (\<lambda>b.
     bind_ok (add_chk KERNEL_STACK_PAGES 1) (\<lambda>c. bind_ok (mul_chk b c) (\<lambda>d.
     bind_ok (sub_chk TRAMPOLINE d) (\<lambda>e. add_chk e PAGESIZE)))))"

text \<open>
  Where a process that is not running continues when it is switched to: the code behind the
  return address in its saved context. \<open>allocproc\<close> sets it to \<open>forkret\<close>; the others are
  the calls of \<open>sched\<close>, with the locals that are used afterwards; the local \<open>interrupt_prev_state\<close> of \<open>sched\<close> is
  \<open>p_prev\<close>.
\<close>

datatype kcont = In_forkret | In_yeld_user | In_yeld_kernel usize usize | In_kwait usize | In_kexit | In_sleep

record Process =
  p_id :: usize
  p_pid :: "usize option"
  p_state :: ProcState
  p_kstack :: usize
  p_parent :: "usize option"
  p_pagetable :: Uvm
  p_context :: Context
  p_cont :: kcont
  p_prev :: bool
  p_xstatus :: u32
  p_sleep_channel :: "usize option"
  p_trapframe :: usize
  p_lock :: bool
  p_quants :: usize

record 'h kstate = "'h machine" +
  kernel_once :: bool
  kernel_lock :: bool
  k_kvm :: "Kvm option"
  k_table :: "Process list"
  k_pid :: usize

definition kernel_lockref :: "('h, 'z) kstate_scheme lockref" where
  "kernel_lockref = \<lparr>lk_get = kernel_lock, lk_set = (\<lambda>b s. s\<lparr>kernel_lock := b\<rparr>)\<rparr>"

definition upd_proc :: "nat \<Rightarrow> (Process \<Rightarrow> Process) \<Rightarrow> ('h, 'z) kstate_scheme \<Rightarrow> ('h, 'z) kstate_scheme" where
  "upd_proc i f s = s\<lparr>k_table := (k_table s)[i := f (k_table s ! i)]\<rparr>"

definition proc_lockref :: "nat \<Rightarrow> ('h, 'z) kstate_scheme lockref" where
  "proc_lockref i = \<lparr>lk_get = (\<lambda>s. p_lock (k_table s ! i)),
     lk_set = (\<lambda>b s. upd_proc i (\<lambda>p. p\<lparr>p_lock := b\<rparr>) s)\<rparr>"

text \<open>\<open>KERNEL.get().unwrap().lock()\<close> and the drop of its guard.\<close>

definition kernel_acquire :: "'h env \<Rightarrow> ('h, 'z) kstate_scheme \<Rightarrow> fault + ('h, 'z) kstate_scheme" where
  "kernel_acquire E s =
     (if kernel_once s then IntMutex_lock E kernel_lockref s
      else Inl (Panic ''called Option::unwrap() on a None value''))"

definition kernel_release :: "'h env \<Rightarrow> ('h, 'z) kstate_scheme \<Rightarrow> fault + ('h, 'z) kstate_scheme" where
  "kernel_release E s = IntMutexGuard_drop E kernel_lockref s"

section \<open>Operations on processes\<close>

text \<open>\<open>Process::new\<close>; the fields are built in the order of the source.\<close>

definition Process_new :: "'h env \<Rightarrow> usize \<Rightarrow> ('h, 'z) machine_scheme \<Rightarrow>
    (('h, 'z) machine_scheme, Process rresult) outcome" where
  "Process_new E n s =
     bind_ok (KSTACK n) (\<lambda>kstack.
       bind_ok (Uvm_new E s) (\<lambda>(r, s1).
         case r of Err \<Rightarrow> Inr (Err, s1) | Ok uvm \<Rightarrow>
         bind_ok (Box_new_in E Trapframe_default s1) (\<lambda>(tf, s2).
           Inr (Ok \<lparr>p_id = n, p_pid = None, p_state = Unused, p_kstack = kstack, p_parent = None,
             p_pagetable = uvm, p_context = Context_zero, p_cont = In_forkret, p_prev = False, p_xstatus = 0,
             p_sleep_channel = None, p_trapframe = tf, p_lock = False, p_quants = 0\<rparr>, s2))))"

text \<open>
  Assignment of a new address space or trapframe to a process: the new value is computed, then
  the old one is dropped and overwritten.
\<close>

definition set_pagetable :: "'h env \<Rightarrow> nat \<Rightarrow> Uvm \<Rightarrow> ('h, 'z) kstate_scheme \<Rightarrow>
    fault + ('h, 'z) kstate_scheme" where
  "set_pagetable E i uvm s =
     bind_ok (Uvm_drop E (p_pagetable (k_table s ! i)) s) (\<lambda>(_, s1).
       Inr (upd_proc i (\<lambda>p. p\<lparr>p_pagetable := uvm\<rparr>) s1))"

definition set_trapframe :: "'h env \<Rightarrow> nat \<Rightarrow> Trapframe \<Rightarrow> ('h, 'z) kstate_scheme \<Rightarrow>
    fault + ('h, 'z) kstate_scheme" where
  "set_trapframe E i tf s =
     bind_ok (Box_new_in E tf s) (\<lambda>(p, s1).
       bind_ok (Box_drop E (p_trapframe (k_table s1 ! i)) s1) (\<lambda>(_, s2).
         Inr (upd_proc i (\<lambda>q. q\<lparr>p_trapframe := p\<rparr>) s2)))"

definition Process_free :: "'h env \<Rightarrow> nat \<Rightarrow> ('h, 'z) kstate_scheme \<Rightarrow>
    (('h, 'z) kstate_scheme, unit rresult) outcome" where
  "Process_free E i s =
     (let s1 = upd_proc i (\<lambda>p. p\<lparr>p_pid := None, p_state := Unused, p_parent := None\<rparr>) s in
      bind_ok (Uvm_new E s1) (\<lambda>(r, s2).
        case r of Err \<Rightarrow> Inr (Err, s2) | Ok uvm \<Rightarrow>
        bind_ok (set_pagetable E i uvm s2) (\<lambda>s3.
          let s4 = upd_proc i (\<lambda>p. p\<lparr>p_context := Context_zero, p_xstatus := 0,
            p_sleep_channel := None\<rparr>) s3 in
          bind_ok (set_trapframe E i Trapframe_default s4) (\<lambda>s5. Inr (Ok (), s5)))))"

text \<open>Reading and writing a field of the process's trapframe.\<close>

definition trapframe_get :: "nat \<Rightarrow> tf_field \<Rightarrow> ('h, 'z) kstate_scheme \<Rightarrow> usize" where
  "trapframe_get i f s = tf_get (mem s) (p_trapframe (k_table s ! i)) f"

definition trapframe_set :: "nat \<Rightarrow> tf_field \<Rightarrow> usize \<Rightarrow> ('h, 'z) kstate_scheme \<Rightarrow>
    ('h, 'z) kstate_scheme" where
  "trapframe_set i f v s = s\<lparr>mem := tf_set (mem s) (p_trapframe (k_table s ! i)) f v\<rparr>"

section \<open>Operations of the kernel\<close>

definition Kernel_default :: "('h, 'z) kstate_scheme \<Rightarrow> ('h, 'z) kstate_scheme" where
  "Kernel_default s = s\<lparr>k_kvm := None, k_table := [], k_pid := 0\<rparr>"

definition Kernel_init :: "'h env \<Rightarrow> ('h, 'z) kstate_scheme \<Rightarrow>
    (('h, 'z) kstate_scheme, unit rresult) outcome" where
  "Kernel_init E s =
     bind_ok (Kvm_init E s) (\<lambda>(r, s1).
       case r of Err \<Rightarrow> Inr (Err, s1) | Ok kvm \<Rightarrow> Inr (Ok (), s1\<lparr>k_kvm := Some kvm\<rparr>))"

fun initproc_loop :: "'h env \<Rightarrow> Kvm \<Rightarrow> nat list \<Rightarrow> ('h, 'z) kstate_scheme \<Rightarrow>
    (('h, 'z) kstate_scheme, unit rresult) outcome" where
  "initproc_loop E kvm [] s = Inr (Ok (), s)"
| "initproc_loop E kvm (i # is) s =
     bind_ok (Process_new E (of_nat i) s) (\<lambda>(r, s1).
       case r of Err \<Rightarrow> Inr (Err, s1) | Ok proc \<Rightarrow>
       bind_ok (KSTACK (of_nat i)) (\<lambda>va.
         bind_ok (Kvm_alloc_kstack E kvm va s1) (\<lambda>s2.
           let s3 = print [ascii ''kstack: 0x'', fmt_hex (p_kstack proc), [10]] s2 in
           initproc_loop E kvm is (s3\<lparr>k_table := k_table s3 @ [proc]\<rparr>))))"

definition Kernel_initproc :: "'h env \<Rightarrow> usize \<Rightarrow> ('h, 'z) kstate_scheme \<Rightarrow>
    (('h, 'z) kstate_scheme, unit rresult) outcome" where
  "Kernel_initproc E n s =
     (let nproc = length (k_table s) in
      case k_kvm s of None \<Rightarrow> Inr (Err, s) | Some kvm \<Rightarrow>
      bind_ok (add_chk (of_nat nproc) n) (\<lambda>_.
        initproc_loop E kvm [nproc..<nproc + unat n] s))"

text \<open>\<open>allocproc\<close>: the first unused process, found in table order.\<close>

fun find_index :: "('a \<Rightarrow> bool) \<Rightarrow> 'a list \<Rightarrow> nat option" where
  "find_index P [] = None"
| "find_index P (x # xs) = (if P x then Some 0 else map_option Suc (find_index P xs))"

definition allocproc :: "'h env \<Rightarrow> ('h, 'z) kstate_scheme \<Rightarrow>
    (('h, 'z) kstate_scheme, nat option) outcome" where
  "allocproc E s =
     (case find_index (\<lambda>p. p_state p = Unused) (k_table s) of None \<Rightarrow> Inr (None, s) | Some i \<Rightarrow>
      let s1 = upd_proc i (\<lambda>p. p\<lparr>p_pid := Some (k_pid s)\<rparr>) s in
      bind_ok (add_chk (k_pid s1) 1) (\<lambda>pid'.
        let s2 = upd_proc i (\<lambda>p. p\<lparr>p_state := Used\<rparr>) (s1\<lparr>k_pid := pid'\<rparr>) in
        bind_ok (set_trapframe E i Trapframe_default s2) (\<lambda>s3.
          bind_ok (lock_manual E (proc_lockref i) s3) (\<lambda>s4.
            bind_ok (mul_chk KERNEL_STACK_PAGES PAGESIZE) (\<lambda>st.
              bind_ok (add_chk (p_kstack (k_table s4 ! i)) st) (\<lambda>sp.
                Inr (Some i, upd_proc i (\<lambda>p. p\<lparr>p_context :=
                  Context_zero\<lparr>ctx_ra := fn_forkret E, ctx_sp := sp\<rparr>, p_cont := In_forkret\<rparr>) s4)))))))"

text \<open>\<open>wakeup\<close>: each process is locked, woken if it sleeps on the channel, and unlocked.\<close>

fun wakeup_loop :: "'h env \<Rightarrow> usize option \<Rightarrow> nat list \<Rightarrow> ('h, 'z) kstate_scheme \<Rightarrow>
    fault + ('h, 'z) kstate_scheme" where
  "wakeup_loop E channel [] s = Inr s"
| "wakeup_loop E channel (i # is) s =
     bind_ok (lock_manual E (proc_lockref i) s) (\<lambda>s1.
       let p = k_table s1 ! i;
           s2 = (if p_state p = Sleeping \<and> p_sleep_channel p = channel
                 then upd_proc i (\<lambda>p. p\<lparr>p_state := Runnable\<rparr>) s1 else s1)
       in bind_ok (unlock_manual E (proc_lockref i) s2) (\<lambda>s3. wakeup_loop E channel is s3))"

definition wakeup :: "'h env \<Rightarrow> usize option \<Rightarrow> ('h, 'z) kstate_scheme \<Rightarrow> fault + ('h, 'z) kstate_scheme" where
  "wakeup E channel s = wakeup_loop E channel [0..<length (k_table s)] s"

definition reparent :: "'h env \<Rightarrow> usize option \<Rightarrow> ('h, 'z) kstate_scheme \<Rightarrow> fault + ('h, 'z) kstate_scheme" where
  "reparent E pid s =
     (let any_child = list_ex (\<lambda>p. p_parent p = pid) (k_table s);
          s1 = s\<lparr>k_table := map (\<lambda>p. if p_parent p = pid then p\<lparr>p_parent := Some 0\<rparr> else p) (k_table s)\<rparr>
      in if any_child then wakeup E (Some 0) s1 else Inr s1)"

end
