(* ===== verification/MemFrame.thy ===== *)
theory MemFrame
  imports Process PageTableSpec
begin

text \<open>
  What the memory operations leave alone, in whatever state they run: an operation that returns
  has changed memory, the heap and the saved interrupt state at most (\<open>same_rest\<close>). In
  particular the process table, the interrupt enable and the lock flags are as before. The
  process layer rests on these facts, which need no invariant of the page tables.
\<close>

lemma same_rest_int_ok: "int_ok s \<Longrightarrow> same_rest s s' \<Longrightarrow> int_ok s'"
  by (simp add: int_ok_def same_rest_def)

text \<open>
  A computation keeps the rest of the state if every state it returns does: \<open>keeps\<close> for
  computations with a result, \<open>keeps_st\<close> for those that return the state alone.
\<close>

definition keeps :: "('h, 'z) machine_scheme \<Rightarrow> (('h, 'z) machine_scheme, 'a) outcome \<Rightarrow> bool" where
  "keeps s m \<longleftrightarrow> (int_ok s \<longrightarrow> (\<forall>r s'. m = Inr (r, s') \<longrightarrow> same_rest s s'))"

definition keeps_st :: "('h, 'z) machine_scheme \<Rightarrow> fault + ('h, 'z) machine_scheme \<Rightarrow> bool" where
  "keeps_st s m \<longleftrightarrow> (int_ok s \<longrightarrow> (\<forall>s'. m = Inr s' \<longrightarrow> same_rest s s'))"

named_theorems keeps_intros \<open>composition rules of the frame property\<close>

lemma keepsD: "keeps s m \<Longrightarrow> int_ok s \<Longrightarrow> m = Inr (r, s') \<Longrightarrow> same_rest s s'"
  by (simp add: keeps_def)

lemma keeps_stD: "keeps_st s m \<Longrightarrow> int_ok s \<Longrightarrow> m = Inr s' \<Longrightarrow> same_rest s s'"
  by (simp add: keeps_st_def)

lemma keeps_Inl [keeps_intros]: "keeps s (Inl e)" "keeps_st s (Inl e)"
  by (simp_all add: keeps_def keeps_st_def)

lemma keeps_Inr [keeps_intros]: "same_rest s t \<Longrightarrow> keeps s (Inr (r, t))" "same_rest s t \<Longrightarrow> keeps_st s (Inr t)"
  by (simp_all add: keeps_def keeps_st_def)

lemma keeps_bind:
  assumes "keeps s m" "\<And>r s1. m = Inr (r, s1) \<Longrightarrow> same_rest s s1 \<Longrightarrow> keeps s1 (f (r, s1))"
  shows "keeps s (bind_ok m f)"
  using assms same_rest_trans same_rest_int_ok unfolding keeps_def by (fastforce elim!: bind_okE)

lemma keeps_bind_st:
  assumes "keeps_st s m" "\<And>s1. m = Inr s1 \<Longrightarrow> same_rest s s1 \<Longrightarrow> keeps s1 (f s1)"
  shows "keeps s (bind_ok m f)"
  using assms same_rest_trans same_rest_int_ok unfolding keeps_def keeps_st_def by (fastforce elim!: bind_okE)

lemma keeps_st_bind:
  assumes "keeps s m" "\<And>r s1. m = Inr (r, s1) \<Longrightarrow> same_rest s s1 \<Longrightarrow> keeps_st s1 (f (r, s1))"
  shows "keeps_st s (bind_ok m f)"
  using assms same_rest_trans same_rest_int_ok unfolding keeps_def keeps_st_def by (fastforce elim!: bind_okE)

lemma keeps_st_bind_st:
  assumes "keeps_st s m" "\<And>s1. m = Inr s1 \<Longrightarrow> same_rest s s1 \<Longrightarrow> keeps_st s1 (f s1)"
  shows "keeps_st s (bind_ok m f)"
  using assms same_rest_trans same_rest_int_ok unfolding keeps_st_def by (fastforce elim!: bind_okE)

text \<open>Pure parts: checks and unwrapping.\<close>

lemma keeps_pure:
  assumes "\<And>x. m = Inr x \<Longrightarrow> keeps s (f x)"
  shows "keeps s (bind_ok m f)"
  using assms by (cases m) (simp_all add: keeps_Inl)

lemma keeps_st_pure:
  assumes "\<And>x. m = Inr x \<Longrightarrow> keeps_st s (f x)"
  shows "keeps_st s (bind_ok m f)"
  using assms by (cases m) (simp_all add: keeps_Inl)

lemmas keeps_checks [keeps_intros] =
  keeps_pure [where m = "add_chk a b" for a b] keeps_pure [where m = "sub_chk a b" for a b]
  keeps_pure [where m = "mul_chk a b" for a b] keeps_pure [where m = "unwrap msg x" for msg x]
  keeps_pure [where m = "unwrap_result x" for x] keeps_pure [where m = "Uvm_end x" for x]
  keeps_st_pure [where m = "add_chk a b" for a b] keeps_st_pure [where m = "sub_chk a b" for a b]
  keeps_st_pure [where m = "mul_chk a b" for a b] keeps_st_pure [where m = "unwrap msg x" for msg x]
  keeps_st_pure [where m = "unwrap_result x" for x] keeps_st_pure [where m = "Uvm_end x" for x]

lemma keeps_mem [simp]: "keeps (s\<lparr>mem := m\<rparr>) r = keeps s r" "keeps_st (s\<lparr>mem := m\<rparr>) r' = keeps_st s r'"
  by (simp_all add: keeps_def keeps_st_def int_ok_def same_rest_def)

context spin_crate
begin

section \<open>The heap\<close>

lemma heap_lock_free:
  assumes "int_ok s" "IntMutex_lock E heap_lockref s = Inr s1"
  shows "heap_ready s"
proof (rule ccontr)
  assume "\<not> heap_ready s"
  then have "lk_get heap_lockref s" using assms(1) by (simp add: heap_ready_def)
  then show False
    using heap_cell.lock_manual_held [OF spin_crate_axioms assms(1)] assms(2)
    by (simp add: heap_cell.IntMutex_lock_eq_manual)
qed

lemma alloc_keeps: "keeps s (LockedHeap_alloc E layout s)"
  unfolding keeps_def
proof (intro impI allI)
  fix r s' assume a: "int_ok s" "LockedHeap_alloc E layout s = Inr (r, s')"
  then obtain s1 where "IntMutex_lock E heap_lockref s = Inr s1"
    by (auto simp: LockedHeap_alloc_def)
  then have "heap_ready s" using heap_lock_free a(1) by blast
  then show "same_rest s s'"
    using a(2) LockedHeap_alloc_eq [OF spin_crate_axioms, of s layout]
    by (cases "bh_alloc E (heap_st s) layout") auto
qed

lemma dealloc_keeps: "keeps s (LockedHeap_dealloc E p layout s)"
  unfolding keeps_def
proof (intro impI allI)
  fix r s' assume a: "int_ok s" "LockedHeap_dealloc E p layout s = Inr (r, s')"
  then have p: "p \<noteq> 0" by (auto simp: LockedHeap_dealloc_def)
  from a obtain s1 where "IntMutex_lock E heap_lockref s = Inr s1"
    by (auto simp: LockedHeap_dealloc_def)
  then have "heap_ready s" using heap_lock_free a(1) by blast
  then show "same_rest s s'"
    using a(2) LockedHeap_dealloc_eq [OF spin_crate_axioms _ p, of s layout] by auto
qed

lemma frame_alloc_keeps: "keeps s (FrameAllocator_allocate E layout s)"
  unfolding FrameAllocator_allocate_def
  by (auto intro!: keeps_bind [OF alloc_keeps] keeps_intros split: option.splits)

lemma frame_dealloc_keeps: "keeps s (FrameAllocator_deallocate E p layout s)"
  using dealloc_keeps by (simp add: FrameAllocator_deallocate_def)

section \<open>Page tables\<close>

lemma PageTable_new_keeps: "keeps s (PageTable_new E s)"
  unfolding PageTable_new_def Let_def
  by (auto intro!: keeps_bind [OF alloc_keeps] keeps_intros)

lemma walk_keeps: "keeps s (walk E pt va wt s)"
  unfolding walk_def Let_def
  by (auto intro!: keeps_bind [OF alloc_keeps] keeps_bind keeps_intros split: option.splits)

lemma map_loop_keeps:
  fixes s :: "('h, 'z) machine_scheme"
  shows "keeps s (map_loop E pt v p vend perm s)"
proof (induction "unat vend - unat v" arbitrary: v p s rule: less_induct)
  case less
  have dec: "unat vend - unat v' < unat vend - unat v" if "v < vend" "add_chk v PAGESIZE = Inr v'" for v'
    using that by (auto dest!: add_chk_unat simp: PAGESIZE_num word_less_nat_alt)
  have ih: "keeps s1 (map_loop E pt v' p' vend perm (s1\<lparr>mem := m\<rparr>))"
    if "v < vend" "add_chk v PAGESIZE = Inr v'" for v' p' m and s1 :: "('h, 'z) machine_scheme"
    using less.hyps [OF dec [OF that], where s = "s1\<lparr>mem := m\<rparr>"] by simp
  show ?case
    unfolding map_loop.simps [of E pt v p vend perm s]
    by (auto intro!: keeps_bind [OF walk_keeps] keeps_intros ih split: option.splits)
qed

lemma PageTable_map_keeps: "keeps s (PageTable_map E pt v p sz perm s)"
  unfolding PageTable_map_def by (auto intro!: keeps_intros map_loop_keeps)

lemma unmap_page_keeps: "keeps_st s (unmap_page E pt va free s)"
  unfolding unmap_page_def Let_def
  by (auto intro!: keeps_st_bind [OF walk_keeps] keeps_st_bind [OF dealloc_keeps] keeps_intros
      split: option.splits)

lemma unmap_loop_keeps: "keeps s (unmap_loop E pt n va free s)"
  by (induction n arbitrary: va s)
    (auto intro!: keeps_bind_st [OF unmap_page_keeps] keeps_intros)

lemma PageTable_unmap_keeps: "keeps s (PageTable_unmap E pt va sz free s)"
  unfolding PageTable_unmap_def by (auto intro!: unmap_loop_keeps keeps_intros)

lemma free_req_keeps:
  "keeps_st s (free_req d r s)" "keeps_st s (free_req_loop d r is s)"
proof (induction d r s and d r "is" s rule: free_req_free_req_loop.induct)
  case (4 d root i "is" s)
  show ?case
    unfolding free_req_loop.simps Let_def
    using 4 by (auto intro!: keeps_intros keeps_st_bind_st)
qed (auto intro!: keeps_intros)

lemma PageTable_drop_keeps: "keeps s (PageTable_drop E pt s)"
  unfolding PageTable_drop_def PageTable_free_def
  by (auto intro!: keeps_bind_st [OF free_req_keeps(1)] dealloc_keeps)

section \<open>Address spaces\<close>

lemma walkaddr_keeps: "keeps s (walkaddr E pt va s)"
  unfolding walkaddr_def Let_def
  by (auto intro!: keeps_bind [OF walk_keeps] keeps_intros split: option.splits)

lemma Uvm_new_keeps: "keeps s (Uvm_new E s)"
  unfolding Uvm_new_def by (auto intro!: keeps_bind [OF PageTable_new_keeps] keeps_intros)

lemma Uvm_free_keeps: "keeps s (Uvm_free E uv s)"
  unfolding Uvm_free_def
  by (auto intro!: keeps_bind [OF PageTable_unmap_keeps] keeps_intros)

lemma Uvm_drop_keeps: "keeps s (Uvm_drop E uv s)"
  unfolding Uvm_drop_def
  by (auto intro!: keeps_bind [OF Uvm_free_keeps] PageTable_drop_keeps)

lemma Uvm_alloc_keeps:
  fixes s :: "('h, 'z) machine_scheme"
  shows "keeps s (Uvm_alloc E uv sz perm s)"
proof (induction "unat sz - unat (uvm_size uv)" arbitrary: uv s rule: less_induct)
  case less
  have ih: "keeps s1 (Uvm_alloc E (uv\<lparr>uvm_size := n\<rparr>) sz pm s1)"
    if "uvm_size uv < sz" "add_chk (uvm_size uv) PAGESIZE = Inr n" "pm = perm"
    for n pm and s1 :: "('h, 'z) machine_scheme"
    unfolding \<open>pm = perm\<close>
  proof (rule less.hyps)
    show "unat sz - unat (uvm_size (uv\<lparr>uvm_size := n\<rparr>)) < unat sz - unat (uvm_size uv)"
      using that by (auto dest!: add_chk_unat simp: PAGESIZE_num word_less_nat_alt)
  qed
  show ?case
    unfolding Uvm_alloc.simps [of E uv sz perm s]
    by (auto intro!: keeps_bind [OF alloc_keeps] keeps_bind [OF PageTable_map_keeps]
        keeps_bind [OF dealloc_keeps] keeps_intros ih split: rresult.splits)
qed

lemma Uvm_grow_keeps: "keeps s (Uvm_grow E uv sz perm s)"
  unfolding Uvm_grow_def by (auto intro!: keeps_intros Uvm_alloc_keeps)

lemma Uvm_init_proc_keeps: "keeps s (Uvm_init_proc E uv tf s)"
  unfolding Uvm_init_proc_def
  by (auto intro!: keeps_bind [OF PageTable_map_keeps] keeps_intros split: rresult.splits)

lemma clone_loop_keeps:
  fixes s :: "('h, 'z) machine_scheme"
  shows "keeps_st s (clone_loop E src dst as s)"
proof (induction "as" arbitrary: s)
  case (Cons a "as")
  have map: "keeps s1 (PageTable_map E dst v p sz pm (s1\<lparr>mem := m\<rparr>))"
    for v p sz pm m and s1 :: "('h, 'z) machine_scheme"
    using PageTable_map_keeps [of "s1\<lparr>mem := m\<rparr>"] by simp
  show ?case
    by (auto intro!: keeps_st_bind [OF walk_keeps] keeps_st_bind [OF frame_alloc_keeps]
        keeps_st_bind [OF map] keeps_intros Cons.IH simp: Let_def)
qed (auto intro!: keeps_intros)

lemma Uvm_clone_keeps: "keeps s (Uvm_clone E uv s)"
  unfolding Uvm_clone_def Let_def
  by (auto intro!: keeps_bind [OF Uvm_new_keeps] keeps_bind_st [OF clone_loop_keeps] keeps_intros)

lemma load_loop_keeps:
  fixes s :: "('h, 'z) machine_scheme"
  shows "keeps s (load_loop E pt va cs s)"
proof (induction cs arbitrary: va s)
  case (Cons c cs)
  have ih: "keeps s1 (load_loop E pt v cs (s1\<lparr>mem := m\<rparr>))" for v m and s1 :: "('h, 'z) machine_scheme"
    using Cons.IH [of "s1\<lparr>mem := m\<rparr>"] by simp
  show ?case
    by (auto intro!: keeps_bind [OF walk_keeps] keeps_intros ih simp: Let_def split: option.splits)
qed (auto intro!: keeps_intros)

lemma Uvm_load_keeps: "keeps s (Uvm_load E uv va img s)"
  unfolding Uvm_load_def by (auto intro!: keeps_intros load_loop_keeps)

section \<open>Copies and boxes\<close>

lemma copy_in_keeps: "keeps s (copy_in E T uv a s)"
  unfolding copy_in_def
  by (auto intro!: keeps_bind [OF walkaddr_keeps] keeps_intros split: option.splits)

lemma copy_in_cont_keeps: "keeps s (copy_in_cont E T uv a n s)"
  unfolding copy_in_cont_def
  by (auto intro!: keeps_bind [OF walkaddr_keeps] keeps_intros split: option.splits)

lemma copy_in_str_keeps: "keeps s (copy_in_str E uv a s)"
  unfolding copy_in_str_def
  by (auto intro!: keeps_bind [OF walkaddr_keeps] keeps_pure [where m = "str_loop m a i" for m a i]
      keeps_intros split: option.splits)

lemma copy_out_keeps: "keeps s (copy_out E T uv a x s)"
  unfolding copy_out_def
  by (auto intro!: keeps_bind [OF walkaddr_keeps] keeps_intros split: option.splits)

lemma copy_out_cont_keeps: "keeps s (copy_out_cont E T uv a xs s)"
  unfolding copy_out_cont_def
  by (auto intro!: keeps_bind [OF walkaddr_keeps] keeps_intros split: option.splits)

lemma Box_new_in_keeps: "keeps s (Box_new_in E tf s)"
  unfolding Box_new_in_def
  by (auto intro!: keeps_bind [OF frame_alloc_keeps] keeps_intros split: option.splits)

lemma Box_drop_keeps: "keeps s (Box_drop E p s)"
  unfolding Box_drop_def by (rule frame_dealloc_keeps)

end

end
