(* ===== verification/Sched.thy ===== *)
theory Sched
  imports Process
begin

text \<open>
  Context switching and the calls that give up the processor (\<open>process.rs\<close>: \<open>sched\<close>,
  \<open>scheduler\<close>, \<open>yeld\<close>, \<open>kexit\<close>, \<open>kwait\<close>, \<open>sleep\<close>). A function that calls
  \<open>sched\<close> is split there: the part before runs until the switch to the scheduler and leaves
  the continuation in the process; the part after runs when the scheduler switches back. The
  registers \<open>switch\<close> saves are an argument, and \<open>Asm\<close> is about the switch itself.
\<close>

section \<open>sched\<close>

definition sched :: "nat \<Rightarrow> Context \<Rightarrow> kcont \<Rightarrow> ('h, 'z) kstate_scheme \<Rightarrow> fault + ('h, 'z) kstate_scheme" where
  "sched i regs c s =
     (if interrupt_read (csrs s) then Inl (Panic ''sched with interrupts enabled '')
      else if interrupt_off_stack (cpu s) \<noteq> 1 then Inl (Panic ''sched locks'')
      else case current (cpu s) of None \<Rightarrow> Inl (Panic ''null pointer dereference'') | Some j \<Rightarrow>
      if p_state (k_table s ! j) = Running then Inl (Panic ''sched running'')
      else Inr (upd_proc i (\<lambda>p. p\<lparr>p_context := regs, p_cont := c,
        p_prev := interrupt_prev_state (cpu s)\<rparr>) s))"

text \<open>The rest of \<open>sched\<close>, after the switch back.\<close>

definition sched_return :: "nat \<Rightarrow> ('h, 'z) kstate_scheme \<Rightarrow> ('h, 'z) kstate_scheme" where
  "sched_return i s = s\<lparr>cpu := (cpu s)\<lparr>interrupt_prev_state := p_prev (k_table s ! i)\<rparr>\<rparr>"

section \<open>yeld and sleep\<close>

text \<open>The messages of \<open>yeld\<close>, printed before and after it takes the lock.\<close>

definition yeld_report :: "('h, 'z) machine_scheme \<Rightarrow> ('h, 'z) machine_scheme" where
  "yeld_report s =
     println [ascii ''sched locks '', fmt_dec (interrupt_off_stack (cpu s))]
       (println [ascii ''interrupt: '', fmt_bool (interrupt_read (csrs s))] s)"

definition yeld :: "'h env \<Rightarrow> nat \<Rightarrow> Context \<Rightarrow> kcont \<Rightarrow> ('h, 'z) kstate_scheme \<Rightarrow>
    fault + ('h, 'z) kstate_scheme" where
  "yeld E i regs c s =
     bind_ok (lock_manual E (proc_lockref i) (yeld_report s)) (\<lambda>s1.
       sched i regs c (upd_proc i (\<lambda>p. p\<lparr>p_state := Runnable\<rparr>) (yeld_report s1)))"

definition yeld_resume :: "'h env \<Rightarrow> nat \<Rightarrow> ('h, 'z) kstate_scheme \<Rightarrow> fault + ('h, 'z) kstate_scheme" where
  "yeld_resume E i s = unlock_manual E (proc_lockref i) (sched_return i s)"

definition sleep :: "'h env \<Rightarrow> nat \<Rightarrow> usize option \<Rightarrow> Context \<Rightarrow> ('h, 'z) kstate_scheme \<Rightarrow>
    fault + ('h, 'z) kstate_scheme" where
  "sleep E i channel regs s =
     bind_ok (lock_manual E (proc_lockref i) s) (\<lambda>s1.
       sched i regs In_sleep (upd_proc i (\<lambda>p. p\<lparr>p_sleep_channel := channel, p_state := Sleeping\<rparr>) s1))"

definition sleep_resume :: "'h env \<Rightarrow> nat \<Rightarrow> ('h, 'z) kstate_scheme \<Rightarrow> fault + ('h, 'z) kstate_scheme" where
  "sleep_resume E i s =
     unlock_manual E (proc_lockref i) (upd_proc i (\<lambda>p. p\<lparr>p_sleep_channel := None\<rparr>) (sched_return i s))"

section \<open>kexit\<close>

text \<open>The lock \<open>kexit\<close> creates on its stack: nobody else can hold it.\<close>

definition local_lockref :: "'s lockref" where
  "local_lockref = \<lparr>lk_get = (\<lambda>_. False), lk_set = (\<lambda>_ s. s)\<rparr>"

definition kexit :: "'h env \<Rightarrow> nat \<Rightarrow> u32 \<Rightarrow> Context \<Rightarrow> ('h, 'z) kstate_scheme \<Rightarrow>
    fault + ('h, 'z) kstate_scheme" where
  "kexit E i xstatus regs s =
     (if p_pid (k_table s ! i) = Some 0 then Inl (Panic ''init exit'')
      else
        bind_ok (IntMutex_lock E local_lockref s) (\<lambda>s1.
        bind_ok (kernel_acquire E s1) (\<lambda>s2.
        bind_ok (reparent E (p_pid (k_table s2 ! i)) s2) (\<lambda>s3.
        bind_ok (kernel_release E s3) (\<lambda>s4.
        bind_ok (kernel_acquire E s4) (\<lambda>s5.
        bind_ok (wakeup E (p_parent (k_table s5 ! i)) s5) (\<lambda>s6.
        bind_ok (kernel_release E s6) (\<lambda>s7.
        bind_ok (lock_manual E (proc_lockref i) s7) (\<lambda>s8.
          let s9 = upd_proc i (\<lambda>p. p\<lparr>p_xstatus := xstatus, p_state := Zombie\<rparr>) s8 in
        bind_ok (IntMutexGuard_drop E local_lockref s9) (\<lambda>s10.
          sched i regs In_kexit s10))))))))))"

section \<open>kwait\<close>

text \<open>
  The scan over the table: children of the caller are locked in turn; the first zombie is freed
  and ends the scan. The result is \<open>has_kids\<close>, \<open>zombie_pid\<close> and \<open>zombie_xstatus\<close>.
\<close>

fun kwait_scan :: "'h env \<Rightarrow> usize option \<Rightarrow> nat list \<Rightarrow> bool \<Rightarrow> ('h, 'z) kstate_scheme \<Rightarrow>
    (('h, 'z) kstate_scheme, bool \<times> usize option \<times> u32) outcome" where
  "kwait_scan E parent_pid [] has_kids s = Inr ((has_kids, None, 0), s)"
| "kwait_scan E parent_pid (j # js) has_kids s =
     (if p_parent (k_table s ! j) = parent_pid then
        bind_ok (lock_manual E (proc_lockref j) s) (\<lambda>s1.
          let p = k_table s1 ! j in
          if p_state p = Zombie then
            bind_ok (Process_free E j s1) (\<lambda>(r, s2).
              bind_ok (unwrap_result r) (\<lambda>_.
                bind_ok (unlock_manual E (proc_lockref j) s2) (\<lambda>s3.
                  Inr ((True, p_pid p, p_xstatus p), s3))))
          else
            bind_ok (unlock_manual E (proc_lockref j) s1) (\<lambda>s2.
              kwait_scan E parent_pid js True s2))
      else kwait_scan E parent_pid js has_kids s)"

text \<open>
  One round of \<open>kwait\<close>. \<open>Wait_done\<close> carries the returned value, an \<open>i32\<close>;
  \<open>Wait_sleep\<close> means that the caller has switched to the scheduler.
\<close>

datatype wait_result = Wait_done "32 word" | Wait_sleep

definition kwait :: "'h env \<Rightarrow> nat \<Rightarrow> usize \<Rightarrow> Context \<Rightarrow> ('h, 'z) kstate_scheme \<Rightarrow>
    (('h, 'z) kstate_scheme, wait_result) outcome" where
  "kwait E i status_addr regs s =
     (let parent_pid = p_pid (k_table s ! i) in
      bind_ok (kernel_acquire E s) (\<lambda>s1.
        bind_ok (kwait_scan E parent_pid [0..<length (k_table s1)] False s1)
          (\<lambda>((has_kids, zombie_pid, zombie_xstatus), s2).
        bind_ok
          (if zombie_pid = None \<and> has_kids then
             bind_ok (unwrap ''waiting process missing from process table''
                 (find_index (\<lambda>p. p_pid p = parent_pid) (k_table s2))) (\<lambda>j.
               bind_ok (lock_manual E (proc_lockref j) s2) (\<lambda>s3.
                 Inr (upd_proc j (\<lambda>p. p\<lparr>p_sleep_channel := parent_pid, p_state := Sleeping\<rparr>) s3)))
           else Inr s2) (\<lambda>s4.
        bind_ok (kernel_release E s4) (\<lambda>s5.
          case zombie_pid of
            Some pid \<Rightarrow>
              bind_ok
                (if status_addr \<noteq> 0 then
                   bind_ok (copy_out E repr_u32 (p_pagetable (k_table s5 ! i)) status_addr zombie_xstatus s5)
                     (\<lambda>(r, s6). bind_ok (unwrap_result r) (\<lambda>_. Inr s6))
                 else Inr s5) (\<lambda>s6. Inr (Wait_done pid, s6))
          | None \<Rightarrow>
              if \<not> has_kids then Inr (Wait_done (- 1), println [ascii ''no kids''] s5)
              else bind_ok (sched i regs (In_kwait status_addr) s5) (\<lambda>s6. Inr (Wait_sleep, s6)))))))"

text \<open>Back from \<open>sched\<close>, before the next round.\<close>

definition kwait_resume :: "'h env \<Rightarrow> nat \<Rightarrow> ('h, 'z) kstate_scheme \<Rightarrow> fault + ('h, 'z) kstate_scheme" where
  "kwait_resume E i s =
     unlock_manual E (proc_lockref i) (upd_proc i (\<lambda>p. p\<lparr>p_sleep_channel := None\<rparr>) (sched_return i s))"

section \<open>scheduler\<close>

text \<open>\<open>order.sort_by_key(|&i| table[i].quants)\<close>, a stable sort.\<close>

definition sched_order :: "Process list \<Rightarrow> nat list" where
  "sched_order table = sort_key (\<lambda>i. p_quants (table ! i)) [0..<length table]"

fun pick_loop :: "'h env \<Rightarrow> nat list \<Rightarrow> ('h, 'z) kstate_scheme \<Rightarrow>
    (('h, 'z) kstate_scheme, nat option) outcome" where
  "pick_loop E [] s = Inr (None, s)"
| "pick_loop E (i # is) s =
     bind_ok (lock_manual E (proc_lockref i) s) (\<lambda>s1.
       if p_state (k_table s1 ! i) = Runnable
       then Inr (Some i, upd_proc i (\<lambda>p. p\<lparr>p_state := Running\<rparr>) s1)
       else bind_ok (unlock_manual E (proc_lockref i) s1) (\<lambda>s2. pick_loop E is s2))"

text \<open>One round of the scheduler up to its \<open>switch\<close>, which saves the registers of the
  scheduler, or to the \<open>wfi\<close> if no process is runnable.\<close>

definition scheduler :: "'h env \<Rightarrow> Context \<Rightarrow> ('h, 'z) kstate_scheme \<Rightarrow>
    (('h, 'z) kstate_scheme, nat option) outcome" where
  "scheduler E regs s =
     (let sp = print [ascii ''scheduler: ''] s;
          s0 = sp\<lparr>csrs := interrupt_off (interrupt_on (csrs sp))\<rparr> in
      bind_ok (kernel_acquire E s0) (\<lambda>s1.
        bind_ok (pick_loop E (sched_order (k_table s1)) s1) (\<lambda>(found, s2).
          bind_ok (kernel_release E s2) (\<lambda>s3.
            case found of
              Some i \<Rightarrow> bind_ok (add_chk (p_quants (k_table s3 ! i)) 1) (\<lambda>q.
                let s4 = upd_proc i (\<lambda>p. p\<lparr>p_quants := q\<rparr>) s3 in
                let s5 = println [ascii ''switching to process '', fmt_option (p_pid (k_table s4 ! i))]
                  (s4\<lparr>cpu := (cpu s4)\<lparr>current := Some i\<rparr>\<rparr>) in
                Inr (Some i, s5\<lparr>cpu := (cpu s5)\<lparr>cpu_context := regs\<rparr>\<rparr>))
            | None \<Rightarrow> let s4 = println [ascii ''no processes found''] s3 in
                Inr (None, s4\<lparr>csrs := interrupt_on (csrs s4)\<rparr>)))))"

text \<open>After the process has switched back.\<close>

definition scheduler_resume :: "'h env \<Rightarrow> nat \<Rightarrow> ('h, 'z) kstate_scheme \<Rightarrow> fault + ('h, 'z) kstate_scheme" where
  "scheduler_resume E i s =
     unlock_manual E (proc_lockref i) (s\<lparr>cpu := (cpu s)\<lparr>current := None\<rparr>\<rparr>)"

end
