(* ===== verification/Exec.thy ===== *)
theory Exec
  imports Sched
begin

text \<open>
  \<open>kfork\<close> and \<open>kexec\<close> (\<open>process.rs\<close>). Strings are byte lists; \<open>str::trim_end\<close>
  removes trailing Unicode white space. A local address space that an early return abandons is
  dropped, as is the guard of the kernel lock.
\<close>

section \<open>kfork\<close>

definition kfork :: "'h env \<Rightarrow> nat \<Rightarrow> ('h, 'z) kstate_scheme \<Rightarrow>
    (('h, 'z) kstate_scheme, usize rresult) outcome" where
  "kfork E i s =
     bind_ok (kernel_acquire E s) (\<lambda>s1.
     bind_ok (allocproc E s1) (\<lambda>(r, s2).
     case r of
       None \<Rightarrow> bind_ok (kernel_release E s2) (\<lambda>s3. Inr (Err, s3))
     | Some c \<Rightarrow>
       bind_ok (set_trapframe E c (Trapframe_read (mem s2) (p_trapframe (k_table s2 ! i))) s2) (\<lambda>s3.
       bind_ok (Uvm_clone E (p_pagetable (k_table s3 ! i)) s3) (\<lambda>(uvm, s4).
       bind_ok (Uvm_init_proc E uvm (p_trapframe (k_table s4 ! c)) s4) (\<lambda>(r1, s5).
       case r1 of
         Err \<Rightarrow> bind_ok (Uvm_drop E uvm s5) (\<lambda>(_, s6).
           bind_ok (kernel_release E s6) (\<lambda>s7. Inr (Err, s7)))
       | Ok _ \<Rightarrow>
         bind_ok (set_pagetable E c uvm s5) (\<lambda>s6.
         let s7 = trapframe_set c tf_a0 0 s6 in
         bind_ok (unwrap ''called Option::unwrap() on a None value'' (p_pid (k_table s7 ! c))) (\<lambda>cpid.
         let s8 = trapframe_set i tf_a0 cpid s7 in
         bind_ok (unlock_manual E (proc_lockref c) s8) (\<lambda>s9.
         let s10 = upd_proc c (\<lambda>p. p\<lparr>p_parent := p_pid (k_table s9 ! i)\<rparr>) s9 in
         bind_ok (lock_manual E (proc_lockref c) s10) (\<lambda>s11.
         let s12 = upd_proc c (\<lambda>p. p\<lparr>p_state := Runnable\<rparr>) s11 in
         bind_ok (unlock_manual E (proc_lockref c) s12) (\<lambda>s13.
         let res = (case p_pid (k_table s13 ! c) of None \<Rightarrow> Err | Some pid \<Rightarrow> Ok pid) in
         bind_ok (kernel_release E s13) (\<lambda>s14. Inr (res, s14))))))))))))"

section \<open>kexec\<close>

text \<open>The UTF-8 encodings of the characters with the Unicode property \<open>White_Space\<close>.\<close>

definition whitespace :: "u8 list list" where
  "whitespace = [[0x09], [0x0A], [0x0B], [0x0C], [0x0D], [0x20], [0xC2, 0x85], [0xC2, 0xA0],
     [0xE1, 0x9A, 0x80]] @
     map (\<lambda>b. [0xE2, 0x80, b]) [0x80, 0x81, 0x82, 0x83, 0x84, 0x85, 0x86, 0x87, 0x88, 0x89, 0x8A, 0xA8, 0xA9, 0xAF] @
     [[0xE2, 0x81, 0x9F], [0xE3, 0x80, 0x80]]"

fun strip_prefix :: "'a list \<Rightarrow> 'a list \<Rightarrow> 'a list option" where
  "strip_prefix [] ys = Some ys"
| "strip_prefix (x # xs) [] = None"
| "strip_prefix (x # xs) (y # ys) = (if x = y then strip_prefix xs ys else None)"

lemma strip_prefix_length: "strip_prefix xs ys = Some zs \<Longrightarrow> length zs = length ys - length xs \<and> length xs \<le> length ys"
  by (induction xs ys rule: strip_prefix.induct) (auto split: if_splits)

text \<open>Works on the reversed string: strips one reversed white space character at a time.\<close>

function trim_rev :: "u8 list \<Rightarrow> u8 list" where
  "trim_rev cs =
     (case List.map_filter (\<lambda>w. strip_prefix (rev w) cs) (filter (\<lambda>w. w \<noteq> []) whitespace) of
        [] \<Rightarrow> cs | ds # _ \<Rightarrow> trim_rev ds)"
  by pat_completeness auto
termination
proof (relation "measure length", goal_cases)
  case (2 cs ds dss)
  then have "ds \<in> set (List.map_filter (\<lambda>w. strip_prefix (rev w) cs) (filter (\<lambda>w. w \<noteq> []) whitespace))"
    by simp
  then obtain w where "w \<noteq> []" "strip_prefix (rev w) cs = Some ds"
    by (auto simp: List.map_filter_def)
  then have "length ds < length cs" using strip_prefix_length [of "rev w" cs ds] by (cases w) auto
  then show ?case by simp
qed simp

declare trim_rev.simps [simp del]

definition trim_end :: "u8 list \<Rightarrow> u8 list" where
  "trim_end s = rev (trim_rev (rev s))"

definition str_init :: "u8 list" where "str_init = [0x69, 0x6E, 0x69, 0x74]"
definition str_prime :: "u8 list" where "str_prime = [0x70, 0x72, 0x69, 0x6D, 0x65]"

definition kexec_image :: "'h env \<Rightarrow> u8 list \<Rightarrow> fault + usize \<times> usize" where
  "kexec_image E path =
     (if trim_end path = str_init then Inr (img_INIT E)
      else if trim_end path = str_prime then Inr (img_PRIME E)
      else Inl (Panic ''kexec: unknown program''))"

text \<open>An early return of \<open>kexec\<close> with \<open>Err\<close> drops the new address space.\<close>

definition exec_fail :: "'h env \<Rightarrow> Uvm \<Rightarrow> ('h, 'z) kstate_scheme \<Rightarrow>
    (('h, 'z) kstate_scheme, unit rresult) outcome" where
  "exec_fail E pagetree s = bind_ok (Uvm_drop E pagetree s) (\<lambda>(_, s1). Inr (Err, s1))"

text \<open>The loop over the arguments: the result is the stack pointer and the argument addresses,
  or \<open>Err\<close>.\<close>

fun exec_args :: "'h env \<Rightarrow> Uvm \<Rightarrow> usize \<Rightarrow> u8 list list \<Rightarrow> usize \<Rightarrow> ('h, 'z) kstate_scheme \<Rightarrow>
    (('h, 'z) kstate_scheme, (usize \<times> usize list) rresult) outcome" where
  "exec_args E pagetree stack_base [] sp s = Inr (Ok (sp, []), s)"
| "exec_args E pagetree stack_base (arg # args) sp s =
     bind_ok (sub_chk sp (of_nat (length arg))) (\<lambda>sp1.
       let sp2 = sp1 AND NOT 0b111 in
       if sp2 < stack_base then Inr (Err, s)
       else bind_ok (copy_out_cont E repr_u8 pagetree sp2 arg s) (\<lambda>(r, s1).
         case r of Err \<Rightarrow> Inr (Err, s1) | Ok _ \<Rightarrow>
         bind_ok (exec_args E pagetree stack_base args sp2 s1) (\<lambda>(r', s2).
           case r' of Err \<Rightarrow> Inr (Err, s2) | Ok (sp', ustack) \<Rightarrow> Inr (Ok (sp', sp2 # ustack), s2))))"

text \<open>The stack part of \<open>kexec\<close>: arguments, their addresses and a final zero.\<close>

definition exec_stack :: "'h env \<Rightarrow> Uvm \<Rightarrow> u8 list list \<Rightarrow> ('h, 'z) kstate_scheme \<Rightarrow>
    (('h, 'z) kstate_scheme, usize rresult) outcome" where
  "exec_stack E pagetree argv s =
     bind_ok (Uvm_end pagetree) (\<lambda>sp0. bind_ok (sub_chk sp0 PAGESIZE) (\<lambda>stack_base.
     bind_ok (exec_args E pagetree stack_base argv sp0 s) (\<lambda>(r, s1).
     case r of Err \<Rightarrow> Inr (Err, s1) | Ok (sp1, addrs) \<Rightarrow>
     let ustack = addrs @ [0] in
     bind_ok (mul_chk (of_nat (length ustack)) 4) (\<lambda>n. bind_ok (sub_chk sp1 n) (\<lambda>sp2.
     if sp2 < stack_base then Inr (Err, s1)
     else bind_ok (copy_out_cont E repr_u32 pagetree sp2 ustack s1) (\<lambda>(r', s2).
       case r' of Err \<Rightarrow> Inr (Err, s2) | Ok _ \<Rightarrow> Inr (Ok sp2, s2)))))))"

text \<open>The memory part of \<open>kexec\<close>: the new address space with image, guard page and stack.\<close>

definition exec_build :: "'h env \<Rightarrow> nat \<Rightarrow> usize \<times> usize \<Rightarrow> u8 list list \<Rightarrow> ('h, 'z) kstate_scheme \<Rightarrow>
    (('h, 'z) kstate_scheme, (Uvm \<times> usize) rresult) outcome" where
  "exec_build E i img argv s =
     bind_ok (Uvm_new E s) (\<lambda>(r0, s1).
     case r0 of Err \<Rightarrow> Inr (Err, s1) | Ok uv0 \<Rightarrow>
     bind_ok (Uvm_init_proc E uv0 (p_trapframe (k_table s1 ! i)) s1) (\<lambda>(r1, s2).
     case r1 of Err \<Rightarrow> bind_ok (exec_fail E uv0 s2) (\<lambda>(_, t). Inr (Err, t)) | Ok _ \<Rightarrow>
     bind_ok (Uvm_alloc E uv0 (snd img) (PTE_R OR PTE_W OR PTE_X) s2) (\<lambda>((r2, uv1), s3).
     case r2 of Err \<Rightarrow> bind_ok (exec_fail E uv1 s3) (\<lambda>(_, t). Inr (Err, t)) | Ok _ \<Rightarrow>
     bind_ok (Uvm_load E uv1 USER_START img s3) (\<lambda>(r3, s4).
     case r3 of Err \<Rightarrow> bind_ok (exec_fail E uv1 s4) (\<lambda>(_, t). Inr (Err, t)) | Ok _ \<Rightarrow>
     bind_ok (Uvm_grow E uv1 PAGESIZE 0 s4) (\<lambda>((r4, uv2), s5).
     bind_ok (unwrap_result r4) (\<lambda>_.
     bind_ok (Uvm_grow E uv2 PAGESIZE (PTE_W OR PTE_R) s5) (\<lambda>((r5, uv3), s6).
     bind_ok (unwrap_result r5) (\<lambda>_.
     bind_ok (exec_stack E uv3 argv s6) (\<lambda>(r6, s7).
     case r6 of Err \<Rightarrow> bind_ok (exec_fail E uv3 s7) (\<lambda>(_, t). Inr (Err, t)) | Ok sp \<Rightarrow>
     Inr (Ok (uv3, sp), s7))))))))))"

definition kexec :: "'h env \<Rightarrow> nat \<Rightarrow> u8 list \<Rightarrow> u8 list list \<Rightarrow> ('h, 'z) kstate_scheme \<Rightarrow>
    (('h, 'z) kstate_scheme, unit rresult) outcome" where
  "kexec E i path argv s =
     bind_ok (kexec_image E path) (\<lambda>img.
     bind_ok (exec_build E i img argv s) (\<lambda>(r, s1).
     case r of Err \<Rightarrow> Inr (Err, s1) | Ok (pagetree, sp) \<Rightarrow>
     let s2 = trapframe_set i tf_a0 (of_nat (length argv)) s1;
         s3 = trapframe_set i tf_a1 sp s2 in
     bind_ok (set_pagetable E i pagetree s3) (\<lambda>s4.
       Inr (Ok (), trapframe_set i epc USER_START (trapframe_set i tf_sp sp s4)))))"

end
