(* ===== verification/Trap.thy ===== *)
theory Trap
  imports Exec
begin

text \<open>
  Trap handlers and system calls (\<open>trap.rs\<close>, \<open>kernel/syscall.rs\<close>,
  \<open>kernel/syscall/\<close>, and \<open>forkret\<close> and \<open>prepare_return\<close> of \<open>process.rs\<close>). A
  handler ends by returning to user mode with the value for \<open>satp\<close>, by switching to the
  scheduler, or in a panic; \<open>resume\<close> is what a process does when it is switched to.
\<close>

section \<open>Returning to user mode\<close>

definition prepare_return :: "'h env \<Rightarrow> nat \<Rightarrow> ('h, 'z) kstate_scheme \<Rightarrow> fault + ('h, 'z) kstate_scheme" where
  "prepare_return E i s =
     (let s1 = s\<lparr>csrs := interrupt_off (csrs s)\<rparr> in
      bind_ok (sub_chk (fn_uservec E) (sym_trampoline E)) (\<lambda>uservec_off.
      bind_ok (add_chk TRAMPOLINE uservec_off) (\<lambda>vec.
      let s2 = s1\<lparr>csrs := write_csr (csrs s1) Csr_stvec vec\<rparr>;
          s3 = trapframe_set i kernel_satp (read_csr (csrs s2) Csr_satp) s2 in
      bind_ok (mul_chk KERNEL_STACK_PAGES PAGESIZE) (\<lambda>st.
      bind_ok (add_chk (p_kstack (k_table s3 ! i)) st) (\<lambda>sp.
      let s4 = trapframe_set i kernel_sp sp s3;
          s5 = trapframe_set i trap_handler (fn_usertrap E) s4;
          s6 = trapframe_set i hartid 0 s5;
          sstatus = read_csr (csrs s6) Csr_sstatus AND NOT SSTATUS_SPP OR SSTATUS_SPIE;
          s7 = s6\<lparr>csrs := write_csr (csrs s6) Csr_sstatus sstatus\<rparr>
      in Inr (s7\<lparr>csrs := write_csr (csrs s7) Csr_sepc (trapframe_get i epc s7)\<rparr>))))))"

text \<open>\<open>forkret\<close> ends in \<open>userret\<close> at its trampoline address: the result is the value for
  \<open>satp\<close> and that address.\<close>

definition forkret :: "'h env \<Rightarrow> ('h, 'z) kstate_scheme \<Rightarrow> (('h, 'z) kstate_scheme, usize \<times> usize) outcome" where
  "forkret E s =
     (case current (cpu s) of None \<Rightarrow> Inl (Panic ''null pointer dereference'') | Some i \<Rightarrow>
      bind_ok (unlock_manual E (proc_lockref i) s) (\<lambda>s1.
      bind_ok (prepare_return E i s1) (\<lambda>s2.
      let satp = SATP_into (Uvm_get_satp (p_pagetable (k_table s2 ! i))) in
      bind_ok (sub_chk (fn_userret E) (sym_trampoline E)) (\<lambda>userret_off.
      bind_ok (add_chk TRAMPOLINE userret_off) (\<lambda>dest. Inr ((satp, dest), s2))))))"

section \<open>System calls\<close>

definition SYS_FORK :: usize where "SYS_FORK = 1"
definition SYS_EXIT :: usize where "SYS_EXIT = 2"
definition SYS_WAIT :: usize where "SYS_WAIT = 3"
definition SYS_PIPE :: usize where "SYS_PIPE = 4"
definition SYS_READ :: usize where "SYS_READ = 5"
definition SYS_KILL :: usize where "SYS_KILL = 6"
definition SYS_EXEC :: usize where "SYS_EXEC = 7"
definition SYS_FSTAT :: usize where "SYS_FSTAT = 8"
definition SYS_CHDIR :: usize where "SYS_CHDIR = 9"
definition SYS_DUP :: usize where "SYS_DUP = 10"
definition SYS_GETPID :: usize where "SYS_GETPID = 11"
definition SYS_SBRK :: usize where "SYS_SBRK = 12"
definition SYS_PAUSE :: usize where "SYS_PAUSE = 13"
definition SYS_UPTIME :: usize where "SYS_UPTIME = 14"
definition SYS_OPEN :: usize where "SYS_OPEN = 15"
definition SYS_WRITE :: usize where "SYS_WRITE = 16"
definition SYS_MKNOD :: usize where "SYS_MKNOD = 17"
definition SYS_UNLINK :: usize where "SYS_UNLINK = 18"
definition SYS_LINK :: usize where "SYS_LINK = 19"
definition SYS_MKDIR :: usize where "SYS_MKDIR = 20"
definition SYS_CLOSE :: usize where "SYS_CLOSE = 21"

datatype sys_result = Sys_done | Sys_switched

definition sys_write :: "'h env \<Rightarrow> nat \<Rightarrow> ('h, 'z) kstate_scheme \<Rightarrow> fault + ('h, 'z) kstate_scheme" where
  "sys_write E i s =
     (let fd = trapframe_get i tf_a0 s; addr = trapframe_get i tf_a1 s; sz = trapframe_get i tf_a2 s in
      if fd \<noteq> 1 then Inl (Panic ''Write to fd'')
      else bind_ok (copy_in_cont E repr_u8 (p_pagetable (k_table s ! i)) addr sz s) (\<lambda>(r, s1).
        bind_ok (unwrap_result r) (\<lambda>bytes.
        bind_ok (unwrap_result (from_utf8 bytes)) (\<lambda>msg.
          Inr (trapframe_set i tf_a0 0 (uart_print msg s1))))))"

definition sys_fork :: "'h env \<Rightarrow> nat \<Rightarrow> ('h, 'z) kstate_scheme \<Rightarrow> fault + ('h, 'z) kstate_scheme" where
  "sys_fork E i s = bind_ok (kfork E i s) (\<lambda>(r, s1). bind_ok (unwrap_result r) (\<lambda>_. Inr s1))"

text \<open>The loop that collects the argument strings; the address increment is checked.\<close>

function argv_loop :: "'h env \<Rightarrow> Uvm \<Rightarrow> usize \<Rightarrow> ('h, 'z) kstate_scheme \<Rightarrow>
    (('h, 'z) kstate_scheme, u8 list list) outcome" where
  "argv_loop E uv argv_addr s =
     bind_ok (copy_in E repr_u32 uv argv_addr s) (\<lambda>(r, s1).
     bind_ok (unwrap_result r) (\<lambda>arg_addr.
     if arg_addr = 0 then Inr ([], s1)
     else
       bind_ok (copy_in_str E uv arg_addr s1) (\<lambda>(r', s2).
       bind_ok (unwrap_result r') (\<lambda>arg_str.
       bind_ok (add_chk argv_addr 4) (\<lambda>next_addr.
       bind_ok (argv_loop E uv next_addr s2) (\<lambda>(rest, s3). Inr (arg_str # rest, s3)))))))"
  by pat_completeness auto
termination
proof (relation "measure (\<lambda>(E, uv, a, s). 2 ^ 32 - unat a)", goal_cases)
  case (2 E uv a s)
  then show ?case using unat_u32_bound by (auto dest!: add_chk_unat intro!: diff_less_mono2)
qed simp

declare argv_loop.simps [simp del]

definition sys_exec :: "'h env \<Rightarrow> nat \<Rightarrow> ('h, 'z) kstate_scheme \<Rightarrow> fault + ('h, 'z) kstate_scheme" where
  "sys_exec E i s =
     (let path_addr = trapframe_get i tf_a0 s; argv_addr = trapframe_get i tf_a1 s in
      bind_ok (copy_in_str E (p_pagetable (k_table s ! i)) path_addr s) (\<lambda>(r, s1).
      bind_ok (unwrap_result r) (\<lambda>path.
      bind_ok (argv_loop E (p_pagetable (k_table s1 ! i)) argv_addr s1) (\<lambda>(argv, s2).
      bind_ok (kexec E i path argv s2) (\<lambda>(r', s3).
      bind_ok (unwrap_result r') (\<lambda>_. Inr s3))))))"

text \<open>\<open>sys_wait\<close> from the call of \<open>kwait\<close> on; it is entered again after every sleep.\<close>

definition sys_wait_from :: "'h env \<Rightarrow> nat \<Rightarrow> usize \<Rightarrow> Context \<Rightarrow> ('h, 'z) kstate_scheme \<Rightarrow>
    (('h, 'z) kstate_scheme, sys_result) outcome" where
  "sys_wait_from E i status_addr regs s =
     bind_ok (kwait E i status_addr regs s) (\<lambda>(r, s1).
       case r of Wait_done ret \<Rightarrow> Inr (Sys_done, trapframe_set i tf_a0 ret s1)
       | Wait_sleep \<Rightarrow> Inr (Sys_switched, s1))"

definition sys_wait :: "'h env \<Rightarrow> nat \<Rightarrow> Context \<Rightarrow> ('h, 'z) kstate_scheme \<Rightarrow>
    (('h, 'z) kstate_scheme, sys_result) outcome" where
  "sys_wait E i regs s = sys_wait_from E i (trapframe_get i tf_a0 s) regs s"

definition sys_exit :: "'h env \<Rightarrow> nat \<Rightarrow> Context \<Rightarrow> ('h, 'z) kstate_scheme \<Rightarrow>
    (('h, 'z) kstate_scheme, sys_result) outcome" where
  "sys_exit E i regs s =
     bind_ok (kexit E i (trapframe_get i tf_a0 s) regs s) (\<lambda>s1. Inr (Sys_switched, s1))"

definition syscall :: "'h env \<Rightarrow> nat \<Rightarrow> Context \<Rightarrow> ('h, 'z) kstate_scheme \<Rightarrow>
    (('h, 'z) kstate_scheme, sys_result) outcome" where
  "syscall E i regs s =
     (let sys_num = trapframe_get i tf_a7 s in
      if sys_num = SYS_WRITE then bind_ok (sys_write E i s) (\<lambda>s1. Inr (Sys_done, s1))
      else if sys_num = SYS_FORK then bind_ok (sys_fork E i s) (\<lambda>s1. Inr (Sys_done, s1))
      else if sys_num = SYS_EXEC then bind_ok (sys_exec E i s) (\<lambda>s1. Inr (Sys_done, s1))
      else if sys_num = SYS_WAIT then sys_wait E i regs s
      else if sys_num = SYS_EXIT then sys_exit E i regs s
      else Inl (Panic ''unimplemented syscall''))"

section \<open>Trap handlers\<close>

definition init_trap :: "'h env \<Rightarrow> ('h, 'z) machine_scheme \<Rightarrow> ('h, 'z) machine_scheme" where
  "init_trap E s =
     (let c1 = write_csr (csrs s) Csr_stvec (fn_kernelvec E);
          sie = read_csr c1 Csr_sie
      in s\<lparr>csrs := write_csr c1 Csr_sie (sie OR SIE_SEIE OR SIE_STIE)\<rparr>)"

text \<open>\<open>To_user satp\<close>: the trampoline returns to user mode on that page table.\<close>

datatype trap_result = To_user usize | To_sched | To_kernel

definition TIMER_INTERRUPT :: usize where "TIMER_INTERRUPT = 0x80000005"

text \<open>
  The timer part both handlers share: the time is reported and the next interrupt is requested a
  fixed time ahead.
\<close>

definition next_timer :: "(u8 list list \<Rightarrow> ('h, 'z) machine_scheme \<Rightarrow> fault + ('h, 'z) machine_scheme) \<Rightarrow>
    string \<Rightarrow> ('h, 'z) machine_scheme \<Rightarrow> fault + ('h, 'z) machine_scheme" where
  "next_timer prt prefix s =
     (let time = read_csr (csrs s) Csr_time in
      bind_ok (add_chk time 1000000) (\<lambda>t.
      bind_ok (prt [ascii prefix, fmt_hex time, ascii '', next timer on: 0x'', fmt_hex t] s) (\<lambda>s1.
      Inr (s1\<lparr>stimecmp := t\<rparr>))))"

definition trap_report :: "usize option \<Rightarrow> csr_file \<Rightarrow> u8 list list" where
  "trap_report pid f = [ascii ''>TRAP '', fmt_option pid, ascii '' sepc=0x'', fmt_hex8 (read_csr f Csr_sepc),
     ascii '' sstatus=0b'', fmt_bin (read_csr f Csr_sstatus), ascii '' scause=0x'', fmt_hex (read_csr f Csr_scause),
     ascii '' stval=0x'', fmt_hex (read_csr f Csr_stval)]"

definition kerneltrap_end :: "usize \<Rightarrow> usize \<Rightarrow> ('h, 'z) machine_scheme \<Rightarrow> ('h, 'z) machine_scheme" where
  "kerneltrap_end sepc sstatus s =
     s\<lparr>csrs := write_csr (write_csr (csrs s) Csr_sepc sepc) Csr_sstatus sstatus\<rparr>"

definition kerneltrap :: "'h env \<Rightarrow> Context \<Rightarrow> ('h, 'z) kstate_scheme \<Rightarrow>
    (('h, 'z) kstate_scheme, trap_result) outcome" where
  "kerneltrap E regs s =
     (let sepc = read_csr (csrs s) Csr_sepc; sstatus = read_csr (csrs s) Csr_sstatus;
          scause = read_csr (csrs s) Csr_scause in
      if sstatus AND SSTATUS_SPP = 0 then Inl (Panic ''kerneltrap: not from supervisor mode'')
      else if interrupt_read (csrs s) then Inl (Panic ''kerneltrap: interrupts enabled'')
      else
        let pid = (case current (cpu s) of None \<Rightarrow> None | Some i \<Rightarrow> p_pid (k_table s ! i)) in
        bind_ok (kprintln (trap_report pid (csrs s)) s) (\<lambda>s1.
        if scause = TIMER_INTERRUPT then
          bind_ok (next_timer kprintln ''>time: 0x'' s1) (\<lambda>s2.
            case current (cpu s2) of
              None \<Rightarrow> Inr (To_kernel, kerneltrap_end sepc sstatus s2)
            | Some i \<Rightarrow>
                bind_ok (kprintln [ascii ''yelding''] s2) (\<lambda>s3.
                bind_ok (yeld E i regs (In_yeld_kernel sepc sstatus) s3) (\<lambda>s4. Inr (To_sched, s4))))
        else Inl (Panic ''explicit panic'')))"

text \<open>The end of \<open>usertrap\<close>, reached at once or after a switch.\<close>

definition usertrap_end :: "'h env \<Rightarrow> nat \<Rightarrow> ('h, 'z) kstate_scheme \<Rightarrow>
    (('h, 'z) kstate_scheme, trap_result) outcome" where
  "usertrap_end E i s =
     bind_ok (prepare_return E i s) (\<lambda>s1.
       Inr (To_user (SATP_into (Uvm_get_satp (p_pagetable (k_table s1 ! i)))), s1))"

definition usertrap_sys :: "'h env \<Rightarrow> nat \<Rightarrow> (('h, 'z) kstate_scheme, sys_result) outcome \<Rightarrow>
    (('h, 'z) kstate_scheme, trap_result) outcome" where
  "usertrap_sys E i m = bind_ok m (\<lambda>(r, s1).
     case r of Sys_done \<Rightarrow> usertrap_end E i s1 | Sys_switched \<Rightarrow> Inr (To_sched, s1))"

definition usertrap :: "'h env \<Rightarrow> Context \<Rightarrow> ('h, 'z) kstate_scheme \<Rightarrow>
    (('h, 'z) kstate_scheme, trap_result) outcome" where
  "usertrap E regs s =
     (let sepc = read_csr (csrs s) Csr_sepc; sstatus = read_csr (csrs s) Csr_sstatus;
          scause = read_csr (csrs s) Csr_scause in
      case current (cpu s) of None \<Rightarrow> Inl (Panic ''null current'') | Some i \<Rightarrow>
      if sstatus AND SSTATUS_SPP \<noteq> 0 then Inl (Panic ''usertrap: not from user mode'')
      else if interrupt_read (csrs s) then Inl (Panic ''usertrap: interrupts enabled'')
      else
        let s1 = s\<lparr>csrs := write_csr (csrs s) Csr_stvec (fn_kernelvec E)\<rparr>;
            s2 = trapframe_set i epc sepc s1 in
        if scause = 8 then
          bind_ok (add_chk (trapframe_get i epc s2) 4) (\<lambda>pc.
            let s3 = trapframe_set i epc pc s2;
                s4 = s3\<lparr>csrs := interrupt_on (csrs s3)\<rparr>
            in usertrap_sys E i (syscall E i regs s4))
        else if scause = TIMER_INTERRUPT then
          bind_ok (next_timer (\<lambda>args s. Inr (println args s)) ''user>time: 0x'' s2) (\<lambda>s3.
            bind_ok (yeld E i regs In_yeld_user s3) (\<lambda>s4. Inr (To_sched, s4)))
        else Inl (Panic ''user> cause''))"

section \<open>Resuming a process\<close>

text \<open>
  What the process \<open>i\<close> does when the scheduler switches to it, until it returns to user mode,
  continues interrupted kernel code, or gives up the processor again.
\<close>

definition resume :: "'h env \<Rightarrow> nat \<Rightarrow> Context \<Rightarrow> ('h, 'z) kstate_scheme \<Rightarrow>
    (('h, 'z) kstate_scheme, trap_result) outcome" where
  "resume E i regs s =
     (case p_cont (k_table s ! i) of
        In_forkret \<Rightarrow> bind_ok (forkret E s) (\<lambda>((satp, _), s1). Inr (To_user satp, s1))
      | In_yeld_user \<Rightarrow> bind_ok (yeld_resume E i s) (\<lambda>s1. usertrap_end E i s1)
      | In_yeld_kernel sepc sstatus \<Rightarrow>
          bind_ok (yeld_resume E i s) (\<lambda>s1. Inr (To_kernel, kerneltrap_end sepc sstatus s1))
      | In_kwait status_addr \<Rightarrow>
          bind_ok (kwait_resume E i s) (\<lambda>s1. usertrap_sys E i (sys_wait_from E i status_addr regs s1))
      | In_kexit \<Rightarrow> Inl (Panic ''cordyceps'')
      | In_sleep \<Rightarrow> bind_ok (sleep_resume E i s) (\<lambda>s1. Inr (To_kernel, s1)))"

end
