(* ===== verification/ProcAbs.thy ===== *)
theory ProcAbs
  imports Process
begin

text \<open>
  The life cycle of processes, as an abstract machine: a table of slots, the next pid and the
  process that has the processor. Its labelled steps say what dispatching, yielding, forking,
  exiting and waiting mean; memory, locks and interrupts do not occur. The invariant shows that
  no wake-up is lost and that the system never comes to rest; \<open>ProcRefine\<close> proves that the
  kernel's handlers implement the steps.
\<close>

section \<open>States and steps\<close>

record aproc =
  a_state :: ProcState
  a_pid :: "usize option"
  a_parent :: "usize option"
  a_chan :: "usize option"
  a_xstatus :: u32
  a_cont :: kcont
  a_quants :: usize

record asys =
  a_tab :: "aproc list"
  a_next :: usize
  a_run :: "nat option"

definition a_upd :: "nat \<Rightarrow> (aproc \<Rightarrow> aproc) \<Rightarrow> asys \<Rightarrow> asys" where
  "a_upd i f A = A\<lparr>a_tab := (a_tab A)[i := f (a_tab A ! i)]\<rparr>"

text \<open>The choice of the scheduler: fewest quanta, then lowest index.\<close>

definition a_runnable :: "aproc list \<Rightarrow> nat \<Rightarrow> bool" where
  "a_runnable t i \<longleftrightarrow> i < length t \<and> a_state (t ! i) = Runnable"

definition a_choice :: "aproc list \<Rightarrow> nat \<Rightarrow> bool" where
  "a_choice t i \<longleftrightarrow> a_runnable t i \<and> (\<forall>j < length t. a_runnable t j \<longrightarrow>
     a_quants (t ! i) < a_quants (t ! j) \<or> a_quants (t ! i) = a_quants (t ! j) \<and> i \<le> j)"

definition a_wake :: "usize option \<Rightarrow> aproc \<Rightarrow> aproc" where
  "a_wake c p = (if a_state p = Sleeping \<and> a_chan p = c then p\<lparr>a_state := Runnable\<rparr> else p)"

definition a_adopt :: "usize option \<Rightarrow> aproc \<Rightarrow> aproc" where
  "a_adopt pid p = (if a_parent p = pid then p\<lparr>a_parent := Some 0\<rparr> else p)"

definition a_orphan :: "usize option \<Rightarrow> aproc list \<Rightarrow> aproc list" where
  "a_orphan pid t = (if list_ex (\<lambda>p. a_parent p = pid) t
     then map (a_wake (Some 0) \<circ> a_adopt pid) t else t)"

text \<open>What an exit does to the table, before the process itself becomes a zombie.\<close>

definition a_leave :: "nat \<Rightarrow> aproc list \<Rightarrow> aproc list" where
  "a_leave i t = (let t1 = a_orphan (a_pid (t ! i)) t in map (a_wake (a_parent (t1 ! i))) t1)"

datatype alabel = A_dispatch nat | A_yield | A_fork nat | A_exit u32 | A_reap nat | A_sleep usize | A_resume

text \<open>
  \<open>A_resume\<close> is the return of a waiting process to its loop. The steps of the running
  process carry no index: it is \<open>a_run\<close>.
\<close>

inductive astep :: "alabel \<Rightarrow> asys \<Rightarrow> asys \<Rightarrow> bool" where
  dispatch: "a_run A = None \<Longrightarrow> a_choice (a_tab A) i \<Longrightarrow> a_quants (a_tab A ! i) \<noteq> 0xffffffff \<Longrightarrow>
    astep (A_dispatch i) A
      ((a_upd i (\<lambda>p. p\<lparr>a_state := Running, a_quants := a_quants p + 1\<rparr>) A)\<lparr>a_run := Some i\<rparr>)"
| yield: "a_run A = Some i \<Longrightarrow>
    astep A_yield A ((a_upd i (\<lambda>p. p\<lparr>a_state := Runnable, a_cont := In_yeld_user\<rparr>) A)\<lparr>a_run := None\<rparr>)"
| fork: "a_run A = Some i \<Longrightarrow> c < length (a_tab A) \<Longrightarrow> a_state (a_tab A ! c) = Unused \<Longrightarrow>
    a_next A \<noteq> 0xffffffff \<Longrightarrow>
    astep (A_fork c) A ((a_upd c (\<lambda>p. p\<lparr>a_state := Runnable, a_pid := Some (a_next A),
      a_parent := a_pid (a_tab A ! i), a_cont := In_forkret\<rparr>) A)\<lparr>a_next := a_next A + 1\<rparr>)"
| exit: "a_run A = Some i \<Longrightarrow> a_pid (a_tab A ! i) \<noteq> Some 0 \<Longrightarrow>
    astep (A_exit x) A ((a_upd i (\<lambda>p. p\<lparr>a_state := Zombie, a_xstatus := x, a_cont := In_kexit\<rparr>)
      (A\<lparr>a_tab := a_leave i (a_tab A)\<rparr>))\<lparr>a_run := None\<rparr>)"
| reap: "a_run A = Some i \<Longrightarrow> j < length (a_tab A) \<Longrightarrow> a_parent (a_tab A ! j) = a_pid (a_tab A ! i) \<Longrightarrow>
    a_state (a_tab A ! j) = Zombie \<Longrightarrow>
    astep (A_reap j) A (a_upd j (\<lambda>p. p\<lparr>a_state := Unused, a_pid := None, a_parent := None,
      a_chan := None, a_xstatus := 0\<rparr>) A)"
| sleep: "a_run A = Some i \<Longrightarrow>
    (\<exists>k < length (a_tab A). a_parent (a_tab A ! k) = a_pid (a_tab A ! i)) \<Longrightarrow>
    (\<forall>k < length (a_tab A). a_parent (a_tab A ! k) = a_pid (a_tab A ! i) \<longrightarrow> a_state (a_tab A ! k) \<noteq> Zombie) \<Longrightarrow>
    astep (A_sleep a) A ((a_upd i (\<lambda>p. p\<lparr>a_state := Sleeping, a_chan := a_pid p,
      a_cont := In_kwait a\<rparr>) A)\<lparr>a_run := None\<rparr>)"
| resume: "a_run A = Some i \<Longrightarrow> astep A_resume A (a_upd i (\<lambda>p. p\<lparr>a_chan := None\<rparr>) A)"

text \<open>Sequences of steps, with their labels.\<close>

inductive asteps :: "alabel list \<Rightarrow> asys \<Rightarrow> asys \<Rightarrow> bool" where
  nil: "asteps [] A A"
| cons: "astep l A B \<Longrightarrow> asteps ls B C \<Longrightarrow> asteps (l # ls) A C"

inductive_simps asteps_Nil [simp]: "asteps [] A B"
inductive_simps asteps_Cons: "asteps (l # ls) A B"

lemma asteps_append: "asteps ls A B \<Longrightarrow> asteps ms B C \<Longrightarrow> asteps (ls @ ms) A C"
  by (induction rule: asteps.induct) (auto intro: asteps.intros)

lemma asteps_one: "astep l A B \<Longrightarrow> asteps [l] A B"
  by (auto intro: asteps.intros)

lemma add_chk_one_cases: "add_chk q 1 = (if q = 0xffffffff then Inl Overflow else Inr (q + 1))"
proof (cases "q = 0xffffffff")
  case False
  moreover have "(- 1 :: usize) = 0xffffffff" by simp
  ultimately have "q < 0xffffffff" using word_order.not_eq_extremum [of q] by metis
  then show ?thesis using False by (simp add: add_chk_one)
qed (simp add: add_chk_def)

section \<open>The invariant\<close>

definition alive :: "aproc \<Rightarrow> bool" where
  "alive p \<longleftrightarrow> a_state p = Runnable \<or> a_state p = Running \<or> a_state p = Sleeping"

text \<open>At most one process is running: the one that has the processor.\<close>

definition run_ok :: "asys \<Rightarrow> bool" where
  "run_ok A \<longleftrightarrow> (case a_run A of None \<Rightarrow> True | Some i \<Rightarrow> i < length (a_tab A)) \<and>
     (\<forall>j < length (a_tab A). a_state (a_tab A ! j) = Running \<longleftrightarrow> a_run A = Some j)"

text \<open>Slots are unused or hold a process with a pid of its own, given out before.\<close>

definition pid_ok :: "asys \<Rightarrow> bool" where
  "pid_ok A \<longleftrightarrow> (\<forall>j < length (a_tab A). let p = a_tab A ! j in
       a_state p \<noteq> Used \<and> a_state p \<noteq> Delete \<and>
       (a_state p = Unused \<longleftrightarrow> a_pid p = None) \<and> (a_pid p = None \<longrightarrow> a_parent p = None) \<and>
       (\<forall>q. a_pid p = Some q \<longrightarrow> q < a_next A)) \<and>
     (\<forall>i < length (a_tab A). \<forall>j < length (a_tab A).
       a_pid (a_tab A ! i) = a_pid (a_tab A ! j) \<longrightarrow> a_pid (a_tab A ! i) \<noteq> None \<longrightarrow> i = j)"

text \<open>Every parent is a live process that is older than the child, and the first process lives.\<close>

definition parent_ok :: "asys \<Rightarrow> bool" where
  "parent_ok A \<longleftrightarrow> (\<exists>k < length (a_tab A). a_pid (a_tab A ! k) = Some 0 \<and> alive (a_tab A ! k)) \<and>
     (\<forall>j < length (a_tab A). \<forall>q. a_parent (a_tab A ! j) = Some q \<longrightarrow>
       (\<exists>r. a_pid (a_tab A ! j) = Some r \<and> q < r) \<and>
       (\<exists>k < length (a_tab A). a_pid (a_tab A ! k) = Some q \<and> alive (a_tab A ! k)))"

text \<open>A sleeping process waits for a child, and none of its children is a zombie.\<close>

definition sleep_ok :: "asys \<Rightarrow> bool" where
  "sleep_ok A \<longleftrightarrow> (\<forall>j < length (a_tab A). a_state (a_tab A ! j) = Sleeping \<longrightarrow>
     a_chan (a_tab A ! j) = a_pid (a_tab A ! j) \<and>
     (\<exists>k < length (a_tab A). a_parent (a_tab A ! k) = a_pid (a_tab A ! j)) \<and>
     (\<forall>k < length (a_tab A). a_parent (a_tab A ! k) = a_pid (a_tab A ! j) \<longrightarrow>
       a_state (a_tab A ! k) \<noteq> Zombie))"

text \<open>Where a process that can be dispatched or woken continues.\<close>

definition cont_fits :: "aproc \<Rightarrow> bool" where
  "cont_fits p \<longleftrightarrow> (case a_cont p of In_forkret \<Rightarrow> a_state p = Runnable
     | In_yeld_user \<Rightarrow> a_state p = Runnable | In_kwait _ \<Rightarrow> True | _ \<Rightarrow> False)"

definition cont_ok :: "asys \<Rightarrow> bool" where
  "cont_ok A \<longleftrightarrow> (\<forall>j < length (a_tab A). a_state (a_tab A ! j) = Runnable \<or>
     a_state (a_tab A ! j) = Sleeping \<longrightarrow> cont_fits (a_tab A ! j))"

definition ainv :: "asys \<Rightarrow> bool" where
  "ainv A \<longleftrightarrow> run_ok A \<and> pid_ok A \<and> parent_ok A \<and> sleep_ok A \<and> cont_ok A"

text \<open>The state after start-up: one process, runnable.\<close>

definition astart :: "asys \<Rightarrow> bool" where
  "astart A \<longleftrightarrow> a_run A = None \<and> a_next A = 1 \<and> (\<exists>p ps. a_tab A = p # ps \<and>
     a_state p = Runnable \<and> a_pid p = Some 0 \<and> a_parent p = None \<and> a_cont p = In_forkret \<and>
     (\<forall>u \<in> set ps. a_state u = Unused \<and> a_pid u = None \<and> a_parent u = None))"

lemma astart_ainv:
  assumes "astart A"
  shows "ainv A"
proof -
  obtain p ps where p: "a_run A = None" "a_next A = 1" "a_tab A = p # ps" "a_state p = Runnable"
    "a_pid p = Some 0" "a_parent p = None" "a_cont p = In_forkret"
    and u: "\<And>j. j < length ps \<Longrightarrow> a_state (ps ! j) = Unused \<and> a_pid (ps ! j) = None \<and> a_parent (ps ! j) = None"
    using assms by (auto simp: astart_def)
  have "run_ok A" "pid_ok A" using p u by (auto simp: run_ok_def pid_ok_def nth_Cons split: nat.splits)
  moreover have "parent_ok A" "sleep_ok A" "cont_ok A"
    using p u
    by (auto simp: parent_ok_def sleep_ok_def cont_ok_def cont_fits_def alive_def nth_Cons split: nat.splits)
  ultimately show ?thesis by (simp add: ainv_def)
qed

lemma a_upd_simps [simp]:
  "a_tab (a_upd i f A) = (a_tab A)[i := f (a_tab A ! i)]" "a_next (a_upd i f A) = a_next A"
  "a_run (a_upd i f A) = a_run A"
  by (simp_all add: a_upd_def)

section \<open>Exits\<close>

text \<open>One slot of the table after the first part of an exit.\<close>

lemma a_wake_simps [simp]:
  "a_pid (a_wake c p) = a_pid p" "a_parent (a_wake c p) = a_parent p" "a_chan (a_wake c p) = a_chan p"
  "a_cont (a_wake c p) = a_cont p" "a_quants (a_wake c p) = a_quants p"
  "a_state (a_wake c p) = (if a_state p = Sleeping \<and> a_chan p = c then Runnable else a_state p)"
  by (simp_all add: a_wake_def)

lemma a_adopt_simps [simp]:
  "a_pid (a_adopt c p) = a_pid p" "a_state (a_adopt c p) = a_state p" "a_chan (a_adopt c p) = a_chan p"
  "a_cont (a_adopt c p) = a_cont p" "a_quants (a_adopt c p) = a_quants p"
  "a_parent (a_adopt c p) = (if a_parent p = c then Some 0 else a_parent p)"
  by (simp_all add: a_adopt_def)

lemma length_a_orphan [simp]: "length (a_orphan c t) = length t"
  by (simp add: a_orphan_def)

lemma length_a_leave [simp]: "length (a_leave i t) = length t"
  by (simp add: a_leave_def Let_def)

lemma a_orphan_nth:
  assumes "j < length t"
  shows "a_pid (a_orphan c t ! j) = a_pid (t ! j)" "a_chan (a_orphan c t ! j) = a_chan (t ! j)"
    "a_cont (a_orphan c t ! j) = a_cont (t ! j)" "a_quants (a_orphan c t ! j) = a_quants (t ! j)"
    "a_parent (a_orphan c t ! j) = (if a_parent (t ! j) = c then Some 0 else a_parent (t ! j))"
    "a_state (a_orphan c t ! j) = (if a_state (t ! j) = Sleeping \<and> a_chan (t ! j) = Some 0 \<and>
       (\<exists>k < length t. a_parent (t ! k) = c) then Runnable else a_state (t ! j))"
  using assms by (auto simp: a_orphan_def list_ex_length)

lemma a_leave_nth:
  assumes "j < length t" "i < length t" "a_parent (t ! i) \<noteq> a_pid (t ! i)"
  shows "a_pid (a_leave i t ! j) = a_pid (t ! j)" "a_chan (a_leave i t ! j) = a_chan (t ! j)"
    "a_cont (a_leave i t ! j) = a_cont (t ! j)" "a_quants (a_leave i t ! j) = a_quants (t ! j)"
    "a_parent (a_leave i t ! j) = (if a_parent (t ! j) = a_pid (t ! i) then Some 0 else a_parent (t ! j))"
    "a_state (a_leave i t ! j) = (if a_state (t ! j) = Sleeping \<and> (a_chan (t ! j) = a_parent (t ! i) \<or>
       a_chan (t ! j) = Some 0 \<and> (\<exists>k < length t. a_parent (t ! k) = a_pid (t ! i)))
       then Runnable else a_state (t ! j))"
  using assms by (auto simp: a_leave_def Let_def a_orphan_nth)

lemma ainvD:
  assumes "ainv A" "j < length (a_tab A)"
  shows "a_state (a_tab A ! j) = Unused \<longleftrightarrow> a_pid (a_tab A ! j) = None"
    "a_state (a_tab A ! j) \<noteq> Used" "a_state (a_tab A ! j) \<noteq> Delete"
    "a_pid (a_tab A ! j) = None \<Longrightarrow> a_parent (a_tab A ! j) = None"
    "a_pid (a_tab A ! j) = Some q \<Longrightarrow> q < a_next A"
    "a_parent (a_tab A ! j) = Some q \<Longrightarrow> \<exists>r. a_pid (a_tab A ! j) = Some r \<and> q < r"
    "a_state (a_tab A ! j) = Running \<longleftrightarrow> a_run A = Some j"
  using assms unfolding ainv_def pid_ok_def parent_ok_def run_ok_def Let_def by blast+

lemma ainv_pid_inj:
  assumes "ainv A" "i < length (a_tab A)" "j < length (a_tab A)"
    "a_pid (a_tab A ! i) = Some q" "a_pid (a_tab A ! j) = Some q"
  shows "i = j"
  using assms unfolding ainv_def pid_ok_def by simp

lemma ainv_run:
  assumes "ainv A" "a_run A = Some i"
  shows "i < length (a_tab A)" "a_state (a_tab A ! i) = Running" "\<exists>q. a_pid (a_tab A ! i) = Some q"
    "a_parent (a_tab A ! i) \<noteq> a_pid (a_tab A ! i)"
proof -
  show i: "i < length (a_tab A)" using assms by (simp add: ainv_def run_ok_def)
  show r: "a_state (a_tab A ! i) = Running" using ainvD(7) [OF assms(1) i] assms(2) by simp
  then show q: "\<exists>q. a_pid (a_tab A ! i) = Some q" using ainvD(1) [OF assms(1) i] by auto
  then show "a_parent (a_tab A ! i) \<noteq> a_pid (a_tab A ! i)"
    using ainvD(6) [OF assms(1) i] by fastforce
qed

section \<open>Every step keeps the invariant\<close>

definition exited :: "u32 \<Rightarrow> nat \<Rightarrow> asys \<Rightarrow> asys" where
  "exited x i A = (a_upd i (\<lambda>p. p\<lparr>a_state := Zombie, a_xstatus := x, a_cont := In_kexit\<rparr>)
      (A\<lparr>a_tab := a_leave i (a_tab A)\<rparr>))\<lparr>a_run := None\<rparr>"

lemma exited_simps [simp]:
  "length (a_tab (exited x i A)) = length (a_tab A)" "a_next (exited x i A) = a_next A"
  "a_run (exited x i A) = None"
  by (simp_all add: exited_def)

lemma exited_nth:
  assumes "ainv A" "a_run A = Some i" "j < length (a_tab A)"
  shows "a_pid (a_tab (exited x i A) ! j) = a_pid (a_tab A ! j)"
    "a_chan (a_tab (exited x i A) ! j) = a_chan (a_tab A ! j)"
    "a_parent (a_tab (exited x i A) ! j) =
       (if a_parent (a_tab A ! j) = a_pid (a_tab A ! i) then Some 0 else a_parent (a_tab A ! j))"
    "a_cont (a_tab (exited x i A) ! j) = (if j = i then In_kexit else a_cont (a_tab A ! j))"
    "a_state (a_tab (exited x i A) ! j) = (if j = i then Zombie
       else if a_state (a_tab A ! j) = Sleeping \<and> (a_chan (a_tab A ! j) = a_parent (a_tab A ! i) \<or>
         a_chan (a_tab A ! j) = Some 0 \<and> (\<exists>k < length (a_tab A). a_parent (a_tab A ! k) = a_pid (a_tab A ! i)))
       then Runnable else a_state (a_tab A ! j))"
  using a_leave_nth [OF assms(3) ainv_run(1,4) [OF assms(1,2)]] ainv_run(1) [OF assms(1,2)] assms(3)
  by (cases "j = i", simp_all add: exited_def nth_list_update)+

lemma exited_pid_ok:
  assumes "ainv A" "a_run A = Some i"
  shows "pid_ok (exited x i A)"
proof -
  have pid: "\<exists>q. a_pid (a_tab A ! i) = Some q" by (rule ainv_run [OF assms])
  have asleep: "\<exists>q. a_pid (a_tab A ! j) = Some q" if "j < length (a_tab A)" "a_state (a_tab A ! j) = Sleeping" for j
    using ainvD(1) [OF assms(1) that(1)] that(2) by auto
  show ?thesis
    using assms(1) pid asleep unfolding pid_ok_def Let_def
    by (auto simp: exited_nth [OF assms] ainvD ainv_pid_inj [OF assms(1)] split: if_splits)
qed

lemma exited_alive:
  assumes "ainv A" "a_run A = Some i" "k < length (a_tab A)" "k \<noteq> i"
  shows "alive (a_tab (exited x i A) ! k) = alive (a_tab A ! k)"
  using assms by (auto simp: alive_def exited_nth)

lemma exited_parent_ok:
  assumes inv: "ainv A" and run: "a_run A = Some i" and "a_pid (a_tab A ! i) \<noteq> Some 0"
  shows "parent_ok (exited x i A)"
proof -
  let ?B = "exited x i A"
  have "parent_ok A" using inv by (simp add: ainv_def)
  then obtain z where z: "z < length (a_tab A)" "a_pid (a_tab A ! z) = Some 0" "alive (a_tab A ! z)"
    by (auto simp: parent_ok_def)
  with assms(3) have "z \<noteq> i" by auto
  with z have init: "\<exists>k < length (a_tab ?B). a_pid (a_tab ?B ! k) = Some 0 \<and> alive (a_tab ?B ! k)"
    using exited_nth(1) [OF inv run] exited_alive [OF inv run] by auto
  have old: "\<exists>r. a_pid (a_tab A ! j) = Some r \<and> q < r"
    "\<exists>k < length (a_tab A). a_pid (a_tab A ! k) = Some q \<and> alive (a_tab A ! k)"
    if "j < length (a_tab A)" "a_parent (a_tab A ! j) = Some q" for j q
    using \<open>parent_ok A\<close> that by (auto simp: parent_ok_def)
  have "(\<exists>r. a_pid (a_tab ?B ! j) = Some r \<and> q < r) \<and>
      (\<exists>k < length (a_tab ?B). a_pid (a_tab ?B ! k) = Some q \<and> alive (a_tab ?B ! k))"
    if j: "j < length (a_tab A)" "a_parent (a_tab ?B ! j) = Some q" for j q
  proof (cases "a_parent (a_tab A ! j) = a_pid (a_tab A ! i)")
    case True
    then have "q = 0" using j exited_nth(3) [OF inv run j(1)] by simp
    obtain p where "a_parent (a_tab A ! j) = Some p" using True ainv_run(3) [OF inv run] by auto
    then obtain r where "a_pid (a_tab A ! j) = Some r" "p < r" using old j(1) by blast
    then have "0 < r" by (metis word_gt_0 word_not_simps(1))
    with \<open>a_pid (a_tab A ! j) = Some r\<close> \<open>q = 0\<close> init show ?thesis
      by (simp add: exited_nth(1) [OF inv run j(1)])
  next
    case False
    then have p: "a_parent (a_tab A ! j) = Some q" using j exited_nth(3) [OF inv run j(1)] by simp
    then obtain k where k: "k < length (a_tab A)" "a_pid (a_tab A ! k) = Some q" "alive (a_tab A ! k)"
      using old j(1) by blast
    then have "k \<noteq> i" using False p by auto
    with k show ?thesis
      using old(1) [OF j(1) p] exited_nth(1) [OF inv run] exited_alive [OF inv run] j(1) by auto
  qed
  with init show ?thesis by (simp add: parent_ok_def)
qed

lemma exited_sleep_ok:
  assumes inv: "ainv A" and run: "a_run A = Some i"
  shows "sleep_ok (exited x i A)"
proof -
  let ?B = "exited x i A"
  obtain q where q: "a_pid (a_tab A ! i) = Some q" using ainv_run(3) [OF inv run] by blast
  have "a_chan (a_tab A ! j) = a_pid (a_tab A ! j) \<and>
      (\<exists>k < length (a_tab A). a_parent (a_tab ?B ! k) = a_pid (a_tab A ! j)) \<and>
      (\<forall>k < length (a_tab A). a_parent (a_tab ?B ! k) = a_pid (a_tab A ! j) \<longrightarrow> a_state (a_tab ?B ! k) \<noteq> Zombie)"
    if j: "j < length (a_tab A)" "a_state (a_tab ?B ! j) = Sleeping" for j
  proof -
    have s: "j \<noteq> i" "a_state (a_tab A ! j) = Sleeping" "a_chan (a_tab A ! j) \<noteq> a_parent (a_tab A ! i)"
      "a_chan (a_tab A ! j) = Some 0 \<longrightarrow> (\<forall>k < length (a_tab A). a_parent (a_tab A ! k) \<noteq> a_pid (a_tab A ! i))"
      using j(2) by (auto simp: exited_nth [OF inv run j(1)] split: if_splits)
    have old: "a_chan (a_tab A ! j) = a_pid (a_tab A ! j)"
      "\<exists>k < length (a_tab A). a_parent (a_tab A ! k) = a_pid (a_tab A ! j)"
      "\<forall>k < length (a_tab A). a_parent (a_tab A ! k) = a_pid (a_tab A ! j) \<longrightarrow> a_state (a_tab A ! k) \<noteq> Zombie"
      using inv j(1) s(2) by (auto simp: ainv_def sleep_ok_def)
    have ne: "a_pid (a_tab A ! j) \<noteq> a_pid (a_tab A ! i)"
      using ainv_pid_inj [OF inv j(1) ainv_run(1) [OF inv run]] q s(1) by auto
    have "a_state (a_tab ?B ! k) \<noteq> Zombie"
      if k: "k < length (a_tab A)" "a_parent (a_tab ?B ! k) = a_pid (a_tab A ! j)" for k
      using k s old by (auto simp: exited_nth [OF inv run k(1)] split: if_splits)
    moreover have "\<exists>k < length (a_tab A). a_parent (a_tab ?B ! k) = a_pid (a_tab A ! j)"
      using old(2) ne by (metis exited_nth(3) [OF inv run])
    ultimately show ?thesis using old(1) by blast
  qed
  then show ?thesis by (simp add: sleep_ok_def exited_nth(1,2) [OF inv run])
qed

lemma exited_ainv:
  assumes "ainv A" "a_run A = Some i" "a_pid (a_tab A ! i) \<noteq> Some 0"
  shows "ainv (exited x i A)"
proof -
  have "run_ok (exited x i A)"
    using ainvD(7) [OF assms(1)] assms(2) by (auto simp: run_ok_def exited_nth [OF assms(1,2)])
  moreover have "cont_ok A" using assms(1) by (simp add: ainv_def)
  then have "cont_ok (exited x i A)"
    by (auto simp: cont_ok_def cont_fits_def exited_nth [OF assms(1,2)] split: kcont.splits if_splits)
  ultimately show ?thesis
    using exited_pid_ok exited_parent_ok exited_sleep_ok assms by (simp add: ainv_def)
qed
text \<open>A step in which one live process changes its state and stays alive.\<close>

lemma live_step_ainv:
  assumes inv: "ainv A" and i: "i < length (a_tab A)" "alive (a_tab A ! i)"
    and B: "a_tab B = (a_tab A)[i := p]" "a_next B = a_next A"
    and p: "alive p" "a_pid p = a_pid (a_tab A ! i)" "a_parent p = a_parent (a_tab A ! i)"
    and run: "a_run A = None \<or> a_run A = Some i" "a_run B = (if a_state p = Running then Some i else None)"
    and cont: "a_state p \<noteq> Running \<longrightarrow> cont_fits p"
    and asleep: "a_state p = Sleeping \<longrightarrow> a_chan p = a_pid p \<and>
      (\<exists>k < length (a_tab A). a_parent (a_tab A ! k) = a_pid p) \<and>
      (\<forall>k < length (a_tab A). a_parent (a_tab A ! k) = a_pid p \<longrightarrow> a_state (a_tab A ! k) \<noteq> Zombie)"
  shows "ainv B"
proof -
  have len: "length (a_tab B) = length (a_tab A)" using B by simp
  have nth: "a_tab B ! j = (if j = i then p else a_tab A ! j)" if "j < length (a_tab A)" for j
    using B i(1) that by (simp add: nth_list_update)
  have same: "a_pid (a_tab B ! j) = a_pid (a_tab A ! j)" "a_parent (a_tab B ! j) = a_parent (a_tab A ! j)"
    "alive (a_tab B ! j) = alive (a_tab A ! j)" "a_state (a_tab B ! j) = Zombie \<longleftrightarrow> a_state (a_tab A ! j) = Zombie"
    "a_state (a_tab B ! j) = Used \<longleftrightarrow> a_state (a_tab A ! j) = Used"
    "a_state (a_tab B ! j) = Delete \<longleftrightarrow> a_state (a_tab A ! j) = Delete"
    "a_state (a_tab B ! j) = Unused \<longleftrightarrow> a_state (a_tab A ! j) = Unused"
    if "j < length (a_tab A)" for j
    using nth [OF that] p i(2) by (auto simp: alive_def)
  have ok: "run_ok A" "pid_ok A" "parent_ok A" "sleep_ok A" "cont_ok A" using inv by (auto simp: ainv_def)
  have "run_ok B" using ok(1) run i by (auto simp: run_ok_def len nth)
  moreover have "pid_ok B" using ok(2) B(2) unfolding pid_ok_def Let_def by (simp add: len same)
  moreover have "parent_ok B" using ok(3) unfolding parent_ok_def by (simp add: len same cong: conj_cong)
  moreover have "sleep_ok B"
    unfolding sleep_ok_def len
  proof (intro allI impI)
    fix j assume j: "j < length (a_tab A)" "a_state (a_tab B ! j) = Sleeping"
    have "a_chan (a_tab B ! j) = a_pid (a_tab B ! j) \<and>
      (\<exists>k < length (a_tab A). a_parent (a_tab A ! k) = a_pid (a_tab B ! j)) \<and>
      (\<forall>k < length (a_tab A). a_parent (a_tab A ! k) = a_pid (a_tab B ! j) \<longrightarrow> a_state (a_tab A ! k) \<noteq> Zombie)"
    proof (cases "j = i")
      case True
      then show ?thesis using asleep j nth [OF j(1)] by simp
    next
      case False
      then show ?thesis using ok(4) j nth [OF j(1)] by (simp add: sleep_ok_def)
    qed
    then show "a_chan (a_tab B ! j) = a_pid (a_tab B ! j) \<and>
      (\<exists>k < length (a_tab A). a_parent (a_tab B ! k) = a_pid (a_tab B ! j)) \<and>
      (\<forall>k < length (a_tab A). a_parent (a_tab B ! k) = a_pid (a_tab B ! j) \<longrightarrow> a_state (a_tab B ! k) \<noteq> Zombie)"
      using same(2,4) by (simp cong: conj_cong)
  qed
  moreover have "cont_ok B" using ok(5) cont p by (auto simp: cont_ok_def len nth)
  ultimately show ?thesis by (simp add: ainv_def)
qed
text \<open>A step in which a slot that is not alive changes its owner.\<close>

lemma slot_step_ainv:
  assumes inv: "ainv A" and c: "c < length (a_tab A)" "\<not> alive (a_tab A ! c)"
    and B: "a_tab B = (a_tab A)[c := p]" "a_run B = a_run A" "a_next A \<le> a_next B"
    and p: "a_state p = Runnable \<or> a_state p = Unused" "a_pid p = None \<longleftrightarrow> a_state p = Unused"
    and cont: "a_state p = Runnable \<longrightarrow> a_cont p = In_forkret"
    and pid: "\<forall>q. a_pid p = Some q \<longrightarrow> a_next A \<le> q \<and> q < a_next B"
    and parent: "\<forall>q. a_parent p = Some q \<longrightarrow> (\<exists>r. a_pid p = Some r \<and> q < r) \<and>
      (\<exists>k < length (a_tab A). a_pid (a_tab A ! k) = Some q \<and> alive (a_tab A ! k))"
    and waited: "\<forall>k < length (a_tab A). a_state (a_tab A ! k) = Sleeping \<longrightarrow>
      a_parent (a_tab A ! c) \<noteq> a_pid (a_tab A ! k)"
  shows "ainv B"
proof -
  have len: "length (a_tab B) = length (a_tab A)" using B by simp
  have nth: "a_tab B ! j = (if j = c then p else a_tab A ! j)" if "j < length (a_tab A)" for j
    using B c(1) that by (simp add: nth_list_update)
  have ok: "run_ok A" "pid_ok A" "parent_ok A" "sleep_ok A" "cont_ok A" using inv by (auto simp: ainv_def)
  have "run_ok B" using ok(1) c B(2) p(1) by (auto simp: run_ok_def len nth alive_def split: option.splits)
  moreover have "pid_ok B"
  proof -
    have lt: "a_pid (a_tab A ! j) = Some q \<Longrightarrow> q < a_next A" if "j < length (a_tab A)" for j q
      using ainvD(5) [OF inv that] .
    have "a_pid (a_tab A ! j) \<noteq> a_pid p" if "j < length (a_tab A)" "a_pid p \<noteq> None" for j
      using lt [OF that(1)] that(2) pid by (metis not_less not_None_eq)
    moreover have "q < a_next B" if "j < length (a_tab A)" "a_pid (a_tab A ! j) = Some q" for j q
      using lt [OF that] B(3) by (rule order_less_le_trans)
    moreover have "a_parent p = None" if "a_pid p = None"
      using parent that by (cases "a_parent p") auto
    ultimately show ?thesis
      using ok(2) p pid unfolding pid_ok_def Let_def len by (auto simp: nth)
  qed
  moreover have "parent_ok B"
  proof -
    have live: "\<exists>k < length (a_tab A). a_pid (a_tab B ! k) = Some q \<and> alive (a_tab B ! k)"
      if "\<exists>k < length (a_tab A). a_pid (a_tab A ! k) = Some q \<and> alive (a_tab A ! k)" for q
      using that c(2) nth by metis
    then show ?thesis using ok(3) parent unfolding parent_ok_def len by (auto simp: nth)
  qed
  moreover have "sleep_ok B"
  proof -
    have "\<exists>k < length (a_tab A). a_parent (a_tab B ! k) = a_pid (a_tab A ! j)"
      if "j < length (a_tab A)" "a_state (a_tab A ! j) = Sleeping" for j
      using ok(4) waited that nth unfolding sleep_ok_def by metis
    then show ?thesis using ok(4) p(1) unfolding sleep_ok_def len by (auto simp: nth)
  qed
  moreover have "cont_ok B" using ok(5) p(1) cont by (auto simp: cont_ok_def cont_fits_def len nth)
  ultimately show ?thesis by (simp add: ainv_def)
qed

lemma ainv_asleep:
  assumes "ainv A" "k < length (a_tab A)" "a_state (a_tab A ! k) = Sleeping"
  shows "a_pid (a_tab A ! k) \<noteq> None"
  using ainvD(1) [OF assms(1,2)] assms(3) by auto

lemma fork_ainv:
  assumes inv: "ainv A" and run: "a_run A = Some i"
    and c: "c < length (a_tab A)" "a_state (a_tab A ! c) = Unused" and "a_next A \<noteq> 0xffffffff"
  shows "ainv ((a_upd c (\<lambda>p. p\<lparr>a_state := Runnable, a_pid := Some (a_next A),
      a_parent := a_pid (a_tab A ! i), a_cont := In_forkret\<rparr>) A)\<lparr>a_next := a_next A + 1\<rparr>)" (is "ainv ?B")
proof -
  have lt: "a_next A < a_next A + 1"
    using add_chk_one_cases [of "a_next A"] assms(5) by (auto dest: add_chk_unat simp: word_less_nat_alt)
  obtain q where q: "a_pid (a_tab A ! i) = Some q" using ainv_run(3) [OF inv run] by blast
  have i: "i < length (a_tab A)" "alive (a_tab A ! i)" using ainv_run [OF inv run] by (auto simp: alive_def)
  have "q < a_next A" using ainvD(5) [OF inv i(1) q] .
  have "a_pid (a_tab A ! c) = None" using ainvD(1) [OF inv c(1)] c(2) by simp
  then have pc: "a_parent (a_tab A ! c) = None" by (rule ainvD(4) [OF inv c(1)])
  show ?thesis
  proof (rule slot_step_ainv [OF inv c(1)])
    show "\<forall>k < length (a_tab A). a_state (a_tab A ! k) = Sleeping \<longrightarrow> a_parent (a_tab A ! c) \<noteq> a_pid (a_tab A ! k)"
      using ainv_asleep [OF inv] pc by metis
    show "a_next A \<le> a_next ?B" using lt by simp
  qed (use c lt q i \<open>q < a_next A\<close> in \<open>auto simp: alive_def\<close>)
qed

lemma reap_ainv:
  assumes inv: "ainv A" and run: "a_run A = Some i"
    and j: "j < length (a_tab A)" "a_parent (a_tab A ! j) = a_pid (a_tab A ! i)" "a_state (a_tab A ! j) = Zombie"
  shows "ainv (a_upd j (\<lambda>p. p\<lparr>a_state := Unused, a_pid := None, a_parent := None,
      a_chan := None, a_xstatus := 0\<rparr>) A)"
proof (rule slot_step_ainv [OF inv j(1)])
  show "\<forall>k < length (a_tab A). a_state (a_tab A ! k) = Sleeping \<longrightarrow> a_parent (a_tab A ! j) \<noteq> a_pid (a_tab A ! k)"
  proof (intro allI impI notI)
    fix k assume k: "k < length (a_tab A)" "a_state (a_tab A ! k) = Sleeping" "a_parent (a_tab A ! j) = a_pid (a_tab A ! k)"
    obtain q where "a_pid (a_tab A ! i) = Some q" using ainv_run(3) [OF inv run] by blast
    then have "i = k" using ainv_pid_inj [OF inv ainv_run(1) [OF inv run] k(1)] k(3) j(2) by simp
    then show False using k(2) ainv_run(2) [OF inv run] by simp
  qed
qed (use j in \<open>auto simp: alive_def\<close>)

lemma run_step_ainv:
  assumes inv: "ainv A" and run: "a_run A = Some i"
    and B: "a_tab B = (a_tab A)[i := p]" "a_next B = a_next A"
      "a_run B = (if a_state p = Running then Some i else None)"
    and p: "alive p" "a_pid p = a_pid (a_tab A ! i)" "a_parent p = a_parent (a_tab A ! i)"
      "a_state p \<noteq> Running \<longrightarrow> cont_fits p"
    and asleep: "a_state p = Sleeping \<longrightarrow> a_chan p = a_pid p \<and>
      (\<exists>k < length (a_tab A). a_parent (a_tab A ! k) = a_pid p) \<and>
      (\<forall>k < length (a_tab A). a_parent (a_tab A ! k) = a_pid p \<longrightarrow> a_state (a_tab A ! k) \<noteq> Zombie)"
  shows "ainv B"
proof -
  have "i < length (a_tab A)" "alive (a_tab A ! i)" using ainv_run [OF inv run] by (auto simp: alive_def)
  from live_step_ainv [OF inv this B(1,2) p(1-3) _ B(3) p(4) asleep] run show ?thesis by simp
qed

lemma astep_ainv: "astep l A B \<Longrightarrow> ainv A \<Longrightarrow> ainv B"
proof (induction rule: astep.induct)
  case (dispatch A i)
  show ?case
  proof (rule live_step_ainv [OF dispatch.prems, where i = i and p = "(a_tab A ! i)\<lparr>a_state := Running,
      a_quants := a_quants (a_tab A ! i) + 1\<rparr>"])
    show "a_run A = None \<or> a_run A = Some i" using dispatch.hyps(1) ..
  qed (use dispatch.hyps in \<open>simp_all add: a_choice_def a_runnable_def alive_def\<close>)
next
  case (yield A i)
  show ?case
    by (rule run_step_ainv [OF yield.prems yield.hyps, where p = "(a_tab A ! i)\<lparr>a_state := Runnable, a_cont := In_yeld_user\<rparr>"])
      (simp_all add: alive_def cont_fits_def)
next
  case (fork A i c)
  then show ?case by (intro fork_ainv)
next
  case (exit A i x)
  then show ?case using exited_ainv [of A i x] by (simp add: exited_def)
next
  case (reap A i j)
  then show ?case by (intro reap_ainv)
next
  case (sleep A i a)
  show ?case
    by (rule run_step_ainv [OF sleep.prems sleep.hyps(1), where p = "(a_tab A ! i)\<lparr>a_state := Sleeping, a_chan := a_pid (a_tab A ! i), a_cont := In_kwait a\<rparr>"])
      (use sleep.hyps in \<open>simp_all add: alive_def cont_fits_def\<close>)
next
  case (resume A i)
  show ?case
    by (rule run_step_ainv [OF resume.prems resume.hyps, where p = "(a_tab A ! i)\<lparr>a_chan := None\<rparr>"])
      (use ainv_run(2) [OF resume.prems resume.hyps] resume.hyps in \<open>simp_all add: alive_def\<close>)
qed
interpretation life: invariant_system astart "\<lambda>A B. \<exists>l. astep l A B" ainv
  by unfold_locales (auto intro: astart_ainv astep_ainv)

lemma asteps_ainv: "asteps ls A B \<Longrightarrow> ainv A \<Longrightarrow> ainv B"
  by (induction rule: asteps.induct) (auto intro: astep_ainv)

section \<open>The system never comes to rest\<close>

text \<open>
  A sleeping process has a younger child; the youngest live process is therefore not asleep, and
  there is one because the first process lives.
\<close>

lemma ainv_not_at_rest:
  assumes inv: "ainv A"
  shows "\<exists>j < length (a_tab A). a_state (a_tab A ! j) = Runnable \<or> a_state (a_tab A ! j) = Running"
proof -
  let ?L = "{j. j < length (a_tab A) \<and> alive (a_tab A ! j)}"
  let ?age = "\<lambda>j. unat (the (a_pid (a_tab A ! j)))"
  have L: "?L \<noteq> {}" "finite ?L" using inv by (auto simp: ainv_def parent_ok_def)
  then have "Max (?age ` ?L) \<in> ?age ` ?L" by (intro Max_in) auto
  then obtain m where m: "m < length (a_tab A)" "alive (a_tab A ! m)" "Max (?age ` ?L) = ?age m" by auto
  have max: "?age j \<le> ?age m" if "j < length (a_tab A)" "alive (a_tab A ! j)" for j
    unfolding m(3) [symmetric] using L(2) that by (intro Max_ge) auto
  have "a_state (a_tab A ! m) \<noteq> Sleeping"
  proof
    assume asleep: "a_state (a_tab A ! m) = Sleeping"
    obtain q where q: "a_pid (a_tab A ! m) = Some q"
      using ainv_asleep [OF inv m(1) asleep] by auto
    obtain k where k: "k < length (a_tab A)" "a_parent (a_tab A ! k) = Some q" "a_state (a_tab A ! k) \<noteq> Zombie"
      using inv m(1) asleep q by (auto simp: ainv_def sleep_ok_def)
    obtain r where r: "a_pid (a_tab A ! k) = Some r" "q < r" using ainvD(6) [OF inv k(1,2)] by blast
    have "alive (a_tab A ! k)"
      using ainvD(1,2,3) [OF inv k(1)] r(1) k(3) by (cases "a_state (a_tab A ! k)") (auto simp: alive_def)
    then show False using max [OF k(1)] q r by (simp add: word_less_nat_alt)
  qed
  with m show ?thesis by (auto simp: alive_def)
qed

section \<open>Bounded waiting\<close>

lemma nth_upd: "xs[i := x] ! j = (if i = j \<and> j < length xs then x else xs ! j)"
  by (cases "i < length xs") (auto simp: nth_list_update list_update_beyond)

text \<open>
  How often other processes can be dispatched before process \<open>i\<close> is: each of them until it has
  more quanta than \<open>i\<close>.
\<close>

definition a_turns :: "nat \<Rightarrow> aproc list \<Rightarrow> nat" where
  "a_turns i t = (\<Sum>j \<in> {..<length t} - {i}. Suc (unat (a_quants (t ! i))) - unat (a_quants (t ! j)))"

lemma astep_quants:
  assumes "astep l A B" "\<forall>j. l \<noteq> A_dispatch j" "j < length (a_tab A)"
  shows "a_quants (a_tab B ! j) = a_quants (a_tab A ! j)" "length (a_tab B) = length (a_tab A)"
proof -
  have leave: "a_quants (a_leave i t ! j) = a_quants (t ! j)" if "j < length t" for i t
    using that by (simp add: a_leave_def Let_def a_orphan_nth)
  show "a_quants (a_tab B ! j) = a_quants (a_tab A ! j)"
    using assms by (cases rule: astep.cases) (auto simp: nth_upd leave)
  show "length (a_tab B) = length (a_tab A)"
    using assms by (cases rule: astep.cases) auto
qed
lemma a_turns_dispatch:
  assumes "astep (A_dispatch j) A B" "a_runnable (a_tab A) i" "j \<noteq> i"
  shows "a_turns i (a_tab B) < a_turns i (a_tab A)"
proof -
  let ?t = "a_tab A" and ?u = "a_tab B"
  from assms(1) have j: "a_choice ?t j" "a_quants (?t ! j) \<noteq> 0xffffffff"
    and u: "?u = ?t[j := (?t ! j)\<lparr>a_state := Running, a_quants := a_quants (?t ! j) + 1\<rparr>]"
    by (auto elim: astep.cases)
  have lt: "j < length ?t" "i < length ?t" using j(1) assms(2) by (auto simp: a_choice_def a_runnable_def)
  have "a_quants (?t ! j) \<le> a_quants (?t ! i)" using j(1) assms(2) lt by (auto simp: a_choice_def)
  then have le: "unat (a_quants (?t ! j)) < Suc (unat (a_quants (?t ! i)))" by (simp add: word_le_nat_alt less_Suc_eq_le)
  have inc: "unat (a_quants (?t ! j) + 1) = Suc (unat (a_quants (?t ! j)))"
    using add_chk_one_cases [of "a_quants (?t ! j)"] j(2) by (auto dest: add_chk_unat)
  let ?g = "\<lambda>t k. Suc (unat (a_quants (t ! i))) - unat (a_quants (t ! k))"
  have "(\<Sum>k \<in> {..<length ?t} - {i}. ?g ?u k) < (\<Sum>k \<in> {..<length ?t} - {i}. ?g ?t k)"
  proof (rule sum_strict_mono_ex1)
    show "\<forall>k \<in> {..<length ?t} - {i}. ?g ?u k \<le> ?g ?t k" using assms(3) inc by (auto simp: u nth_upd)
    show "\<exists>k \<in> {..<length ?t} - {i}. ?g ?u k < ?g ?t k"
      using assms(3) lt inc le by (intro bexI [of _ j]) (auto simp: u nth_upd)
  qed simp
  then show ?thesis by (simp add: a_turns_def u)
qed

lemma a_turns_other:
  assumes "astep l A B" "\<forall>j. l \<noteq> A_dispatch j" "i < length (a_tab A)"
  shows "a_turns i (a_tab B) = a_turns i (a_tab A)"
  unfolding a_turns_def using astep_quants [OF assms(1,2)] assms(3) by (auto intro!: sum.cong)

text \<open>
  \<open>i\<close> is passed over on a path if it is runnable whenever another process is dispatched and is
  never dispatched itself.
\<close>

inductive passed_over :: "nat \<Rightarrow> alabel list \<Rightarrow> asys \<Rightarrow> asys \<Rightarrow> bool" for i where
  nil: "passed_over i [] A A"
| dispatch: "astep (A_dispatch j) A B \<Longrightarrow> j \<noteq> i \<Longrightarrow> a_runnable (a_tab A) i \<Longrightarrow> passed_over i ls B C \<Longrightarrow>
    passed_over i (A_dispatch j # ls) A C"
| other: "astep l A B \<Longrightarrow> \<forall>j. l \<noteq> A_dispatch j \<Longrightarrow> passed_over i ls B C \<Longrightarrow> passed_over i (l # ls) A C"

definition dispatches :: "alabel list \<Rightarrow> nat" where
  "dispatches ls = length (filter (\<lambda>l. case l of A_dispatch _ \<Rightarrow> True | _ \<Rightarrow> False) ls)"

lemma passed_over_bound:
  "passed_over i ls A B \<Longrightarrow> i < length (a_tab A) \<Longrightarrow> dispatches ls + a_turns i (a_tab B) \<le> a_turns i (a_tab A)"
proof (induction rule: passed_over.induct)
  case (dispatch j A B ls C)
  have "length (a_tab B) = length (a_tab A)" using dispatch.hyps(1) by (auto elim: astep.cases)
  then show ?case
    using dispatch a_turns_dispatch [OF dispatch.hyps(1,3,2)] by (simp add: dispatches_def)
next
  case (other l A B ls C)
  then show ?case
    using a_turns_other [OF other.hyps(1,2)] astep_quants(2) [OF other.hyps(1,2)]
    by (cases l) (auto simp: dispatches_def)
qed (simp add: dispatches_def)

end
