(* ===== verification/ProcSpec.thy ===== *)
theory ProcSpec
  imports MemFrame Trap ProcAbs
begin

text \<open>
  What the operations on the process table do: the lock of the kernel, of each process and of
  \<open>kexit\<close> are places in the sense of \<open>lock_cell\<close>; inside a critical section, taking and
  releasing a further lock leaves no trace, so that \<open>wakeup\<close>, \<open>reparent\<close> and the choice
  of the scheduler are pure functions of the table.
\<close>

section \<open>Interrupt levels\<close>

text \<open>The state after a pop.\<close>

definition popped :: "('h, 'z) machine_scheme \<Rightarrow> ('h, 'z) machine_scheme" where
  "popped s = s\<lparr>cpu := (cpu s)\<lparr>interrupt_off_stack := interrupt_off_stack (cpu s) - 1\<rparr>,
     csrs := (if interrupt_off_stack (cpu s) = 1 \<and> interrupt_prev_state (cpu s)
       then interrupt_on (csrs s) else csrs s)\<rparr>"

lemma pop_interrupt_off_eq:
  assumes "interrupt_off_stack (cpu s) \<noteq> 0"
  shows "pop_interrupt_off s = Inr (popped s)"
proof -
  have "\<not> interrupt_off_stack (cpu s) < 1" "1 \<le> interrupt_off_stack (cpu s)"
    using assms by (auto simp: word_le_nat_alt not_less intro: Suc_leI simp flip: unat_eq_zero)
  moreover have "interrupt_off_stack (cpu s) - 1 = 0 \<longleftrightarrow> interrupt_off_stack (cpu s) = 1"
    by simp
  ultimately show ?thesis
    by (simp add: pop_interrupt_off_def sub_chk_def popped_def Let_def)
qed

lemma popped_simps [simp]:
  "interrupt_off_stack (cpu (popped s)) = interrupt_off_stack (cpu s) - 1"
  "interrupt_prev_state (cpu (popped s)) = interrupt_prev_state (cpu s)"
  "mem (popped s) = mem s" "heap_st (popped s) = heap_st s" "heap_lock (popped s) = heap_lock s"
  "uart_out (popped s) = uart_out s" "stimecmp (popped s) = stimecmp s"
  "current (cpu (popped s)) = current (cpu s)" "cpu_context (cpu (popped s)) = cpu_context (cpu s)"
  "machine.more (popped s) = machine.more s"
  by (simp_all add: popped_def)

lemma popped_pushed: "int_ok s \<Longrightarrow> popped (pushed s) = refresh_prev s"
  using pop_pushed [of s] pop_interrupt_off_eq [of "pushed s"]
  by (cases "interrupt_off_stack (cpu s) + 1 = 0") (auto simp: int_ok_def pop_interrupt_off_def)

lemma refresh_prev_inner: "interrupt_off_stack (cpu s) \<noteq> 0 \<Longrightarrow> refresh_prev s = s"
  by (simp add: refresh_prev_def)

lemma pushed_prev: "interrupt_prev_state (cpu (pushed s)) =
    (if interrupt_off_stack (cpu s) = 0 then interrupt_read (csrs s) else interrupt_prev_state (cpu s))"
  by (simp add: pushed_def refresh_prev_def)

lemma interrupt_off_on [simp]: "interrupt_off (interrupt_on f) = interrupt_off f"
proof -
  have "(x OR SSTATUS_SIE) AND NOT SSTATUS_SIE = x AND NOT SSTATUS_SIE" for x
    by (rule bit_word_eqI) (auto simp: bit_simps)
  then show ?thesis by (simp add: interrupt_off_def interrupt_on_def)
qed

lemma interrupt_on_off_eq [simp]: "interrupt_on (interrupt_off f) = interrupt_on f"
proof -
  have "(x AND NOT SSTATUS_SIE) OR SSTATUS_SIE = x OR SSTATUS_SIE" for x
    by (rule bit_word_eqI) (auto simp: bit_simps)
  then show ?thesis by (simp add: interrupt_off_def interrupt_on_def)
qed

lemma interrupt_off_off [simp]: "interrupt_off (interrupt_off f) = interrupt_off f"
  by (rule interrupt_off_id) simp

section \<open>Fields of the kernel state\<close>

lemma k_pushed [simp]:
  "k_table (pushed s) = k_table s" "kernel_lock (pushed s) = kernel_lock s"
  "kernel_once (pushed s) = kernel_once s" "k_kvm (pushed s) = k_kvm s" "k_pid (pushed s) = k_pid s"
  "kstate.more (pushed s) = kstate.more s"
  by (simp_all add: pushed_def refresh_prev_def)

lemma k_refresh_prev [simp]:
  "k_table (refresh_prev s) = k_table s" "kernel_lock (refresh_prev s) = kernel_lock s"
  "kernel_once (refresh_prev s) = kernel_once s" "k_kvm (refresh_prev s) = k_kvm s"
  "k_pid (refresh_prev s) = k_pid s" "kstate.more (refresh_prev s) = kstate.more s"
  by (simp_all add: refresh_prev_def)

lemma k_popped [simp]:
  "k_table (popped s) = k_table s" "kernel_lock (popped s) = kernel_lock s"
  "kernel_once (popped s) = kernel_once s" "k_kvm (popped s) = k_kvm s" "k_pid (popped s) = k_pid s"
  "kstate.more (popped s) = kstate.more s"
  by (simp_all add: popped_def)

lemma upd_proc_simps [simp]:
  "k_table (upd_proc i f s) = (k_table s)[i := f (k_table s ! i)]"
  "kernel_lock (upd_proc i f s) = kernel_lock s" "kernel_once (upd_proc i f s) = kernel_once s"
  "k_kvm (upd_proc i f s) = k_kvm s" "k_pid (upd_proc i f s) = k_pid s" "cpu (upd_proc i f s) = cpu s"
  "csrs (upd_proc i f s) = csrs s" "mem (upd_proc i f s) = mem s" "stimecmp (upd_proc i f s) = stimecmp s"
  "uart_out (upd_proc i f s) = uart_out s" "heap_st (upd_proc i f s) = heap_st s"
  "heap_lock (upd_proc i f s) = heap_lock s" "kstate.more (upd_proc i f s) = kstate.more s"
  by (simp_all add: upd_proc_def)

lemma int_ok_upd_proc [simp]: "int_ok (upd_proc i f s) = int_ok s"
  by (simp add: int_ok_def)

lemma upd_proc_pushed: "upd_proc i f (pushed s) = pushed (upd_proc i f s)"
  by (simp add: upd_proc_def pushed_def refresh_prev_def)

lemma upd_proc_popped: "upd_proc i f (popped s) = popped (upd_proc i f s)"
  by (simp add: upd_proc_def popped_def)

lemma upd_proc_upd_proc: "upd_proc i f (upd_proc i g s) = upd_proc i (\<lambda>p. f (g p)) s"
  by (cases "i < length (k_table s)") (simp_all add: upd_proc_def list_update_beyond)

lemma upd_proc_cong: "f (k_table s ! i) = g (k_table s ! i) \<Longrightarrow> upd_proc i f s = upd_proc i g s"
  by (simp add: upd_proc_def)

lemma upd_proc_id: "f (k_table s ! i) = k_table s ! i \<Longrightarrow> upd_proc i f s = s"
  by (simp add: upd_proc_def)

section \<open>The places of the locks\<close>

interpretation kernel_cell: lock_cell "kernel_lockref :: ('h, 'z) kstate_scheme lockref" "\<lambda>_. True"
  by unfold_locales (auto simp: kernel_lockref_def)

interpretation proc_cell: lock_cell "proc_lockref i :: ('h, 'z) kstate_scheme lockref" "\<lambda>s. i < length (k_table s)" for i
proof
  show "lk_set (proc_lockref i) b (lk_set (proc_lockref i) b2 s) = lk_set (proc_lockref i) b s"
    for b b2 and s :: "('h, 'z) kstate_scheme"
    by (simp add: proc_lockref_def upd_proc_upd_proc)
qed (auto simp: proc_lockref_def upd_proc_def)

interpretation local_cell: lock_cell "local_lockref :: ('h, 'z) kstate_scheme lockref" "\<lambda>_. False"
  by unfold_locales (auto simp: local_lockref_def)

section \<open>Critical sections\<close>

text \<open>No process is locked, and the states in which nothing is.\<close>

definition locks_free :: "('h, 'z) kstate_scheme \<Rightarrow> bool" where
  "locks_free s \<longleftrightarrow> list_all (\<lambda>p. \<not> p_lock p) (k_table s)"

definition quiet :: "('h, 'z) kstate_scheme \<Rightarrow> bool" where
  "quiet s \<longleftrightarrow> kernel_once s \<and> \<not> kernel_lock s \<and> interrupt_off_stack (cpu s) = 0 \<and> locks_free s"

text \<open>Inside a critical section interrupts are off and the level can still grow.\<close>

definition critical :: "('h, 'z) kstate_scheme \<Rightarrow> bool" where
  "critical s \<longleftrightarrow> int_ok s \<and> interrupt_off_stack (cpu s) \<noteq> 0"

lemma quiet_int_ok: "quiet s \<Longrightarrow> int_ok s"
  by (simp add: quiet_def int_ok_def)

lemma critical_int_ok: "critical s \<Longrightarrow> int_ok s"
  by (simp add: critical_def)

lemma critical_upd_proc [simp]: "critical (upd_proc i f s) = critical s"
  by (simp add: critical_def)

lemma critical_table [simp]: "critical (s\<lparr>k_table := t\<rparr>) = critical s"
  by (simp add: critical_def int_ok_def)

lemma locks_free_nth: "locks_free s \<Longrightarrow> i < length (k_table s) \<Longrightarrow> \<not> p_lock (k_table s ! i)"
  by (simp add: locks_free_def list_all_length)

lemma locks_free_pushed [simp]: "locks_free (pushed s) = locks_free s"
  by (simp add: locks_free_def)

lemma locks_free_upd_proc:
  assumes "locks_free s" "p_lock (f (k_table s ! i)) = p_lock (k_table s ! i)"
  shows "locks_free (upd_proc i f s)"
  using assms
  by (cases "i < length (k_table s)")
    (auto simp: locks_free_def list_all_length nth_list_update list_update_beyond)

context spin_crate
begin

lemma proc_lock_eq:
  assumes "int_ok s" "\<not> p_lock (k_table s ! i)"
  shows "lock_manual E (proc_lockref i) s = Inr (upd_proc i (\<lambda>p. p\<lparr>p_lock := True\<rparr>) (pushed s))"
  using proc_cell.lock_manual_eq [OF spin_crate_axioms assms(1), of i] assms(2)
  by (simp add: proc_lockref_def)

lemma proc_unlock_eq:
  assumes "interrupt_off_stack (cpu s) \<noteq> 0"
  shows "unlock_manual E (proc_lockref i) s = Inr (popped (upd_proc i (\<lambda>p. p\<lparr>p_lock := False\<rparr>) s))"
  using assms by (simp add: unlock_manual_def proc_lockref_def unlock_frees pop_interrupt_off_eq)

lemma kernel_acquire_eq:
  assumes "int_ok s" "kernel_once s" "\<not> kernel_lock s"
  shows "kernel_acquire E s = Inr ((pushed s)\<lparr>kernel_lock := True\<rparr>)"
  using kernel_cell.lock_manual_eq [OF spin_crate_axioms assms(1)] assms(2,3)
  by (simp add: kernel_acquire_def kernel_cell.IntMutex_lock_eq_manual) (simp add: kernel_lockref_def)

lemma kernel_release_eq:
  assumes "interrupt_off_stack (cpu s) \<noteq> 0"
  shows "kernel_release E s = Inr (popped (s\<lparr>kernel_lock := False\<rparr>))"
  using assms
  by (simp add: kernel_release_def IntMutexGuard_drop_def kernel_lockref_def unlock_frees pop_interrupt_off_eq)

lemma pushed_level: "int_ok s \<Longrightarrow> interrupt_off_stack (cpu s) + 1 \<noteq> 0"
  by (auto simp: int_ok_def add_eq_0_iff2)

text \<open>
  A process is locked, updated and unlocked: what is left is the update (and, at level 0, the
  refreshed saved interrupt state).
\<close>

lemma proc_section:
  assumes "int_ok s" "\<not> p_lock (k_table s ! i)"
    and "\<And>p b. f (p\<lparr>p_lock := b\<rparr>) = (f p)\<lparr>p_lock := b\<rparr>"
  shows "unlock_manual E (proc_lockref i) (upd_proc i f (upd_proc i (\<lambda>p. p\<lparr>p_lock := True\<rparr>) (pushed s)))
    = Inr (upd_proc i f (refresh_prev s))"
proof -
  let ?p = "k_table s ! i"
  have "?p\<lparr>p_lock := False\<rparr> = ?p" using assms(2) by (cases ?p) simp
  then have free: "(f ?p)\<lparr>p_lock := False\<rparr> = f ?p"
    using assms(3) [where p = ?p and b = False] by simp
  have "upd_proc i (\<lambda>p. p\<lparr>p_lock := False\<rparr>) (upd_proc i f (upd_proc i (\<lambda>p. p\<lparr>p_lock := True\<rparr>) (pushed s)))
      = upd_proc i f (pushed s)"
    unfolding upd_proc_upd_proc by (rule upd_proc_cong) (simp add: assms(3) free)
  then show ?thesis
    using pushed_level [OF assms(1)]
    by (simp add: proc_unlock_eq upd_proc_pushed popped_pushed assms(1))
      (simp add: upd_proc_def refresh_prev_def)
qed

lemma proc_lock_unlock:
  assumes "critical s" "\<not> p_lock (k_table s ! j)"
  shows "unlock_manual E (proc_lockref j) (upd_proc j (\<lambda>p. p\<lparr>p_lock := True\<rparr>) (pushed s)) = Inr s"
  using proc_section [OF critical_int_ok [OF assms(1)] assms(2), of "\<lambda>p. p"] assms(1)
  by (simp add: upd_proc_id refresh_prev_inner critical_def)

end

section \<open>wakeup and reparent\<close>

text \<open>The effect of \<open>wakeup\<close> on one process.\<close>

definition wake :: "usize option \<Rightarrow> Process \<Rightarrow> Process" where
  "wake channel p = (if p_state p = Sleeping \<and> p_sleep_channel p = channel
     then p\<lparr>p_state := Runnable\<rparr> else p)"

lemma wake_lock [simp]: "p_lock (wake c p) = p_lock p"
  and wake_lock_upd: "wake c (p\<lparr>p_lock := b\<rparr>) = (wake c p)\<lparr>p_lock := b\<rparr>"
  by (simp_all add: wake_def)

text \<open>Updates at several places, the order of which does not matter.\<close>

lemma fold_upd_prefix:
  assumes "n \<le> length t"
  shows "fold (\<lambda>i t. t[i := f (t ! i)]) [0..<n] t = map f (take n t) @ drop n t"
  using assms
proof (induction n)
  case (Suc n)
  then have "fold (\<lambda>i t. t[i := f (t ! i)]) [0..<n] t = map f (take n t) @ drop n t" by simp
  then show ?case
    using Suc.prems by (simp add: take_Suc_conv_app_nth list_update_append nth_append Cons_nth_drop_Suc [symmetric])
qed simp

lemma fold_upd_map: "fold (\<lambda>i t. t[i := f (t ! i)]) [0..<length t] t = map f t"
  by (simp add: fold_upd_prefix)

context spin_crate
begin

lemma wakeup_loop_eq:
  assumes "critical s" "locks_free s" "\<forall>i \<in> set is. i < length (k_table s)"
  shows "wakeup_loop E c is s = Inr (s\<lparr>k_table := fold (\<lambda>i t. t[i := wake c (t ! i)]) is (k_table s)\<rparr>)"
  using assms
proof (induction "is" arbitrary: s)
  case (Cons i "is")
  let ?s = "upd_proc i (wake c) s"
  have i: "i < length (k_table s)" and free: "\<not> p_lock (k_table s ! i)" and int: "int_ok s"
    using Cons.prems by (auto simp: locks_free_nth critical_int_ok)
  let ?l = "upd_proc i (\<lambda>p. p\<lparr>p_lock := True\<rparr>) (pushed s)"
  have upd: "(if p_state (k_table ?l ! i) = Sleeping \<and> p_sleep_channel (k_table ?l ! i) = c
      then upd_proc i (\<lambda>p. p\<lparr>p_state := Runnable\<rparr>) ?l else ?l) = upd_proc i (wake c) ?l"
    using i by (simp add: wake_def upd_proc_def)
  have "wakeup_loop E c (i # is) s = wakeup_loop E c is ?s"
    unfolding wakeup_loop.simps Let_def proc_lock_eq [OF int free] bind_ok_Inr upd
      proc_section [OF int free wake_lock_upd]
    using Cons.prems by (simp add: refresh_prev_inner critical_def)
  also have "\<dots> = Inr (?s\<lparr>k_table := fold (\<lambda>i t. t[i := wake c (t ! i)]) is (k_table ?s)\<rparr>)"
    using Cons.prems by (intro Cons.IH) (auto intro: locks_free_upd_proc)
  finally show ?case by (simp add: upd_proc_def)
qed simp

lemma wakeup_eq:
  assumes "critical s" "locks_free s"
  shows "wakeup E c s = Inr (s\<lparr>k_table := map (wake c) (k_table s)\<rparr>)"
  using wakeup_loop_eq [OF assms] by (simp add: wakeup_def fold_upd_map)

end

text \<open>The effect of \<open>reparent\<close> on the table.\<close>

definition adopt :: "usize option \<Rightarrow> Process \<Rightarrow> Process" where
  "adopt pid p = (if p_parent p = pid then p\<lparr>p_parent := Some 0\<rparr> else p)"

definition reparented :: "usize option \<Rightarrow> Process list \<Rightarrow> Process list" where
  "reparented pid t = (if list_ex (\<lambda>p. p_parent p = pid) t
     then map (wake (Some 0) \<circ> adopt pid) t else t)"

lemma adopt_lock [simp]: "p_lock (adopt c p) = p_lock p"
  by (simp add: adopt_def)

context spin_crate
begin

lemma reparent_eq:
  assumes "critical s" "locks_free s"
  shows "reparent E pid s = Inr (s\<lparr>k_table := reparented pid (k_table s)\<rparr>)"
proof -
  let ?s = "s\<lparr>k_table := map (\<lambda>p. if p_parent p = pid then p\<lparr>p_parent := Some 0\<rparr> else p) (k_table s)\<rparr>"
  have m: "map (\<lambda>p. if p_parent p = pid then p\<lparr>p_parent := Some 0\<rparr> else p) t = map (adopt pid) t" for t
    by (simp add: adopt_def)
  have "wakeup E (Some 0) ?s = Inr (?s\<lparr>k_table := map (wake (Some 0)) (k_table ?s)\<rparr>)"
    using assms by (intro wakeup_eq) (auto simp: locks_free_def list_all_iff)
  moreover have "map (adopt pid) t = t" if "\<not> list_ex (\<lambda>p. p_parent p = pid) t" for t
    using that by (intro map_idI) (auto simp: list_ex_iff adopt_def)
  ultimately show ?thesis
    unfolding m by (simp add: reparent_def Let_def reparented_def m)
qed

end

end
