(* ===== verification/SchedSpec.thy ===== *)
theory SchedSpec
  imports ProcSpec
begin

text \<open>
  The scheduler: its round as a function of the process table. It dispatches the runnable process
  with the fewest quanta so far, the lowest index among equals, and only idles when no process is
  runnable.
\<close>

section \<open>The choice\<close>

definition runnable :: "Process list \<Rightarrow> nat \<Rightarrow> bool" where
  "runnable t i \<longleftrightarrow> i < length t \<and> p_state (t ! i) = Runnable"

definition next_process :: "Process list \<Rightarrow> nat \<Rightarrow> bool" where
  "next_process t i \<longleftrightarrow> runnable t i \<and> (\<forall>j < length t. runnable t j \<longrightarrow>
     p_quants (t ! i) < p_quants (t ! j) \<or> p_quants (t ! i) = p_quants (t ! j) \<and> i \<le> j)"

lemma find_hd: "List.find P xs = (case filter P xs of [] \<Rightarrow> None | x # _ \<Rightarrow> Some x)"
  by (induction xs) auto

text \<open>The first element of a stable sort of an ascending list: least key, then least element.\<close>

lemma hd_sort_key:
  fixes xs :: "nat list" and f :: "nat \<Rightarrow> 'k :: linorder"
  assumes "sort_key f xs = x # ys" "sorted xs"
  shows "x \<in> set xs" "\<forall>y \<in> set xs. f x < f y \<or> f x = f y \<and> x \<le> y"
proof -
  have set: "set xs = set (x # ys)" using assms(1) by (metis set_sort)
  then show "x \<in> set xs" by simp
  have "sorted (map f (sort_key f xs))" by simp
  then have le: "f x \<le> f y" if "y \<in> set xs" for y
    using that set by (auto simp: assms(1))
  have "x # filter (\<lambda>y. f y = f x) ys = filter (\<lambda>y. f y = f x) xs"
    using sort_key_stable [of f "f x" xs] by (simp add: assms(1))
  then have "sorted (x # filter (\<lambda>y. f y = f x) ys)"
    using assms(2) by (metis sorted_filter [of id] map_ident list.map_id)
  then have "x \<le> y" if "y \<in> set xs" "f y = f x" for y
    using that set by auto
  with le show "\<forall>y \<in> set xs. f x < f y \<or> f x = f y \<and> x \<le> y"
    by (metis order_le_less)
qed

lemma find_sched_order_Some:
  assumes "List.find (\<lambda>i. p_state (t ! i) = Runnable) (sched_order t) = Some i"
  shows "next_process t i"
proof -
  let ?f = "\<lambda>i. p_quants (t ! i)"
  let ?rs = "filter (\<lambda>i. p_state (t ! i) = Runnable) [0..<length t]"
  have "filter (\<lambda>i. p_state (t ! i) = Runnable) (sched_order t) = sort_key ?f ?rs"
    by (simp add: sched_order_def filter_sort)
  then obtain ys where "sort_key ?f ?rs = i # ys"
    using assms by (auto simp: find_hd split: list.splits)
  from hd_sort_key [OF this] show ?thesis
    by (auto simp: next_process_def runnable_def sorted_wrt_filter)
qed

lemma find_sched_order_None:
  "List.find (\<lambda>i. p_state (t ! i) = Runnable) (sched_order t) = None \<longleftrightarrow> (\<forall>i. \<not> runnable t i)"
  by (auto simp: find_None_iff sched_order_def runnable_def)

lemma next_process_unique: "next_process t i \<Longrightarrow> next_process t j \<Longrightarrow> i = j"
  unfolding next_process_def runnable_def by (metis order_less_asym order_less_irrefl le_antisym)

lemma find_sched_order_eq:
  "List.find (\<lambda>i. p_state (t ! i) = Runnable) (sched_order t) = Some i \<longleftrightarrow> next_process t i"
proof
  assume i: "next_process t i"
  then have "runnable t i" by (simp add: next_process_def)
  then obtain j where "List.find (\<lambda>i. p_state (t ! i) = Runnable) (sched_order t) = Some j"
    using find_sched_order_None [of t] by fastforce
  then show "List.find (\<lambda>i. p_state (t ! i) = Runnable) (sched_order t) = Some i"
    using i find_sched_order_Some next_process_unique by blast
qed (rule find_sched_order_Some)

lemma next_process_exists: "runnable t i \<Longrightarrow> \<exists>j. next_process t j"
  using find_sched_order_None [of t] find_sched_order_eq [of t] by fastforce

section \<open>A round\<close>

context spin_crate
begin

lemma pick_loop_eq:
  assumes "critical s" "locks_free s" "\<forall>i \<in> set is. i < length (k_table s)"
  shows "pick_loop E is s = (case List.find (\<lambda>i. p_state (k_table s ! i) = Runnable) is of
      None \<Rightarrow> Inr (None, s)
    | Some i \<Rightarrow> Inr (Some i, upd_proc i (\<lambda>p. p\<lparr>p_lock := True, p_state := Running\<rparr>) (pushed s)))"
  using assms
proof (induction "is")
  case (Cons i "is")
  have i: "i < length (k_table s)" and free: "\<not> p_lock (k_table s ! i)" and int: "int_ok s"
    using Cons.prems by (auto simp: locks_free_nth critical_int_ok)
  note unlocked = proc_lock_unlock [OF Cons.prems(1) free]
  show ?case
  proof (cases "p_state (k_table s ! i) = Runnable")
    case True
    then show ?thesis using i by (simp add: proc_lock_eq [OF int free] upd_proc_upd_proc)
  next
    case False
    then show ?thesis using i Cons by (simp add: proc_lock_eq [OF int free] unlocked)
  qed
qed simp

end

text \<open>The state at the switch to process \<open>i\<close>, and the state in which the scheduler waits.\<close>

definition dispatched :: "nat \<Rightarrow> Context \<Rightarrow> ('h, 'z) kstate_scheme \<Rightarrow> ('h, 'z) kstate_scheme" where
  "dispatched i regs s = s\<lparr>csrs := interrupt_off (csrs s),
     uart_out := uart_out s @ ascii ''scheduler: '' @ ascii ''switching to process '' @ fmt_option (p_pid (k_table s ! i)) @ [10],
     cpu := (cpu s)\<lparr>current := Some i, interrupt_off_stack := 1, interrupt_prev_state := False,
       cpu_context := regs\<rparr>,
     k_table := (k_table s)[i := (k_table s ! i)\<lparr>p_lock := True, p_state := Running,
       p_quants := p_quants (k_table s ! i) + 1\<rparr>]\<rparr>"

definition idling :: "('h, 'z) kstate_scheme \<Rightarrow> ('h, 'z) kstate_scheme" where
  "idling s = s\<lparr>csrs := interrupt_on (csrs s),
     uart_out := uart_out s @ ascii ''scheduler: '' @ ascii ''no processes found'' @ [10], cpu := (cpu s)\<lparr>interrupt_prev_state := False\<rparr>\<rparr>"

context spin_crate
begin

lemma scheduler_eq:
  assumes "quiet s"
  shows "scheduler E regs s =
    (case List.find (\<lambda>i. p_state (k_table s ! i) = Runnable) (sched_order (k_table s)) of
       None \<Rightarrow> Inr (None, idling s)
     | Some i \<Rightarrow> if p_quants (k_table s ! i) = 0xffffffff then Inl Overflow
         else Inr (Some i, dispatched i regs s))"
proof -
  let ?s0 = "s\<lparr>uart_out := uart_out s @ ascii ''scheduler: '', csrs := interrupt_off (csrs s)\<rparr>"
  let ?s1 = "(pushed ?s0)\<lparr>kernel_lock := True\<rparr>"
  have q: "int_ok ?s0" "kernel_once ?s0" "\<not> kernel_lock ?s0"
    using assms by (auto simp: quiet_def int_ok_def)
  have pick: "pick_loop E (sched_order (k_table s)) ?s1 =
     (case List.find (\<lambda>i. p_state (k_table s ! i) = Runnable) (sched_order (k_table s)) of
      None \<Rightarrow> Inr (None, ?s1)
    | Some i \<Rightarrow> Inr (Some i, upd_proc i (\<lambda>p. p\<lparr>p_lock := True, p_state := Running\<rparr>) (pushed ?s1)))"
    using pick_loop_eq [of ?s1 "sched_order (k_table s)"] assms
    by (simp add: critical_def int_ok_def quiet_def locks_free_def sched_order_def)
  show ?thesis
  proof (cases "List.find (\<lambda>i. p_state (k_table s ! i) = Runnable) (sched_order (k_table s))")
    case None
    let ?s3 = "popped (?s1\<lparr>kernel_lock := False\<rparr>)"
    let ?s4 = "println [ascii ''no processes found''] ?s3"
    have "scheduler E regs s = Inr (None, ?s4\<lparr>csrs := interrupt_on (csrs ?s4)\<rparr>)"
      using q None assms by (simp add: scheduler_def Let_def print_eq kernel_acquire_eq pick kernel_release_eq quiet_def)
    also have "?s4\<lparr>csrs := interrupt_on (csrs ?s4)\<rparr> = idling s"
      using assms unfolding println_eq
      by (intro kstate.equality)
        (auto simp: popped_def pushed_def refresh_prev_def idling_def quiet_def intro: Cpu.equality)
    finally show ?thesis using None by simp
  next
    case (Some i)
    then have i: "i < length (k_table s)" by (auto simp: find_sched_order_eq next_process_def runnable_def)
    let ?q = "p_quants (k_table s ! i)"
    let ?s3 = "popped ((upd_proc i (\<lambda>p. p\<lparr>p_lock := True, p_state := Running\<rparr>) (pushed ?s1))\<lparr>kernel_lock := False\<rparr>)"
    let ?msg = "ascii ''switching to process '' @ fmt_option (p_pid (k_table s ! i)) @ [10]"
    have "scheduler E regs s = bind_ok (add_chk ?q 1) (\<lambda>q. let s4 = upd_proc i (\<lambda>p. p\<lparr>p_quants := q\<rparr>) ?s3 in
        Inr (Some i, s4\<lparr>uart_out := uart_out s4 @ ?msg, cpu := (cpu s4)\<lparr>current := Some i, cpu_context := regs\<rparr>\<rparr>))"
      using q Some assms i
      by (simp add: scheduler_def Let_def print_eq println_eq kernel_acquire_eq pick kernel_release_eq quiet_def)
    moreover have "(upd_proc i (\<lambda>p. p\<lparr>p_quants := ?q + 1\<rparr>) ?s3)\<lparr>uart_out := uart_out ?s3 @ ?msg,
        cpu := (cpu ?s3)\<lparr>current := Some i, cpu_context := regs\<rparr>\<rparr> = dispatched i regs s"
      using assms i
      by (intro kstate.equality)
        (auto simp: popped_def pushed_def refresh_prev_def dispatched_def quiet_def intro: Cpu.equality)
    ultimately show ?thesis using Some by (simp add: add_chk_one_cases)
  qed
qed

end

end
