(* ===== verification/ProcRefine.thy ===== *)
theory ProcRefine
  imports SchedSpec
begin

text \<open>
  The kernel's process operations implement the steps of the abstract machine of \<open>ProcAbs\<close>.
  \<open>abs_sys\<close> forgets memory, locks, interrupts and the saved registers. Between operations the
  system is quiet; a process that gives up the processor leaves it in a \<open>switched\<close> state, in
  which only that process is locked, and the scheduler takes it from there.
\<close>

section \<open>Abstraction\<close>

definition abs_proc :: "Process \<Rightarrow> aproc" where
  "abs_proc p = \<lparr>a_state = p_state p, a_pid = p_pid p, a_parent = p_parent p,
     a_chan = p_sleep_channel p, a_xstatus = p_xstatus p, a_cont = p_cont p, a_quants = p_quants p\<rparr>"

definition abs_sys :: "('h, 'z) kstate_scheme \<Rightarrow> asys" where
  "abs_sys s = \<lparr>a_tab = map abs_proc (k_table s), a_next = k_pid s, a_run = current (cpu s)\<rparr>"

lemma abs_proc_simps [simp]:
  "a_state (abs_proc p) = p_state p" "a_pid (abs_proc p) = p_pid p" "a_parent (abs_proc p) = p_parent p"
  "a_chan (abs_proc p) = p_sleep_channel p" "a_xstatus (abs_proc p) = p_xstatus p"
  "a_cont (abs_proc p) = p_cont p" "a_quants (abs_proc p) = p_quants p"
  by (simp_all add: abs_proc_def)

lemma abs_sys_simps [simp]:
  "a_tab (abs_sys s) = map abs_proc (k_table s)" "a_next (abs_sys s) = k_pid s"
  "a_run (abs_sys s) = current (cpu s)"
  by (simp_all add: abs_sys_def)

lemma abs_proc_lock [simp]: "abs_proc (p\<lparr>p_lock := b\<rparr>) = abs_proc p"
  by (simp add: abs_proc_def)

text \<open>What the abstraction and the lock discipline depend on.\<close>

definition same_sys :: "('h, 'z) kstate_scheme \<Rightarrow> ('h, 'z) kstate_scheme \<Rightarrow> bool" where
  "same_sys s s' \<longleftrightarrow> k_table s' = k_table s \<and> k_pid s' = k_pid s \<and> kernel_once s' = kernel_once s \<and>
     kernel_lock s' = kernel_lock s \<and> interrupt_off_stack (cpu s') = interrupt_off_stack (cpu s) \<and>
     current (cpu s') = current (cpu s)"

lemma same_rest_kernel:
  assumes "same_rest (s :: ('h, 'z) kstate_scheme) s'"
  shows "k_table s' = k_table s" "k_pid s' = k_pid s" "kernel_once s' = kernel_once s"
    "kernel_lock s' = kernel_lock s" "k_kvm s' = k_kvm s" "current (cpu s') = current (cpu s)"
    "interrupt_off_stack (cpu s') = interrupt_off_stack (cpu s)" "csrs s' = csrs s"
  using assms
  by (cases s rule: kstate.cases_scheme; cases s' rule: kstate.cases_scheme; simp add: same_rest_def)+

lemma same_rest_same_sys: "same_rest s s' \<Longrightarrow> same_sys s s'"
  by (simp add: same_sys_def same_rest_kernel)

lemma same_sys_refl [simp]: "same_sys s s"
  and same_sys_trans: "same_sys s s' \<Longrightarrow> same_sys s' s'' \<Longrightarrow> same_sys s s''"
  by (simp_all add: same_sys_def)

lemma same_sys_abs: "same_sys s s' \<Longrightarrow> abs_sys s' = abs_sys s"
  by (simp add: same_sys_def abs_sys_def)

lemma same_sys_quiet: "same_sys s s' \<Longrightarrow> quiet s' = quiet s"
  by (simp add: same_sys_def quiet_def locks_free_def)

lemma same_sys_updates [simp]:
  "same_sys s (s'\<lparr>mem := m\<rparr>) = same_sys s s'" "same_sys s (s'\<lparr>csrs := c\<rparr>) = same_sys s s'"
  "same_sys s (s'\<lparr>stimecmp := t\<rparr>) = same_sys s s'" "same_sys s (s'\<lparr>uart_out := u\<rparr>) = same_sys s s'"
  "same_sys s (trapframe_set i f v s') = same_sys s s'"
  "same_sys s (print as s') = same_sys s s'" "same_sys s (println as s') = same_sys s s'"
  by (simp_all add: same_sys_def trapframe_set_def print_eq println_eq)

lemma same_rest_upd_proc: "same_rest s s' \<Longrightarrow> same_rest (upd_proc i f s) (upd_proc i f s')"
  by (cases s rule: kstate.cases_scheme; cases s' rule: kstate.cases_scheme)
    (simp add: same_rest_def upd_proc_def)

lemma same_rest_popped:
  "same_rest s s' \<Longrightarrow> interrupt_off_stack (cpu s) \<noteq> 1 \<Longrightarrow> same_rest (popped s) (popped s')"
  by (simp add: same_rest_def popped_def)

text \<open>The running process \<open>i\<close> in the kernel, with no lock held.\<close>

definition in_kernel :: "nat \<Rightarrow> ('h, 'z) kstate_scheme \<Rightarrow> bool" where
  "in_kernel i s \<longleftrightarrow> quiet s \<and> current (cpu s) = Some i \<and> i < length (k_table s)"

text \<open>Process \<open>i\<close> is locked for a switch, and nothing else is.\<close>

definition switched :: "nat \<Rightarrow> ('h, 'z) kstate_scheme \<Rightarrow> bool" where
  "switched i s \<longleftrightarrow> kernel_once s \<and> \<not> kernel_lock s \<and> interrupt_off_stack (cpu s) = 1 \<and>
     \<not> interrupt_read (csrs s) \<and> i < length (k_table s) \<and>
     (\<forall>j < length (k_table s). p_lock (k_table s ! j) \<longleftrightarrow> j = i)"

lemma same_sys_in_kernel: "same_sys s s' \<Longrightarrow> in_kernel i s' = in_kernel i s"
  using same_sys_quiet [of s s'] by (simp add: in_kernel_def same_sys_def)

lemma map_abs_update: "map abs_proc (t[i := p]) = (map abs_proc t)[i := abs_proc p]"
  by (rule map_update)

section \<open>Switching\<close>

context spin_crate
begin

lemma switched_unlock:
  assumes "switched i s"
  obtains s' where "unlock_manual E (proc_lockref i) s = Inr s'" "quiet s'" "abs_sys s' = abs_sys s"
    "current (cpu s') = current (cpu s)" "length (k_table s') = length (k_table s)"
proof -
  let ?s = "popped (upd_proc i (\<lambda>p. p\<lparr>p_lock := False\<rparr>) s)"
  have "unlock_manual E (proc_lockref i) s = Inr ?s"
    using assms by (intro proc_unlock_eq) (simp add: switched_def)
  moreover have "quiet ?s"
    using assms by (auto simp: quiet_def switched_def locks_free_def list_all_length nth_upd)
  moreover have "abs_sys ?s = abs_sys s"
    using assms by (simp add: abs_sys_def map_update list_update_same_conv switched_def)
  ultimately show ?thesis using that by simp
qed

lemma scheduler_resume_ok:
  assumes "switched i s"
  obtains s' where "scheduler_resume E i s = Inr s'" "quiet s'" "abs_sys s' = (abs_sys s)\<lparr>a_run := None\<rparr>"
proof -
  let ?s = "s\<lparr>cpu := (cpu s)\<lparr>current := None\<rparr>\<rparr>"
  have "switched i ?s" using assms by (simp add: switched_def)
  from switched_unlock [OF this] obtain s' where
    "unlock_manual E (proc_lockref i) ?s = Inr s'" "quiet s'" "abs_sys s' = abs_sys ?s" by metis
  then show ?thesis using that by (simp add: scheduler_resume_def abs_sys_def)
qed

lemma scheduler_refines:
  assumes "quiet s" "current (cpu s) = None" "scheduler E regs s = Inr (Some i, s')"
  shows "switched i s'" "current (cpu s') = Some i" "astep (A_dispatch i) (abs_sys s) (abs_sys s')"
proof -
  have found: "List.find (\<lambda>i. p_state (k_table s ! i) = Runnable) (sched_order (k_table s)) = Some i"
    and q: "p_quants (k_table s ! i) \<noteq> 0xffffffff" and s': "s' = dispatched i regs s"
    using assms(3) unfolding scheduler_eq [OF assms(1)] by (auto split: option.splits if_splits)
  then have choice: "next_process (k_table s) i" by (simp add: find_sched_order_eq)
  then have i: "i < length (k_table s)" by (simp add: next_process_def runnable_def)
  show "switched i s'" "current (cpu s') = Some i"
    using assms(1) i by (auto simp: s' switched_def dispatched_def quiet_def locks_free_def list_all_length nth_upd)
  have "a_choice (a_tab (abs_sys s)) i"
    using choice by (auto simp: a_choice_def a_runnable_def next_process_def runnable_def)
  moreover have "abs_sys s' = (a_upd i (\<lambda>p. p\<lparr>a_state := Running, a_quants := a_quants p + 1\<rparr>) (abs_sys s))\<lparr>a_run := Some i\<rparr>"
    using i by (simp add: s' abs_sys_def dispatched_def a_upd_def map_update abs_proc_def)
  ultimately show "astep (A_dispatch i) (abs_sys s) (abs_sys s')"
    using astep.dispatch [of "abs_sys s" i] assms(2) i q by simp
qed

lemma scheduler_idles:
  assumes "quiet s" "scheduler E regs s = Inr (None, s')"
  shows "same_sys s s'" "\<forall>i. \<not> a_runnable (a_tab (abs_sys s)) i"
  using assms unfolding scheduler_eq [OF assms(1)]
  by (auto simp: idling_def same_sys_def find_sched_order_None runnable_def a_runnable_def
      split: option.splits if_splits)

lemma sched_eq:
  assumes "interrupt_off_stack (cpu s) = 1" "\<not> interrupt_read (csrs s)" "current (cpu s) = Some i"
    "p_state (k_table s ! i) \<noteq> Running"
  shows "sched i regs c s = Inr (upd_proc i (\<lambda>p. p\<lparr>p_context := regs, p_cont := c,
    p_prev := interrupt_prev_state (cpu s)\<rparr>) s)"
  using assms by (simp add: sched_def)

lemma in_kernel_lock:
  assumes "in_kernel i s"
  shows "lock_manual E (proc_lockref i) s = Inr (upd_proc i (\<lambda>p. p\<lparr>p_lock := True\<rparr>) (pushed s))"
  using assms by (intro proc_lock_eq) (auto simp: in_kernel_def quiet_int_ok locks_free_nth quiet_def)

text \<open>A process locks itself, changes its state and switches away.\<close>

lemma in_kernel_switch:
  assumes "in_kernel i s" "p_state (f (k_table s ! i)\<lparr>p_lock := True\<rparr>) \<noteq> Running"
    "\<And>p. f (p\<lparr>p_lock := True\<rparr>) = (f p)\<lparr>p_lock := True\<rparr>"
  obtains s' where "sched i regs c (upd_proc i f (upd_proc i (\<lambda>p. p\<lparr>p_lock := True\<rparr>) (pushed s))) = Inr s'"
    "switched i s'" "current (cpu s') = Some i"
    "abs_sys s' = a_upd i (\<lambda>_. abs_proc ((f (k_table s ! i))\<lparr>p_cont := c\<rparr>)) (abs_sys s)"
proof -
  let ?s = "upd_proc i f (upd_proc i (\<lambda>p. p\<lparr>p_lock := True\<rparr>) (pushed s))"
  let ?r = "upd_proc i (\<lambda>p. p\<lparr>p_context := regs, p_cont := c, p_prev := interrupt_prev_state (cpu ?s)\<rparr>) ?s"
  have i: "i < length (k_table s)" and free: "locks_free s" and lvl: "interrupt_off_stack (cpu s) = 0"
    and cur: "current (cpu s) = Some i" and k: "kernel_once s" "\<not> kernel_lock s"
    using assms(1) by (auto simp: in_kernel_def quiet_def)
  have "sched i regs c ?s = Inr ?r"
    using assms(2,3) i lvl cur by (intro sched_eq) auto
  moreover have "switched i ?r"
    using i free lvl k assms(3) by (auto simp: switched_def locks_free_def list_all_length nth_upd)
  moreover have "abs_sys ?r = a_upd i (\<lambda>_. abs_proc ((f (k_table s ! i))\<lparr>p_cont := c\<rparr>)) (abs_sys s)"
    using i assms(3) by (simp add: abs_sys_def a_upd_def map_update abs_proc_def)
  ultimately show ?thesis using that cur by simp
qed

text \<open>Printing does not concern the process table.\<close>

lemma printed [simp]: "in_kernel i (s\<lparr>uart_out := u\<rparr>) = in_kernel i s" "abs_sys (s\<lparr>uart_out := u\<rparr>) = abs_sys s"
  by (rule same_sys_in_kernel) (simp_all add: abs_sys_def)

lemma yeld_report_eq: "\<exists>u. yeld_report s = s\<lparr>uart_out := u\<rparr>"
  unfolding yeld_report_def println_eq by (rule exI) simp

lemma yeld_eq:
  assumes "in_kernel i s"
  shows "\<exists>u. yeld E i regs c s = sched i regs c (upd_proc i (\<lambda>p. p\<lparr>p_state := Runnable\<rparr>)
    (upd_proc i (\<lambda>p. p\<lparr>p_lock := True\<rparr>) (pushed (s\<lparr>uart_out := u\<rparr>))))"
proof -
  obtain u where u: "yeld_report s = s\<lparr>uart_out := u\<rparr>" using yeld_report_eq [of s] by blast
  let ?s1 = "upd_proc i (\<lambda>p. p\<lparr>p_lock := True\<rparr>) (pushed (s\<lparr>uart_out := u\<rparr>))"
  obtain v where v: "yeld_report ?s1 = ?s1\<lparr>uart_out := v\<rparr>" using yeld_report_eq [of ?s1] by blast
  have "?s1\<lparr>uart_out := v\<rparr> = upd_proc i (\<lambda>p. p\<lparr>p_lock := True\<rparr>) (pushed (s\<lparr>uart_out := v\<rparr>))"
    by (intro kstate.equality) (auto simp: pushed_def refresh_prev_def)
  then show ?thesis using assms u v in_kernel_lock [of i "s\<lparr>uart_out := u\<rparr>"] by (auto simp: yeld_def)
qed

lemma yeld_refines:
  assumes "in_kernel i s"
  obtains s' where "yeld E i regs In_yeld_user s = Inr s'" "switched i s'" "current (cpu s') = Some i"
    "astep A_yield (abs_sys s) ((abs_sys s')\<lparr>a_run := None\<rparr>)"
proof -
  let ?f = "\<lambda>p. p\<lparr>p_state := Runnable\<rparr>"
  obtain u where u: "yeld E i regs In_yeld_user s = sched i regs In_yeld_user
      (upd_proc i ?f (upd_proc i (\<lambda>p. p\<lparr>p_lock := True\<rparr>) (pushed (s\<lparr>uart_out := u\<rparr>))))"
    using yeld_eq [OF assms] by blast
  obtain s' where s': "yeld E i regs In_yeld_user s = Inr s'" "switched i s'" "current (cpu s') = Some i"
    "abs_sys s' = a_upd i (\<lambda>_. abs_proc ((?f (k_table s ! i))\<lparr>p_cont := In_yeld_user\<rparr>)) (abs_sys s)"
    using in_kernel_switch [of i "s\<lparr>uart_out := u\<rparr>" ?f regs In_yeld_user] assms u by auto
  have i: "i < length (k_table s)" "current (cpu s) = Some i" using assms by (auto simp: in_kernel_def)
  have "(abs_sys s')\<lparr>a_run := None\<rparr> = (a_upd i (\<lambda>p. p\<lparr>a_state := Runnable, a_cont := In_yeld_user\<rparr>) (abs_sys s))\<lparr>a_run := None\<rparr>"
    using i s'(4) by (simp add: a_upd_def abs_proc_def)
  then have "astep A_yield (abs_sys s) ((abs_sys s')\<lparr>a_run := None\<rparr>)"
    using astep.yield [of "abs_sys s" i] i by simp
  then show ?thesis using that s'(1-3) by blast
qed

section \<open>Exiting\<close>

text \<open>A section under the kernel lock, entered at a level above 0, that only changes the table.\<close>

lemma kernel_section:
  assumes "critical s" "kernel_once s" "\<not> kernel_lock s"
  shows "kernel_acquire E s = Inr ((pushed s)\<lparr>kernel_lock := True\<rparr>)"
    "kernel_release E ((pushed s)\<lparr>kernel_lock := True, k_table := t\<rparr>) = Inr (s\<lparr>k_table := t\<rparr>)"
proof -
  show "kernel_acquire E s = Inr ((pushed s)\<lparr>kernel_lock := True\<rparr>)"
    using assms by (intro kernel_acquire_eq) (auto simp: critical_int_ok)
  have "popped ((pushed s)\<lparr>k_table := t, kernel_lock := False\<rparr>) = popped (pushed (s\<lparr>k_table := t\<rparr>))"
    using assms(3) by (intro arg_cong [where f = popped] kstate.equality) (auto simp: pushed_def refresh_prev_def)
  also have "\<dots> = s\<lparr>k_table := t\<rparr>"
    using assms(1) by (subst popped_pushed) (auto simp: critical_def int_ok_def refresh_prev_inner)
  finally show "kernel_release E ((pushed s)\<lparr>kernel_lock := True, k_table := t\<rparr>) = Inr (s\<lparr>k_table := t\<rparr>)"
    using pushed_level [of s] assms(1) by (subst kernel_release_eq) (auto simp: critical_def)
qed

end

text \<open>The table as an exiting process leaves it, before it becomes a zombie.\<close>

definition left_by :: "nat \<Rightarrow> Process list \<Rightarrow> Process list" where
  "left_by i t = (let t1 = reparented (p_pid (t ! i)) t in map (wake (p_parent (t1 ! i))) t1)"

lemma length_reparented [simp]: "length (reparented c t) = length t"
  by (simp add: reparented_def)

lemma length_left_by [simp]: "length (left_by i t) = length t"
  by (simp add: left_by_def Let_def)

lemma abs_wake: "abs_proc (wake c p) = a_wake c (abs_proc p)"
  by (simp add: abs_proc_def wake_def a_wake_def)

lemma abs_adopt: "abs_proc (adopt c p) = a_adopt c (abs_proc p)"
  by (simp add: abs_proc_def adopt_def a_adopt_def)

lemma abs_reparented: "map abs_proc (reparented c t) = a_orphan c (map abs_proc t)"
  by (simp add: reparented_def a_orphan_def list_ex_iff abs_wake abs_adopt)

lemma abs_left_by: "i < length t \<Longrightarrow> map abs_proc (left_by i t) = a_leave i (map abs_proc t)"
proof -
  assume i: "i < length t"
  have "p_parent (reparented c t ! i) = a_parent (a_orphan c (map abs_proc t) ! i)" for c
    using i by (simp flip: abs_reparented)
  then show ?thesis using i
    by (simp add: left_by_def a_leave_def Let_def abs_wake comp_def flip: abs_reparented)
qed

lemma locks_reparented: "list_all (\<lambda>p. \<not> p_lock p) t \<Longrightarrow> list_all (\<lambda>p. \<not> p_lock p) (reparented c t)"
  by (simp add: reparented_def list_all_iff)

lemma locks_left_by: "list_all (\<lambda>p. \<not> p_lock p) t \<Longrightarrow> list_all (\<lambda>p. \<not> p_lock p) (left_by i t)"
  using locks_reparented [of t] by (simp add: left_by_def Let_def list_all_iff)

context spin_crate
begin

lemma local_lock:
  assumes "int_ok s"
  shows "IntMutex_lock E local_lockref s = Inr (pushed (s :: ('h, 'z) kstate_scheme))"
  using local_cell.lock_manual_eq [OF spin_crate_axioms assms]
  by (simp add: local_cell.IntMutex_lock_eq_manual) (simp add: local_lockref_def)

lemma local_unlock:
  assumes "interrupt_off_stack (cpu s) \<noteq> 0"
  shows "IntMutexGuard_drop E local_lockref s = Inr (popped (s :: ('h, 'z) kstate_scheme))"
  using assms by (simp add: IntMutexGuard_drop_def local_lockref_def pop_interrupt_off_eq)

text \<open>Up to the lock of the process itself, an exit changes the table only.\<close>

lemma kexit_sections:
  assumes "interrupt_off_stack (cpu s) = 1" "\<not> interrupt_read (csrs s)"
    and "locks_free s" "kernel_once s" "\<not> kernel_lock s"
  shows "bind_ok (kernel_acquire E s) (\<lambda>s2.
        bind_ok (reparent E (p_pid (k_table s2 ! i)) s2) (\<lambda>s3.
        bind_ok (kernel_release E s3) (\<lambda>s4.
        bind_ok (kernel_acquire E s4) (\<lambda>s5.
        bind_ok (wakeup E (p_parent (k_table s5 ! i)) s5) (\<lambda>s6.
        bind_ok (kernel_release E s6) f))))) = f (s\<lparr>k_table := left_by i (k_table s)\<rparr>)"
proof -
  let ?t = "reparented (p_pid (k_table s ! i)) (k_table s)"
  let ?s = "s\<lparr>k_table := ?t\<rparr>"
  have c: "critical s" "critical ?s" "critical ((pushed s)\<lparr>kernel_lock := True\<rparr>)" "critical ((pushed ?s)\<lparr>kernel_lock := True\<rparr>)"
    using assms(1,2) by (auto simp: critical_def int_ok_def)
  have l: "locks_free ((pushed s)\<lparr>kernel_lock := True\<rparr>)" "locks_free ((pushed ?s)\<lparr>kernel_lock := True\<rparr>)"
    using assms(3) locks_reparented by (auto simp: locks_free_def)
  have k: "kernel_once ?s" "\<not> kernel_lock ?s" using assms by auto
  show ?thesis
    using assms(4,5) k
    by (simp add: kernel_section [OF c(1)] reparent_eq [OF c(3) l(1)] kernel_section(1) [OF c(2)]
        wakeup_eq [OF c(4) l(2)] left_by_def Let_def)
      (simp add: kernel_section(2) [OF c(2)])
qed

lemma kexit_eq:
  assumes own: "in_kernel i s" and pid: "p_pid (k_table s ! i) \<noteq> Some 0"
  shows "kexit E i x regs s = Inr (upd_proc i (\<lambda>p. p\<lparr>p_lock := True, p_xstatus := x, p_state := Zombie,
    p_context := regs, p_cont := In_kexit, p_prev := interrupt_read (csrs s)\<rparr>)
    ((pushed s)\<lparr>k_table := left_by i (k_table s)\<rparr>))"
proof -
  have i: "i < length (k_table s)" and free: "locks_free s" and lvl: "interrupt_off_stack (cpu s) = 0"
    and cur: "current (cpu s) = Some i" and k: "kernel_once s" "\<not> kernel_lock s" and int: "int_ok s"
    using own by (auto simp: in_kernel_def quiet_def quiet_int_ok)
  let ?u = "(pushed s)\<lparr>k_table := left_by i (k_table s)\<rparr>"
  let ?l = "upd_proc i (\<lambda>p. p\<lparr>p_lock := True\<rparr>) (pushed ?u)"
  let ?z = "upd_proc i (\<lambda>p. p\<lparr>p_lock := True, p_xstatus := x, p_state := Zombie\<rparr>) ?u"
  have u: "int_ok ?u" "critical ?u" using lvl by (auto simp: int_ok_def critical_def)
  have nolock: "\<not> p_lock (k_table ?u ! i)"
    using i free locks_left_by by (simp add: locks_free_def list_all_length)
  have z: "popped (upd_proc i (\<lambda>p. p\<lparr>p_xstatus := x, p_state := Zombie\<rparr>) ?l) = ?z"
    using u by (simp add: upd_proc_pushed upd_proc_upd_proc popped_pushed refresh_prev_inner critical_def)
  have "kexit E i x regs s = sched i regs In_kexit ?z"
    using pid k free lvl u
    by (simp add: kexit_def local_lock [OF int] kexit_sections proc_lock_eq [OF u(1) nolock] local_unlock z)
  also have "\<dots> = Inr (upd_proc i (\<lambda>p. p\<lparr>p_context := regs, p_cont := In_kexit,
      p_prev := interrupt_prev_state (cpu ?z)\<rparr>) ?z)"
    using lvl cur i by (intro sched_eq) auto
  finally show ?thesis using lvl by (simp add: upd_proc_upd_proc pushed_prev)
qed

lemma kexit_refines:
  assumes own: "in_kernel i s" and run: "kexit E i x regs s = Inr s'"
  shows "switched i s'" "current (cpu s') = Some i" "astep (A_exit x) (abs_sys s) ((abs_sys s')\<lparr>a_run := None\<rparr>)"
proof -
  have i: "i < length (k_table s)" and free: "locks_free s" and lvl: "interrupt_off_stack (cpu s) = 0"
    and cur: "current (cpu s) = Some i" and k: "kernel_once s" "\<not> kernel_lock s"
    using own by (auto simp: in_kernel_def quiet_def)
  have pid: "p_pid (k_table s ! i) \<noteq> Some 0" using run by (auto simp: kexit_def split: if_splits)
  note s' = run [unfolded kexit_eq [OF own pid], THEN sum.inject(2) [THEN iffD1], symmetric]
  show "switched i s'" "current (cpu s') = Some i"
    using i cur k lvl free locks_left_by
    by (auto simp: s' switched_def locks_free_def list_all_length nth_upd)
  have "(abs_sys s')\<lparr>a_run := None\<rparr> = (a_upd i (\<lambda>p. p\<lparr>a_state := Zombie, a_xstatus := x, a_cont := In_kexit\<rparr>)
      ((abs_sys s)\<lparr>a_tab := a_leave i (a_tab (abs_sys s))\<rparr>))\<lparr>a_run := None\<rparr>"
    using i by (simp add: s' abs_sys_def a_upd_def map_update flip: abs_left_by) (simp add: abs_proc_def)
  then show "astep (A_exit x) (abs_sys s) ((abs_sys s')\<lparr>a_run := None\<rparr>)"
    using astep.exit [of "abs_sys s" i x] i cur pid by simp
qed

end

end
