(* ===== verification/WaitRefine.thy ===== *)
theory WaitRefine
  imports ProcRefine
begin

text \<open>
  Waiting and forking: \<open>kwait\<close> reaps a zombie child, goes to sleep or finds no child;
  \<open>kfork\<close> fills the first unused slot. Both work under the kernel lock and allocate memory,
  of which \<open>MemFrame\<close> says that it changes nothing else.
\<close>

lemma rresult_case_eq: "(case r of Ok u \<Rightarrow> f u | Err \<Rightarrow> b) = c \<longleftrightarrow> (\<exists>u. r = Ok u \<and> f u = c) \<or> r = Err \<and> b = c"
  by (cases r) auto

lemma option_case_eq: "(case r of Some u \<Rightarrow> f u | None \<Rightarrow> b) = c \<longleftrightarrow> (\<exists>u. r = Some u \<and> f u = c) \<or> r = None \<and> b = c"
  by (cases r) auto

text \<open>Inversion of a run that returns.\<close>

lemmas run_inv = bind_ok_eq_Inr_iff rresult_case_eq option_case_eq unwrap_result_def

section \<open>Releasing and filling slots\<close>

definition freed :: "Uvm \<Rightarrow> usize \<Rightarrow> Process \<Rightarrow> Process" where
  "freed uvm tf p = p\<lparr>p_pid := None, p_state := Unused, p_parent := None, p_pagetable := uvm,
     p_context := Context_zero, p_xstatus := 0, p_sleep_channel := None, p_trapframe := tf\<rparr>"

lemma freed_lock: "freed uvm tf (p\<lparr>p_lock := b\<rparr>) = (freed uvm tf p)\<lparr>p_lock := b\<rparr>"
  by (simp add: freed_def)

lemma freed_simps [simp]: "p_lock (freed uvm tf p) = p_lock p" "p_state (freed uvm tf p) = Unused"
  by (simp_all add: freed_def)

context spin_crate
begin

lemma set_pagetable_table:
  assumes "set_pagetable E i uvm s = Inr s'" "int_ok s"
  shows "same_rest (upd_proc i (\<lambda>p. p\<lparr>p_pagetable := uvm\<rparr>) s) s'"
  using assms keepsD [OF Uvm_drop_keeps]
  by (auto simp: set_pagetable_def bind_ok_eq_Inr_iff intro!: same_rest_upd_proc)

lemma set_trapframe_table:
  assumes "set_trapframe E i tf s = Inr s'" "int_ok s"
  shows "\<exists>a. same_rest (upd_proc i (\<lambda>p. p\<lparr>p_trapframe := a\<rparr>) s) s'"
proof -
  obtain a s1 s2 where s: "Box_new_in E tf s = Inr (a, s1)"
    "Box_drop E (p_trapframe (k_table s1 ! i)) s1 = Inr ((), s2)"
    "s' = upd_proc i (\<lambda>q. q\<lparr>p_trapframe := a\<rparr>) s2"
    using assms(1) by (auto simp: set_trapframe_def run_inv)
  have "same_rest s s1" using keepsD [OF Box_new_in_keeps assms(2) s(1)] .
  moreover have "same_rest s1 s2"
    using keepsD [OF Box_drop_keeps same_rest_int_ok s(2)] assms(2) \<open>same_rest s s1\<close> by blast
  ultimately show ?thesis using s(3) same_rest_trans same_rest_upd_proc by blast
qed

lemma Process_free_table:
  assumes "Process_free E i s = Inr (r, s')" "int_ok s"
  shows "r = Err \<or> (\<exists>uvm tf. same_rest (upd_proc i (freed uvm tf) s) s')"
proof (cases r)
  case (Ok u)
  let ?a = "\<lambda>p. p\<lparr>p_pid := None, p_state := Unused, p_parent := None\<rparr>"
  let ?b = "\<lambda>p. p\<lparr>p_context := Context_zero, p_xstatus := 0, p_sleep_channel := None\<rparr>"
  obtain uvm s2 s3 where s: "Uvm_new E (upd_proc i ?a s) = Inr (Ok uvm, s2)"
    "set_pagetable E i uvm s2 = Inr s3" "set_trapframe E i Trapframe_default (upd_proc i ?b s3) = Inr s'"
    using assms(1) Ok by (auto simp: Process_free_def Let_def run_inv)
  have 2: "same_rest (upd_proc i ?a s) s2" using keepsD [OF Uvm_new_keeps _ s(1)] assms(2) by simp
  have "int_ok s2" by (rule same_rest_int_ok [OF _ 2]) (simp add: assms(2))
  then have "same_rest (upd_proc i (\<lambda>p. p\<lparr>p_pagetable := uvm\<rparr>) s2) s3" by (rule set_pagetable_table [OF s(2)])
  then have 3: "same_rest (upd_proc i (\<lambda>p. p\<lparr>p_pagetable := uvm\<rparr>) (upd_proc i ?a s)) s3"
    using same_rest_upd_proc [OF 2] same_rest_trans by blast
  have "int_ok s3" by (rule same_rest_int_ok [OF _ 3]) (simp add: assms(2))
  then obtain a where "same_rest (upd_proc i (\<lambda>p. p\<lparr>p_trapframe := a\<rparr>) (upd_proc i ?b s3)) s'"
    using set_trapframe_table [OF s(3)] by auto
  then have "same_rest (upd_proc i (\<lambda>p. p\<lparr>p_trapframe := a\<rparr>) (upd_proc i ?b
      (upd_proc i (\<lambda>p. p\<lparr>p_pagetable := uvm\<rparr>) (upd_proc i ?a s)))) s'"
    using same_rest_upd_proc [OF same_rest_upd_proc [OF 3]] same_rest_trans by blast
  moreover have "upd_proc i (\<lambda>p. p\<lparr>p_trapframe := a\<rparr>) (upd_proc i ?b
      (upd_proc i (\<lambda>p. p\<lparr>p_pagetable := uvm\<rparr>) (upd_proc i ?a s))) = upd_proc i (freed uvm a) s"
    unfolding upd_proc_upd_proc by (rule upd_proc_cong) (auto simp: freed_def intro: Process.equality)
  ultimately show ?thesis by auto
qed simp

section \<open>kwait\<close>

text \<open>One child: locked, freed and unlocked again.\<close>

lemma reap_section:
  assumes crit: "critical s" and free: "\<not> p_lock (k_table s ! j)"
    and lvl: "interrupt_off_stack (cpu s) + 1 < 0xffffffff"
    and run: "Process_free E j (upd_proc j (\<lambda>p. p\<lparr>p_lock := True\<rparr>) (pushed s)) = Inr (Ok u, s2)"
    and unlock: "unlock_manual E (proc_lockref j) s2 = Inr s3"
  shows "\<exists>uvm tf. same_rest (upd_proc j (freed uvm tf) s) s3"
proof -
  let ?l = "upd_proc j (\<lambda>p. p\<lparr>p_lock := True\<rparr>) (pushed s)"
  have "int_ok ?l" using lvl by (simp add: int_ok_def)
  then obtain uvm tf where r: "same_rest (upd_proc j (freed uvm tf) ?l) s2"
    using Process_free_table [OF run] by auto
  have ne: "interrupt_off_stack (cpu s) + 1 \<noteq> 0" "interrupt_off_stack (cpu s) + 1 \<noteq> 1"
    using crit pushed_level [of s] by (auto simp: critical_def)
  have "same_rest (popped (upd_proc j (\<lambda>p. p\<lparr>p_lock := False\<rparr>) (upd_proc j (freed uvm tf) ?l)))
      (popped (upd_proc j (\<lambda>p. p\<lparr>p_lock := False\<rparr>) s2))"
    using same_rest_upd_proc [OF r] ne by (intro same_rest_popped) auto
  moreover have "Inr (popped (upd_proc j (\<lambda>p. p\<lparr>p_lock := False\<rparr>) s2)) = (Inr s3 :: fault + _)"
    using unlock proc_unlock_eq [of s2 j] same_rest_kernel(7) [OF r] ne by simp
  moreover have "Inr (popped (upd_proc j (\<lambda>p. p\<lparr>p_lock := False\<rparr>) (upd_proc j (freed uvm tf) ?l)))
      = (Inr (upd_proc j (freed uvm tf) s) :: fault + _)"
    using proc_section [where f = "freed uvm tf", OF critical_int_ok [OF crit] free freed_lock]
      proc_unlock_eq [of "upd_proc j (freed uvm tf) ?l" j] ne crit
    by (simp add: refresh_prev_inner critical_def)
  ultimately show ?thesis by auto
qed

lemma kwait_scan_none:
  assumes "critical s" "locks_free s" "\<forall>j \<in> set js. j < length (k_table s)"
    "\<forall>j \<in> set js. p_parent (k_table s ! j) = pid \<longrightarrow> p_state (k_table s ! j) \<noteq> Zombie"
  shows "kwait_scan E pid js b s = Inr ((b \<or> (\<exists>j \<in> set js. p_parent (k_table s ! j) = pid), None, 0), s)"
  using assms
proof (induction js arbitrary: b)
  case (Cons j js)
  have j: "j < length (k_table s)" and free: "\<not> p_lock (k_table s ! j)" and int: "int_ok s"
    using Cons.prems by (auto simp: locks_free_nth critical_int_ok)
  show ?case
    using Cons.prems j Cons.IH [of b] Cons.IH [of True]
    by (auto simp: proc_lock_eq [OF int free] proc_lock_unlock [OF Cons.prems(1) free])
qed simp

lemma kwait_scan_cases:
  assumes "critical s" "locks_free s" "interrupt_off_stack (cpu s) + 1 < 0xffffffff"
    "\<forall>j \<in> set js. j < length (k_table s)" "kwait_scan E pid js b s = Inr ((kids, z, x), s')"
  shows "(\<forall>j \<in> set js. p_parent (k_table s ! j) = pid \<longrightarrow> p_state (k_table s ! j) \<noteq> Zombie) \<and>
      s' = s \<and> z = None \<and> kids = (b \<or> (\<exists>j \<in> set js. p_parent (k_table s ! j) = pid)) \<or>
    (\<exists>j \<in> set js. p_parent (k_table s ! j) = pid \<and> p_state (k_table s ! j) = Zombie \<and>
      z = p_pid (k_table s ! j) \<and> x = p_xstatus (k_table s ! j) \<and> kids \<and>
      (\<exists>uvm tf. same_rest (upd_proc j (freed uvm tf) s) s'))"
  using assms
proof (induction js arbitrary: b)
  case (Cons j js)
  have j: "j < length (k_table s)" and free: "\<not> p_lock (k_table s ! j)" and int: "int_ok s"
    using Cons.prems by (auto simp: locks_free_nth critical_int_ok)
  note unlocked = proc_lock_unlock [OF Cons.prems(1) free]
  consider (other) "p_parent (k_table s ! j) \<noteq> pid"
    | (busy) "p_parent (k_table s ! j) = pid" "p_state (k_table s ! j) \<noteq> Zombie"
    | (zombie) "p_parent (k_table s ! j) = pid" "p_state (k_table s ! j) = Zombie" by blast
  then show ?case
  proof cases
    case other
    then show ?thesis using Cons.IH [of b] Cons.prems by auto
  next
    case busy
    then have "kwait_scan E pid js True s = Inr ((kids, z, x), s')"
      using Cons.prems(5) j by (simp add: proc_lock_eq [OF int free] unlocked)
    then show ?thesis using Cons.IH [of True] Cons.prems(1-4) busy by auto
  next
    case zombie
    then obtain s2 u where "Process_free E j (upd_proc j (\<lambda>p. p\<lparr>p_lock := True\<rparr>) (pushed s)) = Inr (Ok u, s2)"
      "unlock_manual E (proc_lockref j) s2 = Inr s'" "kids" "z = p_pid (k_table s ! j)" "x = p_xstatus (k_table s ! j)"
      using Cons.prems(5) j
      by (auto simp: proc_lock_eq [OF int free] run_inv)
    then show ?thesis
      using reap_section [OF Cons.prems(1) free Cons.prems(3)] zombie by auto
  qed
qed simp

end

lemma find_index_Some: "find_index P xs = Some i \<Longrightarrow> i < length xs \<and> P (xs ! i) \<and> (\<forall>j < i. \<not> P (xs ! j))"
  by (induction P xs arbitrary: i rule: find_index.induct) (auto simp: less_Suc_eq_0_disj split: if_splits)

lemma find_index_None: "find_index P xs = None \<longleftrightarrow> (\<forall>x \<in> set xs. \<not> P x)"
  by (induction P xs rule: find_index.induct) auto

text \<open>What the invariant of the abstract machine says of the running process.\<close>

lemma find_own_pid:
  assumes "ainv (abs_sys s)" "current (cpu s) = Some i"
  shows "find_index (\<lambda>p. p_pid p = p_pid (k_table s ! i)) (k_table s) = Some i"
proof -
  have i: "i < length (k_table s)" "\<exists>q. p_pid (k_table s ! i) = Some q"
    using ainv_run [OF assms(1), of i] assms(2) by auto
  then obtain j where j: "find_index (\<lambda>p. p_pid p = p_pid (k_table s ! i)) (k_table s) = Some j"
    by (cases "find_index (\<lambda>p. p_pid p = p_pid (k_table s ! i)) (k_table s)") (auto simp: find_index_None)
  then show ?thesis
    using find_index_Some [OF j] i ainv_pid_inj [OF assms(1), of i j] by auto
qed

context spin_crate
begin

lemma in_kernel_acquire:
  assumes "in_kernel i s"
  shows "kernel_acquire E s = Inr ((pushed s)\<lparr>kernel_lock := True\<rparr>)"
  using assms by (intro kernel_acquire_eq) (auto simp: in_kernel_def quiet_def quiet_int_ok int_ok_def)

text \<open>Releasing the kernel lock at level 1 ends in a quiet state.\<close>

lemma release_quiet:
  assumes "same_rest ((pushed s)\<lparr>kernel_lock := True, k_table := t\<rparr>) s1" "in_kernel i s"
    "kernel_release E s1 = Inr s2" "list_all (\<lambda>p. \<not> p_lock p) t"
  shows "quiet s2" "k_table s2 = t" "k_pid s2 = k_pid s" "current (cpu s2) = Some i"
proof -
  have "interrupt_off_stack (cpu s1) = 1"
    using same_rest_kernel(7) [OF assms(1)] assms(2) by (simp add: in_kernel_def quiet_def)
  then have s2: "s2 = popped (s1\<lparr>kernel_lock := False\<rparr>)" "interrupt_off_stack (cpu s1) = 1"
    using assms(3) kernel_release_eq [of s1] by auto
  show "quiet s2" "k_table s2 = t" "k_pid s2 = k_pid s" "current (cpu s2) = Some i"
    using same_rest_kernel [OF assms(1)] assms(2,4) s2
    by (auto simp: quiet_def in_kernel_def locks_free_def)
qed

lemma kwait_sleeps:
  assumes own: "in_kernel i s" and inv: "ainv (abs_sys s)"
    and kids: "\<exists>k < length (k_table s). p_parent (k_table s ! k) = p_pid (k_table s ! i)"
    and none: "\<forall>k < length (k_table s). p_parent (k_table s ! k) = p_pid (k_table s ! i) \<longrightarrow>
      p_state (k_table s ! k) \<noteq> Zombie"
    and scan: "kwait_scan E (p_pid (k_table s ! i)) [0..<length (k_table s)] False ((pushed s)\<lparr>kernel_lock := True\<rparr>)
      = Inr ((True, None, x), (pushed s)\<lparr>kernel_lock := True\<rparr>)"
  obtains s' where "kwait E i a regs s = Inr (Wait_sleep, s')" "switched i s'" "current (cpu s') = Some i"
    "astep (A_sleep a) (abs_sys s) ((abs_sys s')\<lparr>a_run := None\<rparr>)"
proof -
  have i: "i < length (k_table s)" "current (cpu s) = Some i" and lvl: "interrupt_off_stack (cpu s) = 0"
    and k: "\<not> kernel_lock s" and free: "\<not> p_lock (k_table s ! i)"
    using own by (auto simp: in_kernel_def quiet_def locks_free_nth)
  let ?s1 = "(pushed s)\<lparr>kernel_lock := True\<rparr>"
  let ?f = "\<lambda>p. p\<lparr>p_sleep_channel := p_pid (k_table s ! i), p_state := Sleeping\<rparr>"
  let ?s4 = "upd_proc i ?f (upd_proc i (\<lambda>p. p\<lparr>p_lock := True\<rparr>) (pushed ?s1))"
  let ?s5 = "upd_proc i ?f (upd_proc i (\<lambda>p. p\<lparr>p_lock := True\<rparr>) (pushed s))"
  have lock: "lock_manual E (proc_lockref i) ?s1 = Inr (upd_proc i (\<lambda>p. p\<lparr>p_lock := True\<rparr>) (pushed ?s1))"
    using lvl free by (intro proc_lock_eq) (auto simp: int_ok_def)
  have release: "kernel_release E ?s4 = Inr ?s5"
  proof -
    have "popped (?s4\<lparr>kernel_lock := False\<rparr>) = ?s5"
      using lvl k by (intro kstate.equality) (auto simp: popped_def pushed_def refresh_prev_def upd_proc_def)
    then show ?thesis using lvl by (subst kernel_release_eq) auto
  qed
  obtain s' where s': "sched i regs (In_kwait a) ?s5 = Inr s'" "switched i s'" "current (cpu s') = Some i"
    "abs_sys s' = a_upd i (\<lambda>_. abs_proc ((?f (k_table s ! i))\<lparr>p_cont := In_kwait a\<rparr>)) (abs_sys s)"
    using in_kernel_switch [OF own, of ?f regs "In_kwait a"] by auto
  have "kwait E i a regs s = Inr (Wait_sleep, s')"
    using find_own_pid [OF inv i(2)] scan
    by (simp add: kwait_def Let_def in_kernel_acquire [OF own] lock release s'(1))
  moreover have "astep (A_sleep a) (abs_sys s) ((abs_sys s')\<lparr>a_run := None\<rparr>)"
  proof -
    have eq: "(abs_sys s')\<lparr>a_run := None\<rparr> = (a_upd i (\<lambda>p. p\<lparr>a_state := Sleeping, a_chan := a_pid p,
        a_cont := In_kwait a\<rparr>) (abs_sys s))\<lparr>a_run := None\<rparr>"
      using i s'(4) by (simp add: a_upd_def abs_proc_def)
    show ?thesis
      unfolding eq by (rule astep.sleep) (use i kids none in \<open>auto cong: conj_cong\<close>)
  qed
  ultimately show ?thesis using that s' by blast
qed

lemma kwait_reaps:
  assumes own: "in_kernel i s" and inv: "ainv (abs_sys s)"
    and j: "j < length (k_table s)" "p_parent (k_table s ! j) = p_pid (k_table s ! i)"
      "p_state (k_table s ! j) = Zombie" "p_pid (k_table s ! j) = Some q"
    and scan: "kwait_scan E (p_pid (k_table s ! i)) [0..<length (k_table s)] False ((pushed s)\<lparr>kernel_lock := True\<rparr>)
      = Inr ((True, Some q, x), s2)"
    and freed: "same_rest (upd_proc j (freed uvm tf) ((pushed s)\<lparr>kernel_lock := True\<rparr>)) s2"
    and run: "kwait E i a regs s = Inr (r, s')"
  shows "r = Wait_done q" "in_kernel i s'" "astep (A_reap j) (abs_sys s) (abs_sys s')"
proof -
  let ?t = "(k_table s)[j := freed uvm tf (k_table s ! j)]"
  have own': "locks_free s" "current (cpu s) = Some i" "i < length (k_table s)"
    using own by (auto simp: in_kernel_def quiet_def)
  obtain s5 where s5: "kernel_release E s2 = Inr s5" "r = Wait_done q"
    and cp: "if a \<noteq> 0 then \<exists>u. copy_out E repr_u32 (p_pagetable (k_table s5 ! i)) a x s5 = Inr (Ok u, s') else s' = s5"
    using run scan by (auto simp: kwait_def Let_def in_kernel_acquire [OF own] run_inv split: if_splits)
  have t: "list_all (\<lambda>p. \<not> p_lock p) ?t"
    using own'(1) by (auto simp: locks_free_def list_all_length nth_upd)
  have rel: "quiet s5" "k_table s5 = ?t" "k_pid s5 = k_pid s" "current (cpu s5) = Some i"
    using release_quiet [OF _ own s5(1) t] freed by (auto simp: upd_proc_def)
  have "same_sys s5 s'"
  proof (cases "a = 0")
    case False
    with cp have "same_rest s5 s'" using keepsD [OF copy_out_keeps quiet_int_ok [OF rel(1)]] by auto
    then show ?thesis by (rule same_rest_same_sys)
  qed (use cp in simp)
  then show "in_kernel i s'"
    using rel own'(3) by (subst same_sys_in_kernel) (auto simp: in_kernel_def)
  have "abs_sys s' = a_upd j (\<lambda>p. p\<lparr>a_state := Unused, a_pid := None, a_parent := None, a_chan := None,
      a_xstatus := 0\<rparr>) (abs_sys s)"
    using rel j(1) own'(2) same_sys_abs [OF \<open>same_sys s5 s'\<close>]
    by (simp add: abs_sys_def a_upd_def map_update) (simp add: abs_proc_def freed_def)
  then show "astep (A_reap j) (abs_sys s) (abs_sys s')"
    using astep.reap [of "abs_sys s" i j] own' j by simp
qed (use run scan in \<open>auto simp: kwait_def Let_def in_kernel_acquire [OF own] run_inv split: if_splits\<close>)

text \<open>What \<open>kwait\<close> returns, and which steps of the abstract machine it takes.\<close>

lemma kwait_refines:
  assumes own: "in_kernel i s" and inv: "ainv (abs_sys s)" and run: "kwait E i a regs s = Inr (r, s')"
  shows "r = Wait_sleep \<and> switched i s' \<and> current (cpu s') = Some i \<and>
       astep (A_sleep a) (abs_sys s) ((abs_sys s')\<lparr>a_run := None\<rparr>) \<or>
     r = Wait_done (- 1) \<and> in_kernel i s' \<and> abs_sys s' = abs_sys s \<and>
       (\<forall>k < length (k_table s). p_parent (k_table s ! k) \<noteq> p_pid (k_table s ! i)) \<or>
     (\<exists>j q. j < length (k_table s) \<and> p_parent (k_table s ! j) = p_pid (k_table s ! i) \<and>
       p_state (k_table s ! j) = Zombie \<and> p_pid (k_table s ! j) = Some q \<and>
       r = Wait_done q \<and> in_kernel i s' \<and> astep (A_reap j) (abs_sys s) (abs_sys s'))"
proof -
  let ?s1 = "(pushed s)\<lparr>kernel_lock := True\<rparr>" and ?pid = "p_pid (k_table s ! i)"
  have lvl: "interrupt_off_stack (cpu s) = 0" and free: "locks_free s" using own by (auto simp: in_kernel_def quiet_def)
  obtain kids z x s2 where scan: "kwait_scan E ?pid [0..<length (k_table s)] False ?s1 = Inr ((kids, z, x), s2)"
    using run by (auto simp: kwait_def Let_def in_kernel_acquire [OF own] run_inv)
  have "critical ?s1" "locks_free ?s1" "interrupt_off_stack (cpu ?s1) + 1 < 0xffffffff"
    using lvl free by (auto simp: critical_def int_ok_def locks_free_def)
  note cases = kwait_scan_cases [OF this _ scan]
  show ?thesis
  proof (cases "\<exists>j < length (k_table s). p_parent (k_table s ! j) = ?pid \<and> p_state (k_table s ! j) = Zombie")
    case True
    then obtain j uvm tf where j: "j < length (k_table s)" "p_parent (k_table s ! j) = ?pid"
      "p_state (k_table s ! j) = Zombie" "z = p_pid (k_table s ! j)" "kids"
      "same_rest (upd_proc j (freed uvm tf) ?s1) s2"
      using cases by auto
    obtain q where q: "p_pid (k_table s ! j) = Some q"
      using ainvD(1) [OF inv, of j] j(1,3) by auto
    show ?thesis
      using kwait_reaps [OF own inv j(1-3) q _ j(6) run] scan j q by auto
  next
    case False
    then have none: "s2 = ?s1" "z = None" "kids = (\<exists>k < length (k_table s). p_parent (k_table s ! k) = ?pid)"
      using cases by auto
    show ?thesis
    proof (cases kids)
      case True
      then obtain t where "kwait E i a regs s = Inr (Wait_sleep, t)" "switched i t" "current (cpu t) = Some i"
        "astep (A_sleep a) (abs_sys s) ((abs_sys t)\<lparr>a_run := None\<rparr>)"
        using kwait_sleeps [OF own inv, of x a regs] scan none False by auto
      then show ?thesis using run by simp
    next
      case kids: False
      then obtain s5 where rel: "kernel_release E ?s1 = Inr s5" "r = Wait_done (- 1)" "s' = println [ascii ''no kids''] s5"
        using run scan none by (auto simp: kwait_def Let_def in_kernel_acquire [OF own] run_inv)
      have "?s1\<lparr>k_table := k_table s\<rparr> = ?s1" by (intro kstate.equality) auto
      then have "same_rest (?s1\<lparr>k_table := k_table s\<rparr>) ?s1" by (simp only: same_rest_refl)
      note quiet = release_quiet [OF this own rel(1) free [unfolded locks_free_def]]
      then have "in_kernel i s5" "abs_sys s5 = abs_sys s" using own by (auto simp: in_kernel_def abs_sys_def)
      then show ?thesis using rel(2,3) none kids by (auto simp: println_eq)
    qed
  qed
qed

text \<open>Without a zombie child, \<open>kwait\<close> always comes to an end: it sleeps or finds no child.\<close>

lemma kwait_without_zombie:
  assumes own: "in_kernel i s" and inv: "ainv (abs_sys s)"
    and none: "\<forall>k < length (k_table s). p_parent (k_table s ! k) = p_pid (k_table s ! i) \<longrightarrow>
      p_state (k_table s ! k) \<noteq> Zombie"
  shows "\<exists>r s'. kwait E i a regs s = Inr (r, s')"
proof -
  let ?s1 = "(pushed s)\<lparr>kernel_lock := True\<rparr>" and ?pid = "p_pid (k_table s ! i)"
  have s1: "critical ?s1" "locks_free ?s1"
    using own by (auto simp: in_kernel_def quiet_def critical_def int_ok_def locks_free_def)
  have scan: "kwait_scan E ?pid [0..<length (k_table s)] False ?s1 =
      Inr ((\<exists>j < length (k_table s). p_parent (k_table s ! j) = ?pid, None, 0), ?s1)"
    using kwait_scan_none [OF s1, of "[0..<length (k_table s)]" ?pid False] none by auto
  show ?thesis
  proof (cases "\<exists>k < length (k_table s). p_parent (k_table s ! k) = ?pid")
    case True
    with scan have "kwait_scan E ?pid [0..<length (k_table s)] False ?s1 = Inr ((True, None, 0), ?s1)" by auto
    from kwait_sleeps [OF own inv True none this, of a regs] show ?thesis by blast
  next
    case False
    have "\<exists>s'. kernel_release E ?s1 = Inr s'" using own by (subst kernel_release_eq) (auto simp: in_kernel_def quiet_def)
    then show ?thesis
      using scan False by (auto simp: kwait_def Let_def in_kernel_acquire [OF own])
  qed
qed

end

end
