(* ===== verification/ForkRefine.thy ===== *)
theory ForkRefine
  imports WaitRefine
begin

text \<open>
  \<open>allocproc\<close>, \<open>kfork\<close> and \<open>kexec\<close> against the abstract machine. Both allocate and copy
  memory between their changes of the child's slot; \<open>slot_like\<close> says that a state is another
  one with one slot replaced, up to memory and the fields the abstraction forgets.
\<close>

section \<open>Replacing one slot\<close>

definition slot_like :: "nat \<Rightarrow> ('h, 'z) kstate_scheme \<Rightarrow> Process \<Rightarrow> ('h, 'z) kstate_scheme \<Rightarrow> bool" where
  "slot_like c s p s' \<longleftrightarrow> (\<exists>q. same_rest (s\<lparr>k_table := (k_table s)[c := q]\<rparr>) s' \<and>
     abs_proc q = abs_proc p \<and> p_lock q = p_lock p)"

lemma abs_proc_eq_iff: "abs_proc p = abs_proc q \<longleftrightarrow> p_state p = p_state q \<and> p_pid p = p_pid q \<and>
    p_parent p = p_parent q \<and> p_sleep_channel p = p_sleep_channel q \<and> p_xstatus p = p_xstatus q \<and>
    p_cont p = p_cont q \<and> p_quants p = p_quants q"
  by (simp add: abs_proc_def)

lemma slot_like_start: "slot_like c s (k_table s ! c) s"
  unfolding slot_like_def by (intro exI [of _ "k_table s ! c"]) simp

lemma slot_like_same_rest: "slot_like c s p s' \<Longrightarrow> same_rest s' s'' \<Longrightarrow> slot_like c s p s''"
  unfolding slot_like_def using same_rest_trans by blast

lemma slot_like_upd:
  assumes "slot_like c s p s'" "c < length (k_table s)"
    and "\<And>q. abs_proc q = abs_proc p \<Longrightarrow> p_lock q = p_lock p \<Longrightarrow>
      abs_proc (f q) = abs_proc p' \<and> p_lock (f q) = p_lock p'"
  shows "slot_like c s p' (upd_proc c f s')"
proof -
  obtain q where q: "same_rest (s\<lparr>k_table := (k_table s)[c := q]\<rparr>) s'" "abs_proc q = abs_proc p" "p_lock q = p_lock p"
    using assms(1) by (auto simp: slot_like_def)
  have "upd_proc c f (s\<lparr>k_table := (k_table s)[c := q]\<rparr>) = s\<lparr>k_table := (k_table s)[c := f q]\<rparr>"
    using assms(2) by (simp add: upd_proc_def)
  then show ?thesis
    using same_rest_upd_proc [OF q(1), of c f] assms(3) [OF q(2,3)] by (auto simp: slot_like_def)
qed

lemma slot_like_int: "slot_like c s p s' \<Longrightarrow> int_ok s \<Longrightarrow> int_ok s'"
  unfolding slot_like_def using same_rest_int_ok [of "s\<lparr>k_table := t\<rparr>" s' for t] by (auto simp: int_ok_def)

lemma slot_like_nth:
  assumes "slot_like c s p s'" "c < length (k_table s)"
  shows "abs_proc (k_table s' ! c) = abs_proc p" "p_lock (k_table s' ! c) = p_lock p"
    "j \<noteq> c \<Longrightarrow> k_table s' ! j = k_table s ! j" "length (k_table s') = length (k_table s)"
    "interrupt_off_stack (cpu s') = interrupt_off_stack (cpu s)" "current (cpu s') = current (cpu s)"
    "k_pid s' = k_pid s" "kernel_once s' = kernel_once s" "kernel_lock s' = kernel_lock s"
proof -
  obtain q where q: "same_rest (s\<lparr>k_table := (k_table s)[c := q]\<rparr>) s'" "abs_proc q = abs_proc p" "p_lock q = p_lock p"
    using assms(1) by (auto simp: slot_like_def)
  note eq = same_rest_kernel [OF q(1)]
  show "abs_proc (k_table s' ! c) = abs_proc p" "p_lock (k_table s' ! c) = p_lock p"
    "j \<noteq> c \<Longrightarrow> k_table s' ! j = k_table s ! j" "length (k_table s') = length (k_table s)"
    "interrupt_off_stack (cpu s') = interrupt_off_stack (cpu s)" "current (cpu s') = current (cpu s)"
    "k_pid s' = k_pid s" "kernel_once s' = kernel_once s" "kernel_lock s' = kernel_lock s"
    using eq q(2,3) assms(2) by simp_all
qed

lemma same_rest_pushed: "same_rest s s' \<Longrightarrow> same_rest (pushed s) (pushed s')"
  by (simp add: same_rest_def)

context spin_crate
begin

lemma slot_like_lock:
  assumes "slot_like c s p s'" "c < length (k_table s)" "int_ok s" "\<not> p_lock p"
  shows "lock_manual E (proc_lockref c) s' = Inr (upd_proc c (\<lambda>p. p\<lparr>p_lock := True\<rparr>) (pushed s'))"
    "slot_like c (pushed s) (p\<lparr>p_lock := True\<rparr>) (upd_proc c (\<lambda>p. p\<lparr>p_lock := True\<rparr>) (pushed s'))"
proof -
  show "lock_manual E (proc_lockref c) s' = Inr (upd_proc c (\<lambda>p. p\<lparr>p_lock := True\<rparr>) (pushed s'))"
    using slot_like_nth(2) [OF assms(1,2)] assms(4) slot_like_int [OF assms(1,3)] by (intro proc_lock_eq) auto
  have "pushed (s\<lparr>k_table := t\<rparr>) = (pushed s)\<lparr>k_table := t\<rparr>" for t
    by (simp add: pushed_def refresh_prev_def)
  then have "slot_like c (pushed s) p (pushed s')"
    using assms(1) same_rest_pushed unfolding slot_like_def by (metis k_pushed(1))
  then show "slot_like c (pushed s) (p\<lparr>p_lock := True\<rparr>) (upd_proc c (\<lambda>p. p\<lparr>p_lock := True\<rparr>) (pushed s'))"
    using assms(2) by (auto intro: slot_like_upd)
qed

lemma slot_like_unlock:
  assumes "slot_like c (pushed s) p s'" "c < length (k_table s)" "critical s"
  shows "unlock_manual E (proc_lockref c) s' = Inr (popped (upd_proc c (\<lambda>p. p\<lparr>p_lock := False\<rparr>) s'))"
    "slot_like c s (p\<lparr>p_lock := False\<rparr>) (popped (upd_proc c (\<lambda>p. p\<lparr>p_lock := False\<rparr>) s'))"
proof -
  have lvl: "interrupt_off_stack (cpu s) + 1 \<noteq> 0" "interrupt_off_stack (cpu s) + 1 \<noteq> 1"
    using assms(3) pushed_level [of s] by (auto simp: critical_def)
  show "unlock_manual E (proc_lockref c) s' = Inr (popped (upd_proc c (\<lambda>p. p\<lparr>p_lock := False\<rparr>) s'))"
    using slot_like_nth(5) [OF assms(1)] assms(2) lvl by (intro proc_unlock_eq) auto
  have "slot_like c (pushed s) (p\<lparr>p_lock := False\<rparr>) (upd_proc c (\<lambda>p. p\<lparr>p_lock := False\<rparr>) s')" (is "slot_like c _ _ ?u")
    using assms(1,2) by (auto intro: slot_like_upd)
  then obtain q where q: "same_rest ((pushed s)\<lparr>k_table := (k_table s)[c := q]\<rparr>) ?u"
    "abs_proc q = abs_proc p" "\<not> p_lock q"
    by (auto simp: slot_like_def)
  have "popped ((pushed s)\<lparr>k_table := t\<rparr>) = s\<lparr>k_table := t\<rparr>" for t
  proof -
    have "(pushed s)\<lparr>k_table := t\<rparr> = pushed (s\<lparr>k_table := t\<rparr>)" by (simp add: pushed_def refresh_prev_def)
    then show ?thesis
      using assms(3) popped_pushed [of "s\<lparr>k_table := t\<rparr>"] by (simp add: critical_def int_ok_def refresh_prev_inner)
  qed
  then have "same_rest (s\<lparr>k_table := (k_table s)[c := q]\<rparr>) (popped ?u)"
    using same_rest_popped [OF q(1)] lvl(2) by simp
  then show "slot_like c s (p\<lparr>p_lock := False\<rparr>) (popped ?u)"
    using q(2,3) by (auto simp: slot_like_def)
qed

section \<open>allocproc\<close>

lemma slot_like_trapframe:
  assumes "slot_like c s p s'" "c < length (k_table s)" "int_ok s" "set_trapframe E c tf s' = Inr s''"
  shows "slot_like c s p s''"
proof -
  obtain a where "same_rest (upd_proc c (\<lambda>p. p\<lparr>p_trapframe := a\<rparr>) s') s''"
    using set_trapframe_table [OF assms(4) slot_like_int [OF assms(1,3)]] by blast
  moreover have "slot_like c s p (upd_proc c (\<lambda>p. p\<lparr>p_trapframe := a\<rparr>) s')"
    by (rule slot_like_upd [OF assms(1,2)]) (simp add: abs_proc_eq_iff)
  ultimately show ?thesis by (rule slot_like_same_rest [rotated])
qed

lemma slot_like_pagetable:
  assumes "slot_like c s p s'" "c < length (k_table s)" "int_ok s" "set_pagetable E c uvm s' = Inr s''"
  shows "slot_like c s p s''"
proof -
  have "same_rest (upd_proc c (\<lambda>p. p\<lparr>p_pagetable := uvm\<rparr>) s') s''"
    using set_pagetable_table [OF assms(4) slot_like_int [OF assms(1,3)]] .
  moreover have "slot_like c s p (upd_proc c (\<lambda>p. p\<lparr>p_pagetable := uvm\<rparr>) s')"
    by (rule slot_like_upd [OF assms(1,2)]) (simp add: abs_proc_eq_iff)
  ultimately show ?thesis by (rule slot_like_same_rest [rotated])
qed

lemma allocproc_cases:
  assumes run: "allocproc E s = Inr (r, s')" and "int_ok s" "locks_free s"
  shows "r = None \<and> s' = s \<and> (\<forall>p \<in> set (k_table s). p_state p \<noteq> Unused) \<or>
    (\<exists>c. r = Some c \<and> c < length (k_table s) \<and> p_state (k_table s ! c) = Unused \<and>
      (\<forall>j < c. p_state (k_table s ! j) \<noteq> Unused) \<and> k_pid s \<noteq> 0xffffffff \<and>
      slot_like c (pushed (s\<lparr>k_pid := k_pid s + 1\<rparr>))
        ((k_table s ! c)\<lparr>p_pid := Some (k_pid s), p_state := Used, p_lock := True, p_cont := In_forkret\<rparr>) s')"
proof (cases "find_index (\<lambda>p. p_state p = Unused) (k_table s)")
  case None
  then have "r = None \<and> s' = s" using run by (simp add: allocproc_def)
  then show ?thesis using None by (simp add: find_index_None)
next
  case (Some c)
  note c = find_index_Some [OF Some]
  let ?s = "s\<lparr>k_pid := k_pid s + 1\<rparr>"
  let ?p = "(k_table s ! c)\<lparr>p_pid := Some (k_pid s), p_state := Used\<rparr>"
  let ?s2 = "upd_proc c (\<lambda>p. p\<lparr>p_state := Used\<rparr>) ((upd_proc c (\<lambda>p. p\<lparr>p_pid := Some (k_pid s)\<rparr>) s)\<lparr>k_pid := k_pid s + 1\<rparr>)"
  have no: "k_pid s \<noteq> 0xffffffff" using run Some by (auto simp: allocproc_def Let_def add_chk_one_cases)
  obtain s3 s4 sp where s: "set_trapframe E c Trapframe_default ?s2 = Inr s3"
    "lock_manual E (proc_lockref c) s3 = Inr s4" "r = Some c"
    "s' = upd_proc c (\<lambda>p. p\<lparr>p_context := Context_zero\<lparr>ctx_ra := fn_forkret E, ctx_sp := sp\<rparr>, p_cont := In_forkret\<rparr>) s4"
    using run Some no by (auto simp: allocproc_def Let_def add_chk_one_cases run_inv)
  have int: "int_ok ?s" and len: "c < length (k_table ?s)" using assms(2) c by (auto simp: int_ok_def)
  have "?s2 = ?s\<lparr>k_table := (k_table s)[c := ?p]\<rparr>"
    using c by (intro kstate.equality) (auto simp: upd_proc_def)
  then have 2: "slot_like c ?s ?p ?s2" unfolding slot_like_def by (intro exI [of _ ?p]) simp
  have 3: "slot_like c ?s ?p s3" by (rule slot_like_trapframe [OF 2 len int s(1)])
  have "\<not> p_lock ?p" using locks_free_nth [OF assms(3)] c by simp
  note 4 = slot_like_lock [OF 3 len int this]
  have s4: "s4 = upd_proc c (\<lambda>p. p\<lparr>p_lock := True\<rparr>) (pushed s3)" using 4(1) s(2) by simp
  have "slot_like c (pushed ?s) ((k_table s ! c)\<lparr>p_pid := Some (k_pid s), p_state := Used, p_lock := True, p_cont := In_forkret\<rparr>) s'"
    unfolding s(4) s4 by (rule slot_like_upd [OF 4(2)]) (use len in \<open>auto simp: abs_proc_eq_iff\<close>)
  then show ?thesis using s(3) c no by auto
qed

section \<open>kfork\<close>

lemma slot_like_trapframe_set [simp]: "slot_like c s p (trapframe_set i f v s') = slot_like c s p s'"
  by (simp add: slot_like_def same_rest_def trapframe_set_def) 

lemma slot_like_keeps:
  "slot_like c s p s' \<Longrightarrow> int_ok s \<Longrightarrow> keeps s' m \<Longrightarrow> m = Inr (r, s'') \<Longrightarrow> slot_like c s p s''"
  using slot_like_same_rest slot_like_int keepsD by metis

text \<open>The second half of \<open>kfork\<close>: the child is published.\<close>

lemma publish_child:
  assumes like: "slot_like c (pushed s) p s1" and c: "c < length (k_table s)" and crit: "critical s"
    and lvl: "interrupt_off_stack (cpu s) + 1 < 0xffffffff"
  shows "bind_ok (unlock_manual E (proc_lockref c) s1) (\<lambda>s9.
      let s10 = upd_proc c (\<lambda>p. p\<lparr>p_parent := p_pid (k_table s9 ! i)\<rparr>) s9 in
      bind_ok (lock_manual E (proc_lockref c) s10) (\<lambda>s11.
      let s12 = upd_proc c (\<lambda>p. p\<lparr>p_state := Runnable\<rparr>) s11 in
      bind_ok (unlock_manual E (proc_lockref c) s12) f)) = Inr y \<Longrightarrow>
    \<exists>s2. slot_like c s (p\<lparr>p_lock := False, p_parent := (if i = c then p_pid p else p_pid (k_table s ! i)),
      p_state := Runnable\<rparr>) s2 \<and> f s2 = Inr y"
proof -
  let ?s9 = "popped (upd_proc c (\<lambda>p. p\<lparr>p_lock := False\<rparr>) s1)"
  let ?par = "if i = c then p_pid p else p_pid (k_table s ! i)"
  let ?s10 = "upd_proc c (\<lambda>p. p\<lparr>p_parent := p_pid (k_table ?s9 ! i)\<rparr>) ?s9"
  let ?s12 = "upd_proc c (\<lambda>p. p\<lparr>p_state := Runnable\<rparr>) (upd_proc c (\<lambda>p. p\<lparr>p_lock := True\<rparr>) (pushed ?s10))"
  note 9 = slot_like_unlock [OF like c crit]
  have par: "p_pid (k_table ?s9 ! i) = ?par"
    using slot_like_nth(1,3) [OF 9(2) c] by (auto simp: abs_proc_eq_iff)
  have 10: "slot_like c s (p\<lparr>p_lock := False, p_parent := ?par\<rparr>) ?s10"
    unfolding par by (rule slot_like_upd [OF 9(2) c]) (auto simp: abs_proc_eq_iff)
  note 11 = slot_like_lock [OF 10 c critical_int_ok [OF crit]]
  have 12: "slot_like c (pushed s) (p\<lparr>p_lock := True, p_parent := ?par, p_state := Runnable\<rparr>) ?s12"
    by (rule slot_like_upd [OF 11(2)]) (use c in \<open>auto simp: abs_proc_eq_iff\<close>)
  note 13 = slot_like_unlock [OF 12 c crit]
  assume "bind_ok (unlock_manual E (proc_lockref c) s1) (\<lambda>s9.
      let s10 = upd_proc c (\<lambda>p. p\<lparr>p_parent := p_pid (k_table s9 ! i)\<rparr>) s9 in
      bind_ok (lock_manual E (proc_lockref c) s10) (\<lambda>s11.
      let s12 = upd_proc c (\<lambda>p. p\<lparr>p_state := Runnable\<rparr>) s11 in
      bind_ok (unlock_manual E (proc_lockref c) s12) f)) = Inr y"
  then have "f (popped (upd_proc c (\<lambda>p. p\<lparr>p_lock := False\<rparr>) ?s12)) = Inr y"
    using 9(1) 11(1) 13(1) by (simp add: Let_def)
  moreover have "slot_like c s (p\<lparr>p_lock := False, p_parent := ?par, p_state := Runnable\<rparr>)
      (popped (upd_proc c (\<lambda>p. p\<lparr>p_lock := False\<rparr>) ?s12))"
    using 13(2) by (simp add: slot_like_def abs_proc_eq_iff)
  ultimately show ?thesis by blast
qed

lemma slot_like_release:
  assumes like: "slot_like c ((pushed s)\<lparr>kernel_lock := True, k_pid := n\<rparr>) p s1"
    and own: "in_kernel i s" and c: "c < length (k_table s)" and free: "\<not> p_lock p"
    and rel: "kernel_release E s1 = Inr s2"
  shows "quiet s2" "abs_sys s2 = (a_upd c (\<lambda>_. abs_proc p) (abs_sys s))\<lparr>a_next := n\<rparr>"
    "length (k_table s2) = length (k_table s)" "current (cpu s2) = Some i"
proof -
  let ?s = "(pushed s)\<lparr>kernel_lock := True, k_pid := n\<rparr>"
  have eq: "abs_proc (k_table s1 ! c) = abs_proc p" "\<not> p_lock (k_table s1 ! c)"
    "\<And>j. j \<noteq> c \<Longrightarrow> k_table s1 ! j = k_table s ! j" "length (k_table s1) = length (k_table s)"
    "interrupt_off_stack (cpu s1) = 1" "current (cpu s1) = Some i" "k_pid s1 = n" "kernel_once s1"
    using slot_like_nth [OF like] c own free by (auto simp: in_kernel_def quiet_def)
  then have s2: "s2 = popped (s1\<lparr>kernel_lock := False\<rparr>)"
    using rel kernel_release_eq [of s1] by auto
  have "locks_free s1"
    unfolding locks_free_def list_all_length
  proof (intro allI impI)
    fix j assume "j < length (k_table s1)"
    then show "\<not> p_lock (k_table s1 ! j)"
      using eq own locks_free_nth [of s j] by (cases "j = c") (auto simp: in_kernel_def quiet_def)
  qed
  then show "quiet s2" "length (k_table s2) = length (k_table s)" "current (cpu s2) = Some i"
    using eq by (auto simp: s2 quiet_def locks_free_def)
  have "map abs_proc (k_table s1) = (map abs_proc (k_table s))[c := abs_proc p]"
    using eq c by (intro nth_equalityI) (auto simp: nth_upd)
  then show "abs_sys s2 = (a_upd c (\<lambda>_. abs_proc p) (abs_sys s))\<lparr>a_next := n\<rparr>"
    using eq own by (simp add: s2 abs_sys_def a_upd_def in_kernel_def)
qed

lemma kfork_refines:
  assumes own: "in_kernel i s" and inv: "ainv (abs_sys s)" and run: "kfork E i s = Inr (Ok pid, s')"
  shows "pid = k_pid s" "in_kernel i s'" "\<exists>c. astep (A_fork c) (abs_sys s) (abs_sys s')"
proof -
  let ?s1 = "(pushed s)\<lparr>kernel_lock := True\<rparr>"
  let ?b = "(pushed s)\<lparr>kernel_lock := True, k_pid := k_pid s + 1\<rparr>"
  have lvl: "interrupt_off_stack (cpu s) = 0" and free: "locks_free s" and i: "i < length (k_table s)" "current (cpu s) = Some i"
    using own by (auto simp: in_kernel_def quiet_def)
  have int: "int_ok ?s1" "locks_free ?s1" "critical ?b" "int_ok (pushed ?b)" "interrupt_off_stack (cpu ?b) + 1 < 0xffffffff"
    using lvl free by (auto simp: int_ok_def critical_def locks_free_def)
  obtain c s2 where s2: "allocproc E ?s1 = Inr (Some c, s2)"
    using run by (auto simp: kfork_def in_kernel_acquire [OF own] run_inv)
  let ?p = "(k_table s ! c)\<lparr>p_pid := Some (k_pid s), p_state := Used, p_lock := True, p_cont := In_forkret\<rparr>"
  have c: "c < length (k_table s)" "p_state (k_table s ! c) = Unused" "k_pid s \<noteq> 0xffffffff"
    and 2: "slot_like c (pushed ?b) ?p s2"
    using allocproc_cases [OF s2 int(1,2)] by auto
  have "c \<noteq> i" using ainv_run(2) [OF inv, of i] i c(2) by auto
  have lc: "c < length (k_table (pushed ?b))" using c by simp
  obtain s3 s4 s5 s6 uvm where r: "set_trapframe E c (Trapframe_read (mem s2) (p_trapframe (k_table s2 ! i))) s2 = Inr s3"
    "Uvm_clone E (p_pagetable (k_table s3 ! i)) s3 = Inr (uvm, s4)"
    "Uvm_init_proc E uvm (p_trapframe (k_table s4 ! c)) s4 = Inr (Ok (), s5)"
    "set_pagetable E c uvm s5 = Inr s6"
    using run by (auto simp: kfork_def in_kernel_acquire [OF own] s2 run_inv Let_def)
  have "slot_like c (pushed ?b) ?p s3" by (rule slot_like_trapframe [OF 2 lc int(4) r(1)])
  then have "slot_like c (pushed ?b) ?p s5"
    using r(2,3) slot_like_keeps [OF _ int(4) Uvm_clone_keeps] slot_like_keeps [OF _ int(4) Uvm_init_proc_keeps] by blast
  then have 6: "slot_like c (pushed ?b) ?p s6" by (rule slot_like_pagetable [OF _ lc int(4) r(4)])
  let ?s7 = "trapframe_set c tf_a0 0 s6"
  have 7: "p_pid (k_table ?s7 ! c) = Some (k_pid s)"
    using slot_like_nth(1) [OF 6 lc] by (simp add: trapframe_set_def abs_proc_eq_iff)
  let ?s8 = "trapframe_set i tf_a0 (k_pid s) ?s7"
  let ?f = "\<lambda>s13. let res = (case p_pid (k_table s13 ! c) of None \<Rightarrow> Err | Some pid \<Rightarrow> Ok pid) in
    bind_ok (kernel_release E s13) (\<lambda>s14. Inr (res, s14))"
  have 8: "slot_like c (pushed ?b) ?p ?s8" using 6 by simp
  have "bind_ok (unlock_manual E (proc_lockref c) ?s8) (\<lambda>s9.
      let s10 = upd_proc c (\<lambda>p. p\<lparr>p_parent := p_pid (k_table s9 ! i)\<rparr>) s9 in
      bind_ok (lock_manual E (proc_lockref c) s10) (\<lambda>s11.
      let s12 = upd_proc c (\<lambda>p. p\<lparr>p_state := Runnable\<rparr>) s11 in
      bind_ok (unlock_manual E (proc_lockref c) s12) ?f)) = Inr (Ok pid, s')"
    using run 7 by (simp add: kfork_def in_kernel_acquire [OF own] s2 r Let_def)
  from publish_child [OF 8 _ int(3,5) this] c(1) \<open>c \<noteq> i\<close> obtain s13 where
    13: "slot_like c ?b (?p\<lparr>p_lock := False, p_parent := p_pid (k_table s ! i), p_state := Runnable\<rparr>) s13"
    and f: "?f s13 = Inr (Ok pid, s')" by auto
  have "p_pid (k_table s13 ! c) = Some (k_pid s)"
    using slot_like_nth(1) [OF 13] c(1) by (simp add: abs_proc_eq_iff)
  then have rel: "kernel_release E s13 = Inr s'" and "pid = k_pid s" using f by (auto simp: run_inv)
  then show "pid = k_pid s" by simp
  note end_state = slot_like_release [OF 13 own c(1) _ rel, simplified]
  then show "in_kernel i s'" using i by (simp add: in_kernel_def)
  have "abs_sys s' = (a_upd c (\<lambda>p. p\<lparr>a_state := Runnable, a_pid := Some (a_next (abs_sys s)),
      a_parent := a_pid (a_tab (abs_sys s) ! i), a_cont := In_forkret\<rparr>) (abs_sys s))\<lparr>a_next := a_next (abs_sys s) + 1\<rparr>"
    using end_state(2) c(1) i by (simp add: a_upd_def abs_proc_def)
  then show "\<exists>c. astep (A_fork c) (abs_sys s) (abs_sys s')"
    using astep.fork [of "abs_sys s" i c] c i by auto
qed

end

end
