(* ===== verification/TrapRefine.thy ===== *)
theory TrapRefine
  imports ForkRefine
begin

text \<open>
  The system calls, the trap handlers and the resumption of a process against the abstract
  machine: each either returns to user mode with the system quiet, or hands the processor to the
  scheduler, and takes the corresponding steps of \<open>ProcAbs\<close>.
\<close>

section \<open>kexec\<close>

context spin_crate
begin

lemma exec_args_keeps:
  fixes s :: "('h, 'z) kstate_scheme"
  shows "keeps s (exec_args E uv base args sp s)"
proof (induction args arbitrary: sp s)
  case (Cons a args)
  show ?case
    by (auto intro!: keeps_intros keeps_bind [OF copy_out_cont_keeps] keeps_bind [OF Cons.IH] simp: Let_def
        split: rresult.splits)
qed (auto intro!: keeps_intros)

lemma exec_stack_keeps: "keeps s (exec_stack E uv argv s)"
  unfolding exec_stack_def
  by (auto intro!: keeps_intros keeps_bind [OF exec_args_keeps] keeps_bind [OF copy_out_cont_keeps] simp: Let_def
      split: rresult.splits)

lemma exec_fail_keeps: "keeps s (exec_fail E uv s)"
  unfolding exec_fail_def by (auto intro!: keeps_bind [OF Uvm_drop_keeps] keeps_intros)

lemma exec_build_keeps: "keeps s (exec_build E i img argv s)"
  unfolding exec_build_def
  by (auto intro!: keeps_intros keeps_bind [OF Uvm_new_keeps] keeps_bind [OF Uvm_init_proc_keeps]
      keeps_bind [OF Uvm_alloc_keeps] keeps_bind [OF Uvm_load_keeps] keeps_bind [OF Uvm_grow_keeps]
      keeps_bind [OF exec_stack_keeps] keeps_bind [OF exec_fail_keeps] split: rresult.splits)

lemma slot_like_self:
  assumes "slot_like i s (k_table s ! i) s'" "i < length (k_table s)"
  shows "abs_sys s' = abs_sys s" "quiet s' = quiet s"
    "current (cpu s') = current (cpu s)" "length (k_table s') = length (k_table s)"
proof -
  note eq = slot_like_nth [OF assms]
  have nth: "abs_proc (k_table s' ! j) = abs_proc (k_table s ! j)" "p_lock (k_table s' ! j) = p_lock (k_table s ! j)" for j
    using eq(1-3) by (cases "j = i"; simp)+
  have "map abs_proc (k_table s') = map abs_proc (k_table s)" using eq(4) nth by (intro nth_equalityI) auto
  then show "abs_sys s' = abs_sys s" using eq by (simp add: abs_sys_def)
  show "quiet s' = quiet s" using eq nth by (simp add: quiet_def locks_free_def list_all_length)
qed (use slot_like_nth [OF assms] in auto)

lemma kexec_slot:
  assumes like: "slot_like i s p t" and int: "int_ok s" and i: "i < length (k_table s)"
    and run: "kexec E i path argv t = Inr (r, t')"
  shows "slot_like i s p t'"
proof -
  obtain img rb s1 where b: "exec_build E i img argv t = Inr (rb, s1)"
    and cont: "rb = Err \<and> t' = s1 \<or> (\<exists>uv sp s4. rb = Ok (uv, sp) \<and>
      set_pagetable E i uv (trapframe_set i tf_a1 sp (trapframe_set i tf_a0 (of_nat (length argv)) s1)) = Inr s4 \<and>
      t' = trapframe_set i epc USER_START (trapframe_set i tf_sp sp s4))"
    using run by (auto simp: kexec_def Let_def run_inv)
  have 1: "slot_like i s p s1" using slot_like_keeps [OF like int exec_build_keeps b] .
  show ?thesis
    using cont
  proof (elim disjE exE conjE)
    fix uv sp s4
    let ?s3 = "trapframe_set i tf_a1 sp (trapframe_set i tf_a0 (of_nat (length argv)) s1)"
    assume s4: "set_pagetable E i uv ?s3 = Inr s4"
      and t': "t' = trapframe_set i epc USER_START (trapframe_set i tf_sp sp s4)"
    have "slot_like i s p ?s3" using 1 by simp
    from slot_like_pagetable [OF this i int s4] show ?thesis by (simp add: t')
  qed (use 1 in simp)
qed

lemma kexec_table:
  assumes "in_kernel i s" "kexec E i path argv s = Inr (r, s')"
  shows "in_kernel i s'" "abs_sys s' = abs_sys s"
proof -
  have int: "int_ok s" and i: "i < length (k_table s)" using assms(1) by (auto simp: in_kernel_def quiet_int_ok)
  from slot_like_self [OF kexec_slot [OF slot_like_start int i assms(2)] i]
  show "in_kernel i s'" "abs_sys s' = abs_sys s" using assms(1) by (auto simp: in_kernel_def)
qed

section \<open>System calls\<close>

lemma same_sys_keeps:
  "in_kernel i s \<Longrightarrow> keeps s m \<Longrightarrow> m = Inr (r, s') \<Longrightarrow> in_kernel i s' \<and> abs_sys s' = abs_sys s"
  using keepsD [of s m r s'] same_rest_same_sys same_sys_in_kernel same_sys_abs
  by (metis in_kernel_def quiet_int_ok)

lemma in_kernel_trapframe_set [simp]: "in_kernel i (trapframe_set j f v s) = in_kernel i s"
  and abs_trapframe_set [simp]: "abs_sys (trapframe_set j f v s) = abs_sys s"
  by (simp_all add: in_kernel_def quiet_def locks_free_def trapframe_set_def abs_sys_def)

lemma in_kernel_csrs [simp]: "in_kernel i (s\<lparr>csrs := c\<rparr>) = in_kernel i s"
  and abs_csrs [simp]: "abs_sys (s\<lparr>csrs := c\<rparr>) = abs_sys s"
  by (simp_all add: in_kernel_def quiet_def locks_free_def abs_sys_def)

lemma in_kernel_uart [simp]: "in_kernel i (uart_print msg s) = in_kernel i s" "abs_sys (uart_print msg s) = abs_sys s"
  by (simp_all add: uart_print_appends in_kernel_def quiet_def locks_free_def abs_sys_def)

lemma argv_loop_keeps:
  fixes s :: "('h, 'z) kstate_scheme"
  shows "keeps s (argv_loop E uv a s)"
proof (induction "2 ^ 32 - unat a" arbitrary: a s rule: less_induct)
  case less
  have ih: "keeps s1 (argv_loop E uv b s1)" if "add_chk a 4 = Inr b" for b and s1 :: "('h, 'z) kstate_scheme"
  proof (rule less.hyps)
    show "2 ^ 32 - unat b < 2 ^ 32 - unat a"
      using add_chk_unat [OF that] unat_u32_bound [of b] by simp
  qed
  show ?case
    unfolding argv_loop.simps [of E uv a s]
    by (auto intro!: keeps_intros keeps_bind [OF copy_in_keeps] keeps_bind [OF copy_in_str_keeps] keeps_bind [OF ih])
qed

end

text \<open>
  How a handler for process \<open>i\<close> ends: back in the process, or with the process locked for the
  scheduler. In between, only steps of the running process happen.
\<close>

definition returned :: "nat \<Rightarrow> ('h, 'z) kstate_scheme \<Rightarrow> ('h, 'z) kstate_scheme \<Rightarrow> bool" where
  "returned i s s' \<longleftrightarrow> in_kernel i s' \<and> (\<exists>ls. dispatches ls = 0 \<and> asteps ls (abs_sys s) (abs_sys s'))"

definition handed_over :: "nat \<Rightarrow> ('h, 'z) kstate_scheme \<Rightarrow> ('h, 'z) kstate_scheme \<Rightarrow> bool" where
  "handed_over i s s' \<longleftrightarrow> switched i s' \<and>
     (\<exists>ls. dispatches ls = 0 \<and> asteps ls (abs_sys s) ((abs_sys s')\<lparr>a_run := None\<rparr>))"

lemma returned_same: "in_kernel i s' \<Longrightarrow> abs_sys s' = abs_sys s \<Longrightarrow> returned i s s'"
  unfolding returned_def by (intro conjI exI [of _ "[]"]) (auto simp: dispatches_def)

lemma dispatches_Cons: "\<forall>j. l \<noteq> A_dispatch j \<Longrightarrow> dispatches (l # ls) = dispatches ls"
  by (cases l) (auto simp: dispatches_def)

lemma returned_step: "in_kernel i s' \<Longrightarrow> astep l (abs_sys s) (abs_sys s') \<Longrightarrow> \<forall>j. l \<noteq> A_dispatch j \<Longrightarrow> returned i s s'"
  unfolding returned_def
  by (intro conjI exI [of _ "[l]"]) (simp_all add: dispatches_Cons asteps_one, simp_all add: dispatches_def)

lemma handed_over_step:
  "switched i s' \<Longrightarrow> astep l (abs_sys s) ((abs_sys s')\<lparr>a_run := None\<rparr>) \<Longrightarrow> \<forall>j. l \<noteq> A_dispatch j \<Longrightarrow> handed_over i s s'"
  unfolding handed_over_def
  by (intro conjI exI [of _ "[l]"]) (simp_all add: dispatches_Cons asteps_one, simp_all add: dispatches_def)

lemma dispatches_append: "dispatches (ls @ ms) = dispatches ls + dispatches ms"
  by (simp add: dispatches_def)

lemma returned_trans: "returned i s s1 \<Longrightarrow> returned i s1 s2 \<Longrightarrow> returned i s s2"
  unfolding returned_def using asteps_append by (metis add.right_neutral dispatches_append)

lemma returned_handed_over: "returned i s s1 \<Longrightarrow> handed_over i s1 s2 \<Longrightarrow> handed_over i s s2"
  unfolding returned_def handed_over_def using asteps_append by (metis add.right_neutral dispatches_append)

lemma returned_ainv: "returned i s s' \<Longrightarrow> ainv (abs_sys s) \<Longrightarrow> ainv (abs_sys s')"
  unfolding returned_def using asteps_ainv by blast

context spin_crate
begin

lemma sys_write_returned:
  assumes "in_kernel i s" "sys_write E i s = Inr s'"
  shows "returned i s s'"
proof -
  obtain bs s1 msg where "copy_in_cont E repr_u8 (p_pagetable (k_table s ! i)) (trapframe_get i tf_a1 s)
      (trapframe_get i tf_a2 s) s = Inr (bs, s1)" "s' = trapframe_set i tf_a0 0 (uart_print msg s1)"
    using assms(2) by (auto simp: sys_write_def Let_def run_inv split: if_splits)
  then show ?thesis
    using same_sys_keeps [OF assms(1) copy_in_cont_keeps, of _ _ _ _ bs s1] by (intro returned_same) auto
qed

lemma sys_exec_returned:
  assumes "in_kernel i s" "sys_exec E i s = Inr s'"
  shows "returned i s s'"
proof -
  obtain r1 s1 path argv s2 where s: "copy_in_str E (p_pagetable (k_table s ! i)) (trapframe_get i tf_a0 s) s = Inr (r1, s1)"
    "argv_loop E (p_pagetable (k_table s1 ! i)) (trapframe_get i tf_a1 s) s1 = Inr (argv, s2)"
    "kexec E i path argv s2 = Inr (Ok (), s')"
    using assms(2) by (auto simp: sys_exec_def Let_def run_inv)
  have 1: "in_kernel i s1 \<and> abs_sys s1 = abs_sys s" by (rule same_sys_keeps [OF assms(1) copy_in_str_keeps s(1)])
  then have 2: "in_kernel i s2 \<and> abs_sys s2 = abs_sys s1" using same_sys_keeps [OF _ argv_loop_keeps s(2)] by blast
  then show ?thesis using kexec_table [OF _ s(3)] 1 by (intro returned_same) auto
qed

lemma sys_fork_returned:
  assumes "in_kernel i s" "ainv (abs_sys s)" "sys_fork E i s = Inr s'"
  shows "returned i s s'"
proof -
  obtain pid where "kfork E i s = Inr (Ok pid, s')" using assms(3) by (auto simp: sys_fork_def run_inv)
  from kfork_refines [OF assms(1,2) this] show ?thesis by (auto intro: returned_step)
qed

lemma sys_wait_from_refines:
  assumes "in_kernel i s" "ainv (abs_sys s)" "sys_wait_from E i a regs s = Inr (r, s')"
  shows "case r of Sys_done \<Rightarrow> returned i s s' | Sys_switched \<Rightarrow> handed_over i s s'"
proof -
  obtain w s1 where w: "kwait E i a regs s = Inr (w, s1)"
    and cont: "(case w of Wait_done ret \<Rightarrow> Inr (Sys_done, trapframe_set i tf_a0 ret s1)
       | Wait_sleep \<Rightarrow> Inr (Sys_switched, s1)) = (Inr (r, s') :: fault + _)"
    using assms(3) by (auto simp: sys_wait_from_def run_inv)
  from kwait_refines [OF assms(1,2) w] consider
      (sleeps) "w = Wait_sleep" "handed_over i s s1"
    | (back_in) v where "w = Wait_done v" "returned i s s1"
    by (auto intro: handed_over_step returned_same returned_step)
  then show ?thesis
  proof cases
    case (back_in v)
    then show ?thesis using cont by (auto simp: returned_def)
  qed (use cont in auto)
qed

lemma syscall_refines:
  assumes own: "in_kernel i s" and inv: "ainv (abs_sys s)" and run: "syscall E i regs s = Inr (r, s')"
  shows "case r of Sys_done \<Rightarrow> returned i s s' | Sys_switched \<Rightarrow> handed_over i s s'"
proof -
  have num: "trapframe_get i tf_a7 s \<in> {SYS_WRITE, SYS_FORK, SYS_EXEC, SYS_WAIT, SYS_EXIT}"
    using run by (auto simp: syscall_def Let_def split: if_splits)
  consider (ret) "r = Sys_done" "sys_write E i s = Inr s' \<or> sys_fork E i s = Inr s' \<or> sys_exec E i s = Inr s'"
    | (wait) "sys_wait E i regs s = Inr (r, s')" | (exit) "sys_exit E i regs s = Inr (r, s')"
    using run num by (auto simp: syscall_def Let_def run_inv split: if_splits)
  then show ?thesis
  proof cases
    case ret
    then show ?thesis
      using sys_write_returned [OF own] sys_fork_returned [OF own inv] sys_exec_returned [OF own] by auto
  next
    case wait
    then show ?thesis using sys_wait_from_refines [OF own inv] by (simp add: sys_wait_def)
  next
    case exit
    then have "kexit E i (trapframe_get i tf_a0 s) regs s = Inr s'" "r = Sys_switched"
      by (auto simp: sys_exit_def run_inv)
    then show ?thesis using handed_over_step [OF kexit_refines(1,3) [OF own]] by auto
  qed
qed

section \<open>Trap handlers\<close>

lemma in_kernel_same_sys: "in_kernel i s \<Longrightarrow> same_sys s s' \<Longrightarrow> returned i s s'"
  using same_sys_in_kernel same_sys_abs returned_same by blast

lemma prepare_return_same: "prepare_return E i s = Inr s' \<Longrightarrow> same_sys s s'"
  by (auto simp: prepare_return_def Let_def run_inv)

lemma usertrap_end_returned:
  assumes "in_kernel i s" "usertrap_end E i s = Inr (r, s')"
  shows "returned i s s' \<and> (\<exists>satp. r = To_user satp)"
  using assms in_kernel_same_sys [OF assms(1) prepare_return_same] by (auto simp: usertrap_end_def run_inv)

end

text \<open>How a handler ends, by its result.\<close>

definition trap_ends :: "nat \<Rightarrow> ('h, 'z) kstate_scheme \<Rightarrow> trap_result \<Rightarrow> ('h, 'z) kstate_scheme \<Rightarrow> bool" where
  "trap_ends i s r s' \<longleftrightarrow> (case r of To_user _ \<Rightarrow> returned i s s' | To_sched \<Rightarrow> handed_over i s s' | To_kernel \<Rightarrow> False)"

context spin_crate
begin

lemma trap_ends_trans: "returned i s s1 \<Longrightarrow> trap_ends i s1 r s2 \<Longrightarrow> trap_ends i s r s2"
  by (auto simp: trap_ends_def intro: returned_trans returned_handed_over split: trap_result.splits)

lemma returned_end:
  assumes "returned i s s1" "usertrap_end E i s1 = Inr (r, s')"
  shows "trap_ends i s r s'"
proof -
  have "returned i s1 s'" "\<exists>satp. r = To_user satp"
    using usertrap_end_returned [OF _ assms(2)] assms(1) by (auto simp: returned_def)
  then show ?thesis using returned_trans [OF assms(1)] by (auto simp: trap_ends_def)
qed

lemma usertrap_sys_ends:
  assumes own: "in_kernel i s"
    and ok: "\<And>r s1. m = Inr (r, s1) \<Longrightarrow> (case r of Sys_done \<Rightarrow> returned i s s1 | Sys_switched \<Rightarrow> handed_over i s s1)"
    and run: "usertrap_sys E i m = Inr (r, s')"
  shows "trap_ends i s r s'"
proof -
  obtain q s1 where m: "m = Inr (q, s1)"
    and cont: "(case q of Sys_done \<Rightarrow> usertrap_end E i s1 | Sys_switched \<Rightarrow> Inr (To_sched, s1)) = Inr (r, s')"
    using run by (auto simp: usertrap_sys_def run_inv)
  show ?thesis
  proof (cases q)
    case Sys_done
    then have "returned i s s1" "usertrap_end E i s1 = Inr (r, s')" using ok [OF m] cont by auto
    then show ?thesis by (rule returned_end)
  next
    case Sys_switched
    then show ?thesis using ok [OF m] cont by (auto simp: trap_ends_def)
  qed
qed

lemma usertrap_refines:
  assumes own: "in_kernel i s" and inv: "ainv (abs_sys s)" and run: "usertrap E regs s = Inr (r, s')"
  shows "trap_ends i s r s'"
proof -
  have cur: "current (cpu s) = Some i" using own by (simp add: in_kernel_def)
  have same: "returned i s s1 \<and> in_kernel i s1 \<and> ainv (abs_sys s1)" if "same_sys s s1" for s1
    using in_kernel_same_sys [OF own that] returned_ainv [OF _ inv] by (auto simp: returned_def)
  consider (sys) s4 where "usertrap_sys E i (syscall E i regs s4) = Inr (r, s')" "same_sys s s4"
    | (timer) s3 where "yeld E i regs In_yeld_user s3 = Inr s'" "r = To_sched" "same_sys s s3"
    using run cur
    by (simp add: usertrap_def Let_def run_inv next_timer_def split: if_splits) (elim exE conjE; simp)+
  then show ?thesis
  proof cases
    case sys
    then have 4: "returned i s s4" "in_kernel i s4" "ainv (abs_sys s4)" using same by auto
    have "trap_ends i s4 r s'" by (rule usertrap_sys_ends [OF 4(2) _ sys(1)]) (rule syscall_refines [OF 4(2,3)])
    then show ?thesis by (rule trap_ends_trans [OF 4(1)])
  next
    case timer
    then have 3: "returned i s s3" "in_kernel i s3" using same by auto
    from yeld_refines [OF 3(2), of regs] timer(1) have "switched i s'" "astep A_yield (abs_sys s3) ((abs_sys s')\<lparr>a_run := None\<rparr>)"
      by auto
    then have "handed_over i s3 s'" by (rule handed_over_step) simp
    then show ?thesis using returned_handed_over [OF 3(1)] timer(2) by (simp add: trap_ends_def)
  qed
qed

section \<open>Resuming a process\<close>

end

definition resumable :: "kcont \<Rightarrow> bool" where
  "resumable c \<longleftrightarrow> (case c of In_forkret \<Rightarrow> True | In_yeld_user \<Rightarrow> True | In_kwait _ \<Rightarrow> True | _ \<Rightarrow> False)"

context spin_crate
begin

lemma unlock_returned:
  assumes "switched i s" "current (cpu s) = Some i" "unlock_manual E (proc_lockref i) s = Inr s'"
  shows "returned i s s'"
proof -
  from switched_unlock [OF assms(1)] assms(3) have "quiet s'" "abs_sys s' = abs_sys s"
    "current (cpu s') = current (cpu s)" "length (k_table s') = length (k_table s)" by auto
  then show ?thesis using assms(1,2) by (intro returned_same) (auto simp: in_kernel_def switched_def)
qed

lemma kwait_resume_returned:
  assumes sw: "switched i s" and cur: "current (cpu s) = Some i" and run: "kwait_resume E i s = Inr s'"
  shows "returned i s s'"
proof -
  let ?s = "upd_proc i (\<lambda>p. p\<lparr>p_sleep_channel := None\<rparr>) (sched_return i s)"
  have i: "i < length (k_table s)" using sw by (simp add: switched_def)
  have "switched i ?s" "current (cpu ?s) = Some i"
    using sw cur by (auto simp: switched_def sched_return_def nth_upd)
  from unlock_returned [OF this] run have r: "returned i ?s s'" by (simp add: kwait_resume_def)
  have "abs_sys ?s = a_upd i (\<lambda>p. p\<lparr>a_chan := None\<rparr>) (abs_sys s)"
    using i by (simp add: abs_sys_def a_upd_def map_update sched_return_def abs_proc_def)
  then have "astep A_resume (abs_sys s) (abs_sys ?s)" using astep.resume [of "abs_sys s" i] cur by simp
  moreover obtain ls where "dispatches ls = 0" "asteps ls (abs_sys ?s) (abs_sys s')" "in_kernel i s'"
    using r by (auto simp: returned_def)
  ultimately have "asteps (A_resume # ls) (abs_sys s) (abs_sys s')" "dispatches (A_resume # ls) = 0"
    by (auto intro: asteps.cons simp: dispatches_Cons)
  then show ?thesis using \<open>in_kernel i s'\<close> by (auto simp: returned_def)
qed

lemma resume_refines:
  assumes sw: "switched i s" and cur: "current (cpu s) = Some i" and inv: "ainv (abs_sys s)"
    and cont: "resumable (p_cont (k_table s ! i))" and run: "resume E i regs s = Inr (r, s')"
  shows "trap_ends i s r s'"
proof -
  consider (fork) "p_cont (k_table s ! i) = In_forkret" | (yield) "p_cont (k_table s ! i) = In_yeld_user"
    | (wait) a where "p_cont (k_table s ! i) = In_kwait a"
    using cont by (auto simp: resumable_def split: kcont.splits)
  then show ?thesis
  proof cases
    case fork
    then obtain s1 satp where "unlock_manual E (proc_lockref i) s = Inr s1" "prepare_return E i s1 = Inr s'" "r = To_user satp"
      using run cur by (auto simp: resume_def forkret_def Let_def run_inv)
    then have "returned i s s1" "prepare_return E i s1 = Inr s'" "r = To_user satp"
      using unlock_returned [OF sw cur] by auto
    moreover from this have "returned i s1 s'"
      using in_kernel_same_sys [OF _ prepare_return_same] by (auto simp: returned_def)
    ultimately show ?thesis using returned_trans by (auto simp: trap_ends_def)
  next
    case yield
    then obtain s1 where s1: "yeld_resume E i s = Inr s1" "usertrap_end E i s1 = Inr (r, s')"
      using run by (auto simp: resume_def run_inv)
    have sw': "switched i (sched_return i s)" "current (cpu (sched_return i s)) = Some i"
      using sw cur by (auto simp: switched_def sched_return_def)
    have "abs_sys (sched_return i s) = abs_sys s" by (simp add: abs_sys_def sched_return_def)
    then have "returned i s s1" using unlock_returned [OF sw'] s1(1) by (simp add: yeld_resume_def returned_def)
    then show ?thesis using s1(2) by (rule returned_end)
  next
    case (wait a)
    then obtain s1 where s1: "kwait_resume E i s = Inr s1" "usertrap_sys E i (sys_wait_from E i a regs s1) = Inr (r, s')"
      using run by (auto simp: resume_def run_inv)
    have 1: "returned i s s1" by (rule kwait_resume_returned [OF sw cur s1(1)])
    then have own: "in_kernel i s1" "ainv (abs_sys s1)" using returned_ainv inv by (auto simp: returned_def)
    have "trap_ends i s1 r s'" by (rule usertrap_sys_ends [OF own(1) _ s1(2)]) (rule sys_wait_from_refines [OF own])
    then show ?thesis by (rule trap_ends_trans [OF 1])
  qed
qed

end

end
