(* ===== verification/Boot.thy ===== *)
theory Boot
  imports Trap
begin

text \<open>
  Start-up (\<open>main.rs\<close>): from the entry of \<open>main\<close> to the first round of the scheduler.
\<close>

text \<open>The argument \<open>"10"\<close> of the first program.\<close>

definition str_ten :: "u8 list" where "str_ten = [0x31, 0x30]"

text \<open>\<open>HEAP_ALLOCATOR.lock().init(ekernel, RAMEND - ekernel)\<close>; the guard is a temporary.\<close>

definition init_heap :: "'h env \<Rightarrow> ('h, 'z) machine_scheme \<Rightarrow> fault + ('h, 'z) machine_scheme" where
  "init_heap E s =
     bind_ok (IntMutex_lock E heap_lockref s) (\<lambda>s1.
     bind_ok (sub_chk RAMEND (sym_ekernel E)) (\<lambda>sz.
       IntMutexGuard_drop E heap_lockref (s1\<lparr>heap_st := bh_init E (heap_st s1) (sym_ekernel E) sz\<rparr>)))"

text \<open>\<open>KERNEL.call_once\<close>: the first call creates the kernel behind a free mutex.\<close>

definition kernel_call_once :: "('h, 'z) kstate_scheme \<Rightarrow> ('h, 'z) kstate_scheme" where
  "kernel_call_once s = (if kernel_once s then s
     else (Kernel_default s)\<lparr>kernel_lock := False, kernel_once := True\<rparr>)"

definition main :: "'h env \<Rightarrow> ('h, 'z) kstate_scheme \<Rightarrow> fault + ('h, 'z) kstate_scheme" where
  "main E s =
     bind_ok (init_heap E s) (\<lambda>s1.
     let s2 = kernel_call_once (init_trap E s1) in
     bind_ok (kernel_acquire E s2) (\<lambda>s3.
     bind_ok (Kernel_init E s3) (\<lambda>(r1, s4).
     bind_ok (unwrap ''Kernel init fail'' (case r1 of Ok u \<Rightarrow> Some u | Err \<Rightarrow> None)) (\<lambda>_.
     bind_ok (Kernel_initproc E 4 s4) (\<lambda>(r2, s5).
     bind_ok (unwrap_result r2) (\<lambda>_.
     bind_ok (unwrap ''KVM not initialized'' (k_kvm s5)) (\<lambda>kvm.
     let s6 = Kvm_start_kvm kvm s5 in
     bind_ok (allocproc E s6) (\<lambda>(r3, s7).
     bind_ok (unwrap ''called Option::unwrap() on a None value'' r3) (\<lambda>p0.
     bind_ok (unlock_manual E (proc_lockref p0) s7) (\<lambda>s8.
     bind_ok (kexec E p0 str_init [str_ten] s8) (\<lambda>(r4, s9).
     bind_ok (unwrap_result r4) (\<lambda>_.
     let s10 = upd_proc p0 (\<lambda>p. p\<lparr>p_state := Runnable\<rparr>) s9 in
     kernel_release E s10))))))))))))"

end
