(* ===== verification/BootRefine.thy ===== *)
theory BootRefine
  imports TrapRefine Boot
begin

text \<open>
  Start-up: when \<open>main\<close> reaches the scheduler, the system is quiet and holds exactly one
  process, the first, runnable and with pid 0.
\<close>

section \<open>Kernel address space and process slots\<close>

context spin_crate
begin

lemma kvm_map_keeps:
  assumes "\<And>s1. keeps s1 (k s1)"
  shows "keeps s (kvm_map E pt v p sz perm k s)"
  unfolding kvm_map_def
  by (auto intro!: keeps_bind [OF PageTable_map_keeps] keeps_bind [OF PageTable_drop_keeps] keeps_intros assms
      split: rresult.splits)

lemma Kvm_init_keeps: "keeps s (Kvm_init E s)"
  unfolding Kvm_init_def Let_def
  by (auto intro!: keeps_bind [OF PageTable_new_keeps] kvm_map_keeps keeps_intros)

lemma alloc_kstack_loop_keeps: "keeps_st s (alloc_kstack_loop E pt va is s)"
proof (induction "is" arbitrary: s)
  case (Cons i "is")
  show ?case
    by (auto intro!: keeps_st_bind [OF frame_alloc_keeps] keeps_st_bind [OF PageTable_map_keeps] keeps_intros Cons.IH
        split: rresult.splits)
qed (auto intro!: keeps_intros)

lemma Process_new_fresh:
  assumes "Process_new E n s = Inr (r, s')" "int_ok s"
  shows "same_rest s s'" "r = Ok p \<Longrightarrow> p_state p = Unused \<and> p_pid p = None \<and> p_parent p = None \<and> \<not> p_lock p"
proof -
  have "keeps s (Process_new E n s)"
    unfolding Process_new_def
    by (auto intro!: keeps_pure [where m = "KSTACK n"] keeps_bind [OF Uvm_new_keeps] keeps_bind [OF Box_new_in_keeps]
        keeps_intros split: rresult.splits)
  then show "same_rest s s'" using assms by (auto dest: keepsD)
  show "r = Ok p \<Longrightarrow> p_state p = Unused \<and> p_pid p = None \<and> p_parent p = None \<and> \<not> p_lock p"
    using assms(1) by (auto simp: Process_new_def run_inv)
qed

lemma same_rest_table: "same_rest s s' \<Longrightarrow>
    same_rest (s\<lparr>k_table := f (k_table s), uart_out := u\<rparr>) (s'\<lparr>k_table := f (k_table s'), uart_out := u\<rparr>)"
  by (cases s rule: kstate.cases_scheme; cases s' rule: kstate.cases_scheme) (simp add: same_rest_def)

lemma initproc_loop_table:
  assumes "initproc_loop E kvm is s = Inr (Ok u, s')" "int_ok s"
  shows "\<exists>ps u. length ps = length is \<and>
    (\<forall>p \<in> set ps. p_state p = Unused \<and> p_pid p = None \<and> p_parent p = None \<and> \<not> p_lock p) \<and>
    same_rest (s\<lparr>k_table := k_table s @ ps, uart_out := u\<rparr>) s'"
  using assms
proof (induction "is" arbitrary: s)
  case (Cons i "is")
  obtain p s1 va s2 v where s: "Process_new E (of_nat i) s = Inr (Ok p, s1)" "Kvm_alloc_kstack E kvm va s1 = Inr s2"
    "initproc_loop E kvm is (s2\<lparr>uart_out := v, k_table := k_table s2 @ [p]\<rparr>) = Inr (Ok u, s')"
    using Cons.prems(1) by (auto simp: run_inv Let_def print_eq)
  note p = Process_new_fresh [OF s(1) Cons.prems(2)]
  have "same_rest s1 s2"
    using keeps_stD [OF alloc_kstack_loop_keeps same_rest_int_ok [OF Cons.prems(2) p(1)]] s(2)
    by (auto simp: Kvm_alloc_kstack_def)
  then have 2: "same_rest s s2" using p(1) same_rest_trans by blast
  have "int_ok (s2\<lparr>uart_out := v, k_table := k_table s2 @ [p]\<rparr>)" using same_rest_int_ok [OF Cons.prems(2) 2] by (simp add: int_ok_def)
  from Cons.IH [OF s(3) this] obtain ps w where ps: "length ps = length is"
    "\<forall>p \<in> set ps. p_state p = Unused \<and> p_pid p = None \<and> p_parent p = None \<and> \<not> p_lock p"
    "same_rest (s2\<lparr>k_table := k_table s2 @ p # ps, uart_out := w\<rparr>) s'" by auto
  have "same_rest (s\<lparr>k_table := k_table s @ p # ps, uart_out := w\<rparr>) (s2\<lparr>k_table := k_table s2 @ p # ps, uart_out := w\<rparr>)"
    using same_rest_table [OF 2, where f = "\<lambda>t. t @ p # ps" and u = w] .
  then show ?case
    using ps p(2) same_rest_trans by (intro exI [of _ "p # ps"] exI [of _ w]) auto
next
  case Nil
  then show ?case by (intro exI [of _ "[]"] exI [of _ "uart_out s"]) auto
qed

lemma Kernel_init_keeps:
  assumes "Kernel_init E s = Inr (Ok u, s')" "int_ok s"
  shows "\<exists>kvm. same_rest (s\<lparr>k_kvm := Some kvm\<rparr>) s'"
proof -
  obtain kvm s1 where s: "Kvm_init E s = Inr (Ok kvm, s1)" "s' = s1\<lparr>k_kvm := Some kvm\<rparr>"
    using assms(1) by (auto simp: Kernel_init_def run_inv)
  have "same_rest s s1" using keepsD [OF Kvm_init_keeps assms(2) s(1)] .
  then show ?thesis
    unfolding s(2) by (intro exI [of _ kvm])
      (cases s rule: kstate.cases_scheme; cases s1 rule: kstate.cases_scheme; simp add: same_rest_def)
qed

section \<open>main\<close>

lemma init_heap_same_sys:
  assumes "init_heap E s = Inr s'" "int_ok s" "interrupt_off_stack (cpu s) = 0"
  shows "same_sys s s'"
proof -
  obtain s1 where lock: "IntMutex_lock E heap_lockref s = Inr s1"
    using assms(1) by (auto simp: init_heap_def run_inv)
  then have "heap_ready s" using heap_lock_free assms(2) by blast
  then have "\<not> lk_get heap_lockref s" by (simp add: heap_ready_def)
  then have s1: "s1 = lk_set heap_lockref True (pushed s)"
    using lock heap_cell.lock_manual_eq [OF spin_crate_axioms assms(2)] by (simp add: heap_cell.IntMutex_lock_eq_manual)
  then show ?thesis
    using assms(1,3) lock
    by (auto simp: init_heap_def run_inv IntMutexGuard_drop_def heap_lockref_def pop_interrupt_off_eq same_sys_def)
qed

text \<open>The part of \<open>main\<close> that fills the process table, under the kernel lock.\<close>

lemma boot_table:
  assumes "int_ok s" "k_table s = []" "k_pid s = 0" "Kernel_init E s = Inr (Ok u, s1)"
    "Kernel_initproc E 4 s1 = Inr (Ok v, s2)"
  shows "\<exists>ps. length ps = 4 \<and>
    (\<forall>p \<in> set ps. p_state p = Unused \<and> p_pid p = None \<and> p_parent p = None \<and> \<not> p_lock p) \<and> k_table s2 = ps \<and>
    k_pid s2 = 0 \<and> csrs s2 = csrs s \<and> kernel_once s2 = kernel_once s \<and>
    interrupt_off_stack (cpu s2) = interrupt_off_stack (cpu s) \<and> current (cpu s2) = current (cpu s)"
proof -
  obtain kvm where 1: "same_rest (s\<lparr>k_kvm := Some kvm\<rparr>) s1" using Kernel_init_keeps [OF assms(4,1)] by blast
  note k1 = same_rest_kernel [OF 1]
  have int: "int_ok s1" by (rule same_rest_int_ok [OF _ 1]) (use assms(1) in \<open>simp add: int_ok_def\<close>)
  have "initproc_loop E kvm [0..<4] s1 = Inr (Ok v, s2)"
    using assms(2,5) k1 by (simp add: Kernel_initproc_def add_chk_def)
  from initproc_loop_table [OF this int] obtain ps u where ps: "length ps = 4"
    "\<forall>p \<in> set ps. p_state p = Unused \<and> p_pid p = None \<and> p_parent p = None \<and> \<not> p_lock p"
    "same_rest (s1\<lparr>k_table := k_table s1 @ ps, uart_out := u\<rparr>) s2" by auto
  show ?thesis using ps same_rest_kernel [OF ps(3)] k1 assms(2,3) by (intro exI [of _ ps]) simp
qed

text \<open>The part of \<open>main\<close> that creates the first process.\<close>

lemma boot_first:
  assumes lvl: "interrupt_off_stack (cpu s) = 1" "\<not> interrupt_read (csrs s)" and k: "k_pid s = 0" "kernel_once s"
    and cur: "current (cpu s) = None" and t: "k_table s \<noteq> []"
      "\<forall>p \<in> set (k_table s). p_state p = Unused \<and> p_pid p = None \<and> p_parent p = None \<and> \<not> p_lock p"
    and m: "allocproc E s = Inr (Some c, s1)" "unlock_manual E (proc_lockref c) s1 = Inr s2"
      "kexec E c path argv s2 = Inr (r, s3)" "kernel_release E (upd_proc c (\<lambda>p. p\<lparr>p_state := Runnable\<rparr>) s3) = Inr s'"
  shows "quiet s' \<and> astart (abs_sys s')"
proof -
  have int: "int_ok s" "locks_free s" using lvl t(2) by (auto simp: int_ok_def locks_free_def list_all_iff)
  let ?b = "s\<lparr>k_pid := 1\<rparr>"
  let ?p = "(k_table s ! c)\<lparr>p_pid := Some 0, p_state := Used, p_lock := True, p_cont := In_forkret\<rparr>"
  have c: "c < length (k_table s)" "\<forall>j < c. p_state (k_table s ! j) \<noteq> Unused" and 1: "slot_like c (pushed ?b) ?p s1"
    using allocproc_cases [OF m(1) int] k by auto
  have "c = 0"
  proof (rule ccontr)
    assume "c \<noteq> 0"
    then have "0 < c" by simp
    then have "p_state (k_table s ! 0) \<noteq> Unused" using c(2) by blast
    then show False using t by (cases "k_table s") auto
  qed
  have b: "critical ?b" "int_ok ?b" "c < length (k_table ?b)" using lvl c by (auto simp: critical_def int_ok_def)
  note 2 = slot_like_unlock [OF 1 b(3,1)]
  have "slot_like c ?b (?p\<lparr>p_lock := False\<rparr>) s2" using 2 m(2) by simp
  then have 3: "slot_like c ?b (?p\<lparr>p_lock := False\<rparr>) s3" by (rule kexec_slot [OF _ b(2,3) m(3)])
  let ?s4 = "upd_proc c (\<lambda>p. p\<lparr>p_state := Runnable\<rparr>) s3"
  have "slot_like c ?b (?p\<lparr>p_lock := False, p_state := Runnable\<rparr>) ?s4"
    by (rule slot_like_upd [OF 3 b(3)]) (simp add: abs_proc_eq_iff)
  note eq = slot_like_nth [OF this b(3), simplified]
  have s': "s' = popped (?s4\<lparr>kernel_lock := False\<rparr>)" using m(4) kernel_release_eq [of ?s4] eq lvl by auto
  have nth: "k_table s' ! j = k_table s ! j" if "j \<noteq> c" for j using eq(3) [OF that] by (simp add: s')
  have len: "length (k_table s') = length (k_table s)" using eq by (simp add: s')
  have p: "abs_proc (k_table s' ! 0) = abs_proc (?p\<lparr>p_lock := False, p_state := Runnable\<rparr>)" "\<not> p_lock (k_table s' ! 0)"
    using eq \<open>c = 0\<close> by (simp_all add: s')
  have rest: "p_state (k_table s' ! j) = Unused \<and> p_pid (k_table s' ! j) = None \<and> p_parent (k_table s' ! j) = None \<and>
      \<not> p_lock (k_table s' ! j)" if "j < length (k_table s)" "j \<noteq> 0" for j
    using t(2) nth [of j] that \<open>c = 0\<close> by simp
  have "locks_free s'"
    unfolding locks_free_def list_all_length using p(2) rest len by (metis neq0_conv)
  then have "quiet s'" using eq lvl k by (simp add: quiet_def s')
  obtain q qs where q: "k_table s' = q # qs" using len t(1) by (cases "k_table s'") auto
  then have "\<forall>u \<in> set qs. p_state u = Unused \<and> p_pid u = None \<and> p_parent u = None"
    using rest [of "Suc j" for j] len by (auto simp: in_set_conv_nth)
  moreover have "p_state q = Runnable" "p_pid q = Some 0" "p_parent q = None" "p_cont q = In_forkret"
    using p(1) q t c \<open>c = 0\<close> by (auto simp: abs_proc_eq_iff)
  moreover have "current (cpu s') = None" "k_pid s' = 1" using eq cur by (simp_all add: s')
  ultimately have "astart (abs_sys s')" by (simp add: astart_def q)
  with \<open>quiet s'\<close> show ?thesis by simp
qed

lemma main_starts:
  assumes run: "main E s = Inr s'" and init: "\<not> kernel_once s" "interrupt_off_stack (cpu s) = 0" "current (cpu s) = None"
  shows "quiet s' \<and> astart (abs_sys s')"
proof -
  have int: "int_ok s" using init by (simp add: int_ok_def)
  obtain s1 where h: "init_heap E s = Inr s1" using run by (auto simp: main_def run_inv)
  let ?s2 = "kernel_call_once (init_trap E s1)"
  have same: "same_sys s s1" by (rule init_heap_same_sys [OF h int init(2)])
  have 2: "kernel_once ?s2" "\<not> kernel_lock ?s2" "k_table ?s2 = []" "k_pid ?s2 = 0"
    "interrupt_off_stack (cpu ?s2) = 0" "current (cpu ?s2) = None"
    using same init by (auto simp: kernel_call_once_def init_trap_def Let_def Kernel_default_def same_sys_def)
  let ?s3 = "(pushed ?s2)\<lparr>kernel_lock := True\<rparr>"
  have acq: "kernel_acquire E ?s2 = Inr ?s3" using 2 by (intro kernel_acquire_eq) (auto simp: int_ok_def)
  obtain s4 s5 kvm s7 s8 s9 p0 where m: "Kernel_init E ?s3 = Inr (Ok (), s4)" "Kernel_initproc E 4 s4 = Inr (Ok (), s5)"
    "allocproc E (Kvm_start_kvm kvm s5) = Inr (Some p0, s7)" "unlock_manual E (proc_lockref p0) s7 = Inr s8"
    "kexec E p0 str_init [str_ten] s8 = Inr (Ok (), s9)"
    "kernel_release E (upd_proc p0 (\<lambda>p. p\<lparr>p_state := Runnable\<rparr>) s9) = Inr s'"
    using run h acq by (auto simp: main_def Let_def run_inv)
  have int3: "int_ok ?s3" "k_table ?s3 = []" "k_pid ?s3 = 0" using 2 by (auto simp: int_ok_def)
  obtain ps where ps: "length ps = 4" "k_table s5 = ps"
    "\<forall>p \<in> set ps. p_state p = Unused \<and> p_pid p = None \<and> p_parent p = None \<and> \<not> p_lock p"
    and k: "k_pid s5 = 0" "csrs s5 = csrs ?s3" "kernel_once s5" "interrupt_off_stack (cpu s5) = 1" "current (cpu s5) = None"
    using boot_table [OF int3 m(1,2)] 2 by auto
  have "interrupt_read (write_csr f Csr_satp v) = interrupt_read f" for f v by (simp add: interrupt_read_def)
  then have "\<not> interrupt_read (csrs (Kvm_start_kvm kvm s5))" using k(2) by (simp add: Kvm_start_kvm_def Let_def)
  moreover have "k_table s5 \<noteq> []" using ps(1,2) by auto
  ultimately show ?thesis
    using boot_first [OF _ _ _ _ _ _ _ m(3-6)] k ps by (auto simp: Kvm_start_kvm_def Let_def)
qed

end

end
