(* ===== verification/Asm.thy ===== *)
theory Asm
  imports Process Sv32
begin

text \<open>
  The assembly routines of the kernel: the trampoline (\<open>trap/trampoline.rs\<close>: \<open>uservec\<close> and
  \<open>userret\<close>), the context switch (\<open>switch\<close> in \<open>process.rs\<close>) and the entry of kernel
  traps (\<open>kernelvec\<close> in \<open>trap.rs\<close>). They are lists of instructions, run by \<open>exec\<close>
  on the registers of the hart, its CSRs and memory. Loads and stores go through the page table in
  \<open>satp\<close>, as the architecture does it in supervisor mode; an access that the hardware refuses
  ends the run with \<open>None\<close>. The fetch of the instructions themselves is not modelled.
\<close>

section \<open>Registers and instructions\<close>

datatype (plugins only: code) reg =
    R_zero | R_ra | R_sp | R_gp | R_tp | R_t0 | R_t1 | R_t2 | R_s0 | R_s1 | R_a0 | R_a1 | R_a2 | R_a3 | R_a4 | R_a5 | R_a6
  | R_a7 | R_s2 | R_s3 | R_s4 | R_s5 | R_s6 | R_s7 | R_s8 | R_s9 | R_s10 | R_s11 | R_t3 | R_t4 | R_t5 | R_t6

record core =
  xreg :: "reg \<Rightarrow> usize"
  core_mem :: memory
  core_csrs :: csr_file

definition set_reg :: "reg \<Rightarrow> usize \<Rightarrow> core \<Rightarrow> core" where
  "set_reg r v c = (if r = R_zero then c else c\<lparr>xreg := (xreg c)(r := v)\<rparr>)"

definition get_reg :: "core \<Rightarrow> reg \<Rightarrow> usize" where
  "get_reg c r = (if r = R_zero then 0 else xreg c r)"

datatype insn = Sw reg usize reg | Lw reg usize reg | Addi reg reg usize | Li reg usize
  | Csrw Csr reg | Csrr reg Csr | Sfence_vma | Jalr reg | Call usize | J usize | Ret | Sret

section \<open>Traps and \<open>sret\<close>\<close>

definition set_bit_to :: "nat \<Rightarrow> bool \<Rightarrow> u32 \<Rightarrow> u32" where
  "set_bit_to n b w = (if b then w OR push_bit n 1 else w AND NOT (push_bit n 1))"

text \<open>A trap saves the interrupt enable and the privilege mode in \<open>sstatus\<close>.\<close>

definition trap_csrs :: "bool \<Rightarrow> usize \<Rightarrow> usize \<Rightarrow> usize \<Rightarrow> csr_file \<Rightarrow> csr_file" where
  "trap_csrs from_kernel pc cause tval f =
     (let st = read_csr f Csr_sstatus;
          st' = set_bit_to 8 from_kernel (set_bit_to 1 False (set_bit_to 5 (bit st 1) st))
      in write_csr (write_csr (write_csr (write_csr f Csr_sstatus st') Csr_sepc pc) Csr_scause cause) Csr_stval tval)"

definition sret_csrs :: "csr_file \<Rightarrow> csr_file" where
  "sret_csrs f = (let st = read_csr f Csr_sstatus in
     write_csr f Csr_sstatus (set_bit_to 8 False (set_bit_to 5 True (set_bit_to 1 (bit st 5) st))))"

section \<open>Execution\<close>

text \<open>The physical address of an access in supervisor mode, with paging or without.\<close>

definition translate :: "usize \<Rightarrow> memory \<Rightarrow> access \<Rightarrow> usize \<Rightarrow> usize option" where
  "translate satp m acc va =
     (if \<not> word_aligned va then None
      else if bit satp 31 then sv32_translate m (push_bit 12 satp) acc SMode va else Some va)"

abbreviation core_satp :: "core \<Rightarrow> usize" where
  "core_satp c \<equiv> read_csr (core_csrs c) Csr_satp"

text \<open>
  A run ends at a jump, with the address it goes to. \<open>link\<close> is the address after a call, which
  \<open>jalr\<close> and \<open>call\<close> leave in \<open>ra\<close>.
\<close>

fun exec :: "usize \<Rightarrow> insn list \<Rightarrow> core \<Rightarrow> (usize \<times> core) option" where
  "exec link [] c = None"
| "exec link (Sw r off b # is) c =
     (case translate (core_satp c) (core_mem c) Store (get_reg c b + off) of None \<Rightarrow> None
      | Some a \<Rightarrow> exec link is (c\<lparr>core_mem := store32 (core_mem c) a (get_reg c r)\<rparr>))"
| "exec link (Lw r off b # is) c =
     (case translate (core_satp c) (core_mem c) Load (get_reg c b + off) of None \<Rightarrow> None
      | Some a \<Rightarrow> exec link is (set_reg r (load32 (core_mem c) a) c))"
| "exec link (Addi r b n # is) c = exec link is (set_reg r (get_reg c b + n) c)"
| "exec link (Li r n # is) c = exec link is (set_reg r n c)"
| "exec link (Csrw csr r # is) c = exec link is (c\<lparr>core_csrs := write_csr (core_csrs c) csr (get_reg c r)\<rparr>)"
| "exec link (Csrr r csr # is) c = exec link is (set_reg r (read_csr (core_csrs c) csr) c)"
| "exec link (Sfence_vma # is) c = exec link is c"
| "exec link (Jalr r # is) c = Some (get_reg c r, set_reg R_ra link c)"
| "exec link (Call a # is) c = Some (a, set_reg R_ra link c)"
| "exec link (J a # is) c = Some (a, c)"
| "exec link (Ret # is) c = Some (get_reg c R_ra, c)"
| "exec link (Sret # is) c = Some (read_csr (core_csrs c) Csr_sepc, c\<lparr>core_csrs := sret_csrs (core_csrs c)\<rparr>)"

section \<open>The routines\<close>

text \<open>\<open>uservec\<close> up to the call of \<open>usertrap\<close>, and the jump to \<open>userret\<close> after it,
  with the value \<open>usertrap\<close> returns in \<open>a0\<close>.\<close>

definition uservec :: "insn list" where
  "uservec = [
     Csrw Csr_sscratch R_a0, Li R_a0 TRAPFRAME, Sw R_ra 20 R_a0, Sw R_sp 24 R_a0,
     Sw R_gp 28 R_a0, Sw R_tp 32 R_a0, Sw R_t0 36 R_a0, Sw R_t1 40 R_a0, Sw R_t2 44 R_a0,
     Sw R_s0 48 R_a0, Sw R_s1 52 R_a0, Sw R_a1 60 R_a0, Sw R_a2 64 R_a0, Sw R_a3 68 R_a0,
     Sw R_a4 72 R_a0, Sw R_a5 76 R_a0, Sw R_a6 80 R_a0, Sw R_a7 84 R_a0, Sw R_s2 88 R_a0,
     Sw R_s3 92 R_a0, Sw R_s4 96 R_a0, Sw R_s5 100 R_a0, Sw R_s6 104 R_a0, Sw R_s7 108 R_a0,
     Sw R_s8 112 R_a0, Sw R_s9 116 R_a0, Sw R_s10 120 R_a0, Sw R_s11 124 R_a0, Sw R_t3 128 R_a0,
     Sw R_t4 132 R_a0, Sw R_t5 136 R_a0, Sw R_t6 140 R_a0, Csrr R_t0 Csr_sscratch,
     Sw R_t0 56 R_a0, Lw R_sp 4 R_a0, Lw R_tp 16 R_a0, Lw R_t0 8 R_a0, Lw R_t1 0 R_a0,
     Sfence_vma, Csrw Csr_satp R_t1, Sfence_vma, Jalr R_t0]"

definition uservec_end :: "'h env \<Rightarrow> insn list" where
  "uservec_end E = [J (fn_userret E)]"

definition userret :: "insn list" where
  "userret = [
     Sfence_vma, Csrw Csr_satp R_a0, Sfence_vma, Li R_a0 TRAPFRAME, Lw R_ra 20 R_a0,
     Lw R_sp 24 R_a0, Lw R_gp 28 R_a0, Lw R_tp 32 R_a0, Lw R_t0 36 R_a0, Lw R_t1 40 R_a0,
     Lw R_t2 44 R_a0, Lw R_s0 48 R_a0, Lw R_s1 52 R_a0, Lw R_a1 60 R_a0, Lw R_a2 64 R_a0,
     Lw R_a3 68 R_a0, Lw R_a4 72 R_a0, Lw R_a5 76 R_a0, Lw R_a6 80 R_a0, Lw R_a7 84 R_a0,
     Lw R_s2 88 R_a0, Lw R_s3 92 R_a0, Lw R_s4 96 R_a0, Lw R_s5 100 R_a0, Lw R_s6 104 R_a0,
     Lw R_s7 108 R_a0, Lw R_s8 112 R_a0, Lw R_s9 116 R_a0, Lw R_s10 120 R_a0, Lw R_s11 124 R_a0,
     Lw R_t3 128 R_a0, Lw R_t4 132 R_a0, Lw R_t5 136 R_a0, Lw R_t6 140 R_a0, Lw R_a0 56 R_a0,
     Sret]"

text \<open>\<open>switch(from, to)\<close>: the arguments are in \<open>a0\<close> and \<open>a1\<close>.\<close>

definition switch :: "insn list" where
  "switch = [
     Sw R_ra 0 R_a0, Sw R_sp 4 R_a0, Sw R_s0 8 R_a0, Sw R_s1 12 R_a0, Sw R_s2 16 R_a0,
     Sw R_s3 20 R_a0, Sw R_s4 24 R_a0, Sw R_s5 28 R_a0, Sw R_s6 32 R_a0, Sw R_s7 36 R_a0,
     Sw R_s8 40 R_a0, Sw R_s9 44 R_a0, Sw R_s10 48 R_a0, Sw R_s11 52 R_a0, Lw R_ra 0 R_a1,
     Lw R_sp 4 R_a1, Lw R_s0 8 R_a1, Lw R_s1 12 R_a1, Lw R_s2 16 R_a1, Lw R_s3 20 R_a1,
     Lw R_s4 24 R_a1, Lw R_s5 28 R_a1, Lw R_s6 32 R_a1, Lw R_s7 36 R_a1, Lw R_s8 40 R_a1,
     Lw R_s9 44 R_a1, Lw R_s10 48 R_a1, Lw R_s11 52 R_a1, Ret]"

text \<open>\<open>kernelvec\<close> before and after the call of \<open>kerneltrap\<close>.\<close>

definition kernelvec_save :: "usize \<Rightarrow> insn list" where
  "kernelvec_save kerneltrap = [
     Addi R_sp R_sp (- 128), Sw R_ra 0 R_sp, Sw R_gp 8 R_sp, Sw R_tp 12 R_sp, Sw R_t0 16 R_sp,
     Sw R_t1 20 R_sp, Sw R_t2 24 R_sp, Sw R_a0 36 R_sp, Sw R_a1 40 R_sp, Sw R_a2 44 R_sp,
     Sw R_a3 48 R_sp, Sw R_a4 52 R_sp, Sw R_a5 56 R_sp, Sw R_a6 60 R_sp, Sw R_a7 64 R_sp,
     Sw R_t3 108 R_sp, Sw R_t4 112 R_sp, Sw R_t5 116 R_sp, Sw R_t6 120 R_sp, Call kerneltrap]"

definition kernelvec_restore :: "insn list" where
  "kernelvec_restore = [
     Lw R_ra 0 R_sp, Lw R_gp 8 R_sp, Lw R_t0 16 R_sp, Lw R_t1 20 R_sp, Lw R_t2 24 R_sp,
     Lw R_a0 36 R_sp, Lw R_a1 40 R_sp, Lw R_a2 44 R_sp, Lw R_a3 48 R_sp, Lw R_a4 52 R_sp,
     Lw R_a5 56 R_sp, Lw R_a6 60 R_sp, Lw R_a7 64 R_sp, Lw R_t3 108 R_sp, Lw R_t4 112 R_sp,
     Lw R_t5 116 R_sp, Lw R_t6 120 R_sp, Addi R_sp R_sp 128, Sret]"

text \<open>The entry of the kernel, \<open>_entry\<close> in \<open>main.rs\<close>.\<close>

definition entry :: "usize \<Rightarrow> usize \<Rightarrow> insn list" where
  "entry stack_ptr fn_main = [Li R_sp stack_ptr, Call fn_main]"

section \<open>Blocks of stores and loads\<close>

lemma get_set_reg [simp]: "get_reg (set_reg r v c) q = (if q = r \<and> r \<noteq> R_zero then v else get_reg c q)"
  by (simp add: get_reg_def set_reg_def)

lemma set_reg_rest [simp]: "core_mem (set_reg r v c) = core_mem c" "core_csrs (set_reg r v c) = core_csrs c"
  by (simp_all add: set_reg_def)

lemma get_reg_rest [simp]: "get_reg (c\<lparr>core_mem := m\<rparr>) r = get_reg c r" "get_reg (c\<lparr>core_csrs := f\<rparr>) r = get_reg c r"
  by (simp_all add: get_reg_def)

text \<open>The words at the offsets \<open>S\<close> of \<open>pa\<close>, and memories that agree outside them.\<close>

definition same_but :: "usize \<Rightarrow> usize set \<Rightarrow> memory \<Rightarrow> memory \<Rightarrow> bool" where
  "same_but pa S m m' \<longleftrightarrow> (\<forall>a. (\<forall>off \<in> S. a \<noteq> pa + off \<and> a \<noteq> pa + off + 1 \<and> a \<noteq> pa + off + 2 \<and> a \<noteq> pa + off + 3) \<longrightarrow>
     m' a = m a)"

text \<open>
  A window: the words at the offsets \<open>S\<close> of the virtual address \<open>va\<close> can be read and written and
  lie at the same offsets of \<open>pa\<close>, whatever is stored in them.
\<close>

definition window :: "usize \<Rightarrow> memory \<Rightarrow> usize \<Rightarrow> usize \<Rightarrow> usize set \<Rightarrow> bool" where
  "window satp m va pa S \<longleftrightarrow> word_aligned pa \<and> (\<forall>off \<in> S. word_aligned off) \<and>
     (\<forall>m'. same_but pa S m m' \<longrightarrow> (\<forall>off \<in> S. translate satp m' Load (va + off) = Some (pa + off) \<and>
       translate satp m' Store (va + off) = Some (pa + off)))"

lemma same_but_refl [simp]: "same_but pa S m m"
  by (simp add: same_but_def)

lemma same_but_trans: "same_but pa S m m' \<Longrightarrow> same_but pa S m' m'' \<Longrightarrow> same_but pa S m m''"
  by (simp add: same_but_def)

lemma same_but_mono: "same_but pa S m m' \<Longrightarrow> S \<subseteq> T \<Longrightarrow> same_but pa T m m'"
  unfolding same_but_def by blast

lemma same_but_store: "off \<in> S \<Longrightarrow> same_but pa S m (store32 m (pa + off) v)"
  by (auto simp: same_but_def store32_def)

lemma window_same: "window satp m va pa S \<Longrightarrow> same_but pa S m m' \<Longrightarrow> window satp m' va pa S"
  unfolding window_def using same_but_trans by blast

lemma windowD:
  assumes "window satp m va pa S" "off \<in> S"
  shows "translate satp m Load (va + off) = Some (pa + off)" "translate satp m Store (va + off) = Some (pa + off)"
  using assms by (simp_all add: window_def)

definition save :: "(reg \<times> usize) list \<Rightarrow> usize \<Rightarrow> (reg \<Rightarrow> usize) \<Rightarrow> memory \<Rightarrow> memory" where
  "save xs pa g m = fold (\<lambda>(r, off) m. store32 m (pa + off) (g r)) xs m"

definition restore :: "(reg \<times> usize) list \<Rightarrow> usize \<Rightarrow> core \<Rightarrow> core" where
  "restore xs pa c = fold (\<lambda>(r, off). set_reg r (load32 (core_mem c) (pa + off))) xs c"

lemma same_but_save: "snd ` set xs \<subseteq> S \<Longrightarrow> same_but pa S m (save xs pa g m)"
proof (induction xs arbitrary: m)
  case (Cons x xs)
  then have "same_but pa S m (store32 m (pa + snd x) (g (fst x)))" by (intro same_but_store) auto
  then show ?case using Cons.IH [of "store32 m (pa + snd x) (g (fst x))"] Cons.prems same_but_trans
    by (auto simp: save_def split_beta)
qed (simp add: save_def)

lemma exec_stores:
  assumes "window (core_satp c) (core_mem c) (get_reg c b) pa S" "snd ` set xs \<subseteq> S"
  shows "exec link (map (\<lambda>(r, off). Sw r off b) xs @ is) c =
    exec link is (c\<lparr>core_mem := save xs pa (get_reg c) (core_mem c)\<rparr>)"
  using assms
proof (induction xs arbitrary: c)
  case (Cons x xs)
  obtain r off where x: "x = (r, off)" by (cases x)
  then have off: "off \<in> S" "snd ` set xs \<subseteq> S" using Cons.prems(2) by auto
  let ?c = "c\<lparr>core_mem := store32 (core_mem c) (pa + off) (get_reg c r)\<rparr>"
  have "window (core_satp ?c) (core_mem ?c) (get_reg ?c b) pa S"
    using window_same [OF Cons.prems(1) same_but_store [OF off(1)]] by simp
  from Cons.IH [OF this off(2)] show ?case
    by (simp add: x windowD(2) [OF Cons.prems(1) off(1)] save_def)
qed (simp add: save_def)

lemma restore_rest [simp]:
  "core_mem (restore xs pa c) = core_mem c" "core_csrs (restore xs pa c) = core_csrs c"
  unfolding restore_def by (induction xs rule: rev_induct) (auto simp: split_beta)

lemma restore_snoc: "restore (xs @ [x]) pa c = set_reg (fst x) (load32 (core_mem c) (pa + snd x)) (restore xs pa c)"
  by (simp add: restore_def split_beta)

text \<open>The last load of a block may overwrite the base register.\<close>

lemma exec_loads:
  assumes "window (core_satp c) (core_mem c) (get_reg c b) pa S" "snd ` set xs \<subseteq> S" "b \<notin> fst ` set xs"
  shows "exec link (map (\<lambda>(r, off). Lw r off b) xs @ is) c = exec link is (restore xs pa c)"
  using assms
proof (induction xs arbitrary: "is" rule: rev_induct)
  case (snoc x xs)
  have "get_reg (restore xs pa c) b = get_reg c b" using snoc.prems(3)
    unfolding restore_def by (induction xs rule: rev_induct) (auto simp: split_beta)
  then show ?case
    using snoc by (auto simp: windowD split_beta restore_snoc)
qed (simp add: restore_def)

lemma get_restore:
  assumes "distinct (map fst xs)" "R_zero \<notin> fst ` set xs"
  shows "get_reg (restore xs pa c) r = (case map_of xs r of None \<Rightarrow> get_reg c r | Some off \<Rightarrow> load32 (core_mem c) (pa + off))"
  using assms
proof (induction xs rule: rev_induct)
  case (snoc x xs)
  have "map_of (xs @ [x]) r = (if r = fst x then Some (snd x) else map_of xs r)"
    using snoc.prems(1) map_of_eq_None_iff [of xs "fst x"] by (cases x) (auto simp: map_add_def split: option.splits)
  then show ?case using snoc by (auto simp: restore_snoc)
qed (simp add: restore_def)

lemma word_aligned_plus: "word_aligned pa \<Longrightarrow> word_aligned off \<Longrightarrow> word_aligned (pa + off)"
  by (auto simp: word_aligned_iff_dvd unat_word_ariths intro: dvd_mod)

lemma load32_save_other:
  assumes "word_aligned pa" "\<forall>off \<in> snd ` set xs. word_aligned off" "word_aligned a" "\<forall>off \<in> snd ` set xs. a \<noteq> pa + off"
  shows "load32 (save xs pa g m) a = load32 m a"
  using assms
proof (induction xs arbitrary: m)
  case (Cons x xs)
  have "word_aligned (pa + snd x)" using Cons.prems word_aligned_plus by (auto simp: image_iff)
  then show ?case
    using Cons.IH [of "store32 m (pa + snd x) (g (fst x))"] Cons.prems
    by (auto simp: save_def split_beta load32_store32_other)
qed (simp add: save_def)

lemma load32_save:
  assumes "word_aligned pa" "\<forall>off \<in> snd ` set xs. word_aligned off" "distinct (map snd xs)" "(r, off) \<in> set xs"
  shows "load32 (save xs pa g m) (pa + off) = g r"
  using assms
proof (induction xs arbitrary: m)
  case (Cons x xs)
  have al: "word_aligned (pa + off)" using Cons.prems word_aligned_plus by (auto simp: image_iff)
  show ?case
  proof (cases "x = (r, off)")
    case True
    have "load32 (save xs pa g (store32 m (pa + off) (g r))) (pa + off) = load32 (store32 m (pa + off) (g r)) (pa + off)"
      using Cons.prems al True by (intro load32_save_other) (auto simp: image_iff)
    then show ?thesis by (simp add: True save_def load32_store32_same)
  next
    case False
    then show ?thesis
      using Cons.IH [of "store32 m (pa + snd x) (g (fst x))"] Cons.prems by (auto simp: save_def split_beta)
  qed
qed simp

end
