(* ===== verification/PageTableProps.thy ===== *)
theory PageTableProps
  imports Sv32
begin

text \<open>
  The properties of page tables, stated on the kernel's operations and on the hardware's
  translation, for every allocator that keeps the contract \<open>platform\<close>. The witnesses run on the
  free-list page heap with all memory zero.
\<close>

section \<open>A concrete machine\<close>

definition fl_machine :: "usize list \<Rightarrow> usize list machine" where
  "fl_machine free = \<lparr>mem = (\<lambda>_. 0), csrs = (\<lambda>_. 0), stimecmp = 0, uart_out = [],
     heap_st = free, heap_lock = False, cpu = Cpu_new\<rparr>"

lemma fl_machine_simps [simp]:
  "mem (fl_machine free) = (\<lambda>_. 0)" "heap_st (fl_machine free) = free"
  by (simp_all add: fl_machine_def)

lemma fl_machine_ready [simp]: "heap_ready (fl_machine free)"
  by (simp add: fl_machine_def heap_ready_def int_ok_def Cpu_new_def)

lemma zero_memory_table:
  assumes "page_aligned r" "r \<noteq> 0"
  shows "pt_wf (\<lambda>_. 0) r" "pt_frames (\<lambda>_. 0) r = {r}" "leaf (\<lambda>_. 0) r = (\<lambda>_. None)"
proof -
  have "write_bytes (\<lambda>_. 0) r 0 4096 = (\<lambda>_. 0)" by (simp add: write_bytes_def)
  then show "pt_wf (\<lambda>_. 0) r" "pt_frames (\<lambda>_. 0) r = {r}" "leaf (\<lambda>_. 0) r = (\<lambda>_. None)"
    using zero_page_table [OF assms, of "\<lambda>_. 0"] by auto
qed

lemma fl_machine_owned:
  assumes "fl_wf free" "fl_managed r" "r \<notin> set free"
  shows "owned fl_wf fl_live (fl_machine free) r"
  using assms zero_memory_table [of r] fl_managed_nonzero [of r]
  by (simp add: owned_def table_ok_def fl_managed_def fl_live_def user_inj_def user_pages_def
      user_words_def)

lemma owned_table_ok: "owned hwf live s r \<Longrightarrow> table_ok hwf live s r"
  by (simp add: owned_def)

text \<open>Two free pages and a root page outside the free list.\<close>

lemma fl_two_pages:
  "fl_wf [0x80301000, 0x80302000]" "fl_managed 0x80300000"
  "(0x80300000 :: usize) \<notin> set [0x80301000, 0x80302000]"
  by (simp_all add: fl_wf_def fl_managed_def page_aligned_iff_dvd RAMEND_num)

lemmas fl_owned = fl_machine_owned [OF fl_two_pages]
lemmas fl_table_ok = owned_table_ok [OF fl_owned]

text \<open>A memory that is zero but for a table at \<open>r\<close> which maps one page.\<close>

definition one_page_mem :: "usize \<Rightarrow> usize \<Rightarrow> usize \<Rightarrow> usize \<Rightarrow> usize \<Rightarrow> memory" where
  "one_page_mem r a va pa perm = store32 (add_table (\<lambda>_. 0) r (vpn1 (VA_from va)) a)
     (entry_addr a (vpn0 (VA_from va))) (leaf_word pa perm)"

lemma one_page_table:
  assumes "page_aligned r" "r \<noteq> 0" "page_aligned a" "a \<noteq> 0" "a \<noteq> r" "page_aligned pa"
  shows "pt_wf (one_page_mem r a va pa perm) r" "pt_frames (one_page_mem r a va pa perm) r = {r, a}"
    "leaf (one_page_mem r a va pa perm) r vb =
      (if page_of vb = page_of va then Some (leaf_word pa perm) else None)"
proof -
  let ?i = "vpn1 (VA_from va)"
  note z = zero_memory_table [OF assms(1,2)]
  have none: "l2 (\<lambda>_. 0) r ?i = None" by (simp add: l2_def load32_def)
  have fresh: "a \<notin> pt_frames (\<lambda>_. 0) r" using assms(5) z(2) by simp
  note t = add_table_wf [OF z(1) assms(3,4) fresh vpn1_bound none]
    add_table_frames [OF z(1) assms(3) fresh vpn1_bound none]
    add_table_leaf [OF z(1) assms(3) fresh vpn1_bound none]
  have addr: "leaf_addr (add_table (\<lambda>_. 0) r ?i a) r va = Some (entry_addr a (vpn0 (VA_from va)))"
    using add_table_l2 [OF assms(1,3,5) vpn1_bound vpn1_bound] by (simp add: leaf_addr_def)
  show "pt_wf (one_page_mem r a va pa perm) r" "pt_frames (one_page_mem r a va pa perm) r = {r, a}"
    using store_leaf_wf [OF t(1) addr] t(2) z(2) by (auto simp: one_page_mem_def)
  show "leaf (one_page_mem r a va pa perm) r vb =
      (if page_of vb = page_of va then Some (leaf_word pa perm) else None)"
    using store_leaf [OF t(1) addr, of "leaf_word pa perm" vb] t(3) z(3) leaf_word_valid [OF assms(6)]
    by (simp add: one_page_mem_def)
qed

text \<open>The running example: virtual page \<open>0x10000\<close>, readable and writable by the user, at
  \<open>0x80400000\<close>.\<close>

definition demo_mem :: memory where
  "demo_mem = one_page_mem 0x80300000 0x80303000 0x10000 0x80400000 0b10110"

lemma demo_table:
  "pt_wf demo_mem 0x80300000" "pt_frames demo_mem 0x80300000 = {0x80300000, 0x80303000}"
  "leaf demo_mem 0x80300000 vb =
    (if page_of vb = 0x10000 then Some (leaf_word 0x80400000 0b10110) else None)"
proof -
  have va: "page_of 0x10000 = 0x10000" by (simp add: page_aligned_iff_dvd)
  note t = one_page_table [of "0x80300000" "0x80303000" "0x80400000" "0x10000" "0b10110", folded demo_mem_def]
  show "pt_wf demo_mem 0x80300000" "pt_frames demo_mem 0x80300000 = {0x80300000, 0x80303000}"
    "leaf demo_mem 0x80300000 vb =
      (if page_of vb = 0x10000 then Some (leaf_word 0x80400000 0b10110) else None)"
    using t va by (simp_all add: page_aligned_iff_dvd)
qed

lemma user_rw_bits:
  "bit (0b10110 :: usize) 1" "bit (0b10110 :: usize) 2" "\<not> bit (0b10110 :: usize) 3"
  "bit (0b10110 :: usize) 4" "perm_mask 0b10110"
  by (simp_all add: bit_numeral_rec perm_mask_def)

lemma demo_translate:
  "acc \<noteq> Fetch \<Longrightarrow> sv32_translate demo_mem 0x80300000 acc UMode 0x10abc = Some 0x80400abc"
proof -
  assume acc: "acc \<noteq> Fetch"
  have al: "page_aligned 0x80400000" by (simp add: page_aligned_iff_dvd)
  have "page_of 0x10abc = 0x10000" by (simp add: word_unat_eq_iff unat_page_of)
  moreover have "sv32_permits acc UMode 0b10110"
    using acc user_rw_bits by (cases acc) (simp_all add: sv32_permits_def)
  ultimately show ?thesis
    using leaf_word_accepted [OF al user_rw_bits(5)] leaf_word_page [OF al user_rw_bits(5)]
      user_rw_bits
    by (simp add: sv32_translate_leaf [OF demo_table(1)] demo_table(3))
qed

section \<open>Mapping\<close>

lemma as_map_translate:
  assumes "in_range virt n va" "page_aligned virt" "page_aligned phys" "unat phys + n < 2 ^ 32"
  shows "page_aligned (phys + (page_of va - virt))"
    "phys + (page_of va - virt) + va mod 4096 = phys + (va - virt)"
proof -
  have va: "va = page_of va + va mod 4096"
    using unat_u32_bound [of va]
    by (simp add: word_unat_eq_iff unat_page_of unat_mod_distrib unat_word_ariths)
  then show "phys + (page_of va - virt) + va mod 4096 = phys + (va - virt)"
    by (metis (no_types, lifting) add.assoc add_diff_eq add.commute)
  have b: "(4096 :: nat) dvd 2 ^ 32" by simp
  have "4096 dvd unat (page_of va)" "4096 dvd unat virt" "4096 dvd unat phys"
    using assms(2,3) page_aligned_page_of [of va] by (simp_all add: page_aligned_iff_dvd)
  moreover have "unat (page_of va - virt) = unat (page_of va) - unat virt"
  proof -
    have "unat virt \<le> unat va" using assms(1) by (simp add: in_range_def)
    moreover obtain k where "unat virt = 4096 * k" using assms(2) by (auto simp: page_aligned_iff_dvd)
    ultimately have "unat virt \<le> unat (page_of va)" by (simp add: unat_page_of)
    then show ?thesis by (simp add: unat_sub word_le_nat_alt)
  qed
  ultimately show "page_aligned (phys + (page_of va - virt))"
    by (simp add: page_aligned_iff_dvd unat_word_ariths dvd_mod b)
qed

text \<open>
  C2. Mapping whole pages never panics. It returns \<open>Ok\<close> or \<open>Err\<close>, and \<open>Ok\<close> whenever the
  heap has a page for each page of the range. After \<open>Ok\<close> the hardware translates every address of the range to the
  corresponding physical address for exactly the accesses the permission bits allow, every
  address outside the range is translated as before, pages outside the table keep their contents,
  and the pages taken from the heap are the new second-level tables.
\<close>

theorem PageTable_map_correct:
  assumes "platform E hwf live lo hi" "table_ok hwf live s (pt_root pt)"
    and "page_aligned virt" "page_aligned phys" "page_aligned sz"
    and "unat virt + unat sz < 2 ^ 32" "unat phys + unat sz < 2 ^ 32"
    and "perm_mask perm" "bit perm 1 \<or> bit perm 3" "bit perm 2 \<longrightarrow> bit perm 1"
  shows "\<exists>res s'. PageTable_map E pt virt phys sz perm s = Inr (res, s') \<and>
    grows hwf live (pt_root pt) s s' \<and>
    (\<forall>va acc p. \<not> in_range virt (unat sz) va \<longrightarrow>
      sv32_translate (mem s') (pt_root pt) acc p va = sv32_translate (mem s) (pt_root pt) acc p va) \<and>
    (res = Ok () \<longrightarrow> (\<forall>va acc p. in_range virt (unat sz) va \<longrightarrow>
      sv32_translate (mem s') (pt_root pt) acc p va =
        (if sv32_permits acc p perm then Some (phys + (va - virt)) else None))) \<and>
    (takes E (unat sz div 4096) (heap_st s) \<noteq> None \<longrightarrow> res = Ok ())"
proof -
  let ?r = "pt_root pt"
  obtain res s' k where map: "PageTable_map E pt virt phys sz perm s = Inr (res, s')"
    and g: "grows hwf live ?r s s'" and k: "k \<le> unat sz div 4096" "res = Ok () \<longleftrightarrow> k = unat sz div 4096"
    and lf: "leaf (mem s') ?r = as_map virt phys (4096 * k) perm (leaf (mem s) ?r)"
    and sv: "served E (unat sz div 4096) (heap_st s) (res = Ok ()) (heap_st s')"
    using platform.map_refines [OF assms(1-7)] by blast
  have wf: "pt_wf (mem s) ?r" "pt_wf (mem s') ?r"
    using assms(2) growsD(1) [OF g] by (auto simp: table_ok_def)
  have n: "4096 * (unat sz div 4096) = unat sz" using assms(5) by (simp add: page_aligned_iff_dvd)
  have "sv32_translate (mem s') ?r acc p va = sv32_translate (mem s) ?r acc p va"
    if "\<not> in_range virt (unat sz) va" for va acc p
  proof -
    have "\<not> in_range virt (4096 * k) va"
      using that k(1) n by (auto simp: in_range_def)
    then show ?thesis by (simp add: sv32_translate_leaf [OF wf(1)] sv32_translate_leaf [OF wf(2)] lf as_map_def)
  qed
  moreover have "sv32_translate (mem s') ?r acc p va =
      (if sv32_permits acc p perm then Some (phys + (va - virt)) else None)"
    if ok: "res = Ok ()" and va: "in_range virt (unat sz) va" for va acc p
  proof -
    note a = as_map_translate [OF va assms(3,4,7)]
    have "leaf (mem s') ?r va = Some (leaf_word (phys + (page_of va - virt)) perm)"
      using ok va k(2) n by (simp add: lf as_map_def)
    then show ?thesis
      using leaf_word_accepted [OF a(1) assms(8-10)] leaf_word_page [OF a(1) assms(8)] a(2)
      by (simp add: sv32_translate_leaf [OF wf(2)])
  qed
  ultimately show ?thesis using map g served_enough [OF sv] by blast
qed

theorem PageTable_map_correct_witness:
  "\<exists>s'. PageTable_map fl_env \<lparr>pt_root = 0x80300000\<rparr> 0x10000 0x80400000 0x2000 0b10110
      (fl_machine [0x80301000, 0x80302000]) = Inr (Ok (), s') \<and>
    sv32_translate (mem s') 0x80300000 Load UMode 0x11234 = Some 0x80401234"
proof -
  have b: "bit (0b10110 :: usize) 1" "bit (0b10110 :: usize) 4" by (simp_all add: bit_numeral_rec)
  have "sv32_permits Load UMode 0b10110" using b by (simp add: sv32_permits_def)
  moreover have "in_range 0x10000 (unat (0x2000 :: usize)) 0x11234" by (simp add: in_range_def)
  moreover have "perm_mask 0b10110" by (simp add: perm_mask_def)
  moreover have "takes fl_env (unat (0x2000 :: usize) div 4096) (heap_st (fl_machine [0x80301000, 0x80302000])) \<noteq> None"
    by (simp add: fl_takes)
  ultimately show ?thesis
    using PageTable_map_correct [OF fl.platform_axioms, of "fl_machine [0x80301000, 0x80302000]"
        "\<lparr>pt_root = 0x80300000\<rparr>" "0x10000" "0x80400000" "0x2000" "0b10110"] fl_table_ok b
    by (fastforce simp: page_aligned_iff_dvd)
qed


section \<open>Unmapping\<close>

text \<open>
  C8. Unmapping whole pages of an address space that owns its user pages never fails: exactly the
  translations of the range disappear, the hardware faults on every address in it, and the heap
  gets back exactly the user pages of the range when \<open>free\<close> is set and none otherwise; the
  table's own pages stay allocated.
\<close>

theorem PageTable_unmap_correct:
  assumes "platform E hwf live lo hi" "owned hwf live s (pt_root pt)"
    and "page_aligned virt" "page_aligned sz" "unat virt + unat sz < 2 ^ 32"
  shows "\<exists>s'. PageTable_unmap E pt virt sz free s = Inr (Ok (), s') \<and>
    unmapped hwf live (pt_root pt) free virt (unat sz) s s' \<and>
    (\<forall>va acc p. sv32_translate (mem s') (pt_root pt) acc p va =
      (if in_range virt (unat sz) va then None else sv32_translate (mem s) (pt_root pt) acc p va))"
proof -
  let ?r = "pt_root pt"
  obtain s' where s': "PageTable_unmap E pt virt sz free s = Inr (Ok (), s')"
      "unmapped hwf live ?r free virt (unat sz) s s'"
    using platform.unmap_refines [OF assms] by blast
  have wf: "pt_wf (mem s) ?r" "pt_wf (mem s') ?r"
    using assms(2) s'(2) by (auto simp: unmapped_def owned_def table_ok_def)
  have "leaf (mem s') ?r = as_unmap virt (unat sz) (leaf (mem s) ?r)"
    using s'(2) by (simp add: unmapped_def)
  then have "sv32_translate (mem s') ?r acc p va =
      (if in_range virt (unat sz) va then None else sv32_translate (mem s) ?r acc p va)" for va acc p
    by (simp add: sv32_translate_leaf [OF wf(1)] sv32_translate_leaf [OF wf(2)] as_unmap_def)
  then show ?thesis using s' by blast
qed

theorem PageTable_unmap_correct_witness:
  "\<exists>s'. PageTable_unmap fl_env \<lparr>pt_root = 0x80300000\<rparr> 0x10000 0x2000 True
      (fl_machine [0x80301000, 0x80302000]) = Inr (Ok (), s') \<and>
    sv32_translate (mem s') 0x80300000 Load UMode 0x10004 = None"
proof -
  have "in_range 0x10000 (unat (0x2000 :: usize)) 0x10004" by (simp add: in_range_def)
  then show ?thesis
    using PageTable_unmap_correct [OF fl.platform_axioms, of "fl_machine [0x80301000, 0x80302000]"
        "\<lparr>pt_root = 0x80300000\<rparr>" "0x10000" "0x2000" True] fl_owned
    by (fastforce simp: page_aligned_iff_dvd)
qed

section \<open>The kernel's own translation\<close>

text \<open>
  C21. On a well-formed table \<open>walkaddr\<close> changes nothing and finds the address of every access
  the hardware would translate, in either mode.
\<close>

theorem walkaddr_agrees_with_hardware:
  assumes "pt_wf (mem s) (pt_root pt)" "sv32_translate (mem s) (pt_root pt) acc p va = Some pa"
  shows "walkaddr E pt va s = Inr (Some pa, s)"
proof -
  obtain w where "leaf (mem s) (pt_root pt) va = Some w" "sv32_leaf_ok w" "pa = pte_page w + va mod 4096"
    using assms(2) unfolding sv32_translate_leaf [OF assms(1)] by (auto split: option.splits if_splits)
  then show ?thesis
    by (auto simp: walkaddr_leaf [OF assms(1)] sv32_leaf_ok_def has_perm_def)
qed

theorem walkaddr_agrees_with_hardware_witness:
  "walkaddr fl_env \<lparr>pt_root = 0x80300000\<rparr> 0x10abc ((fl_machine [])\<lparr>mem := demo_mem\<rparr>) =
    Inr (Some 0x80400abc, (fl_machine [])\<lparr>mem := demo_mem\<rparr>)"
  by (rule walkaddr_agrees_with_hardware [where acc = Store and p = UMode])
    (simp_all add: demo_table demo_translate)

section \<open>Release\<close>



text \<open>
  C34. Dropping a table while a page is still mapped panics, wherever the page is, as long as every
  mapped page has a permission bit.
\<close>

theorem PageTable_drop_mapped:
  assumes "pt_wf (mem s) (pt_root pt)" "\<And>va w. leaf (mem s) (pt_root pt) va = Some w \<Longrightarrow> has_perm w"
    and "leaf (mem s) (pt_root pt) va = Some w"
  shows "PageTable_drop E pt s = Inl (Panic ''unmapping allocated page'')"
  using PageTable_free_mapped [OF assms] by (simp add: PageTable_drop_def)

theorem PageTable_drop_mapped_witness:
  "PageTable_drop fl_env \<lparr>pt_root = 0x80300000\<rparr> ((fl_machine [])\<lparr>mem := demo_mem\<rparr>) =
    Inl (Panic ''unmapping allocated page'')"
proof (rule PageTable_drop_mapped)
  have al: "page_aligned 0x80400000" by (simp add: page_aligned_iff_dvd)
  show "has_perm w" if "leaf (mem ((fl_machine [])\<lparr>mem := demo_mem\<rparr>))
      (pt_root \<lparr>pt_root = 0x80300000\<rparr>) va = Some w" for va w
    using that leaf_word_bits [OF al, of 1 "0b10110"] user_rw_bits
    by (auto simp: demo_table has_perm_def split: if_splits)
  show "leaf (mem ((fl_machine [])\<lparr>mem := demo_mem\<rparr>)) (pt_root \<lparr>pt_root = 0x80300000\<rparr>) 0x10000 =
      Some (leaf_word 0x80400000 0b10110)"
    by (simp add: demo_table page_aligned_iff_dvd)
qed (simp add: demo_table)

end
