(* ===== verification/UvmSpec.thy ===== *)
theory UvmSpec
  imports Uvm UserCopy PageTableProps
begin

text \<open>
  The invariant of user address spaces and its preservation. \<open>uvm_ok\<close> says that the page
  table is well-formed and owns its user pages, that user pages lie in the range from
  \<open>USER_START\<close> to the end of the address space, and that the only other mappings are the
  trampoline and the trapframe, without the user bit. Under it, \<open>free\<close> and the drop of an
  address space never panic.
\<close>

section \<open>The invariant\<close>

definition uvm_leaf_ok :: "addr_space \<Rightarrow> Uvm \<Rightarrow> bool" where
  "uvm_leaf_ok f uv \<longleftrightarrow> (\<forall>va w. f va = Some w \<longrightarrow> has_perm w \<and>
     (if bit w 4 then in_range (uvm_begin uv) (unat (uvm_size uv)) va
      else page_of va = TRAMPOLINE \<or> page_of va = TRAPFRAME))"

abbreviation uvm_leaf :: "('h, 'z) machine_scheme \<Rightarrow> Uvm \<Rightarrow> addr_space" where
  "uvm_leaf s uv \<equiv> leaf (mem s) (pt_root (uvm_pagetable uv))"

abbreviation uvm_frames :: "('h, 'z) machine_scheme \<Rightarrow> Uvm \<Rightarrow> usize set" where
  "uvm_frames s uv \<equiv> pt_frames (mem s) (pt_root (uvm_pagetable uv))"

definition uvm_dims :: "Uvm \<Rightarrow> bool" where
  "uvm_dims uv \<longleftrightarrow> uvm_begin uv = USER_START \<and> page_aligned (uvm_size uv) \<and>
     unat USER_START + unat (uvm_size uv) \<le> unat TRAPFRAME"

definition uvm_ok :: "('h \<Rightarrow> bool) \<Rightarrow> ('h \<Rightarrow> usize set) \<Rightarrow> ('h, 'z) machine_scheme \<Rightarrow> Uvm \<Rightarrow> bool" where
  "uvm_ok hwf live s uv \<longleftrightarrow> owned hwf live s (pt_root (uvm_pagetable uv)) \<and> uvm_dims uv \<and>
     uvm_leaf_ok (uvm_leaf s uv) uv"

lemma uvm_okD:
  assumes "uvm_ok hwf live s uv"
  shows "owned hwf live s (pt_root (uvm_pagetable uv))" "table_ok hwf live s (pt_root (uvm_pagetable uv))"
    "heap_ready s" "hwf (heap_st s)" "uvm_dims uv" "uvm_leaf_ok (uvm_leaf s uv) uv"
  using assms by (auto simp: uvm_ok_def owned_def table_ok_def)

lemma uvm_dimsD:
  assumes "uvm_dims uv"
  shows "uvm_begin uv = USER_START" "page_aligned (uvm_begin uv)" "page_aligned (uvm_size uv)"
    "unat (uvm_begin uv) + unat (uvm_size uv) \<le> unat TRAPFRAME"
    "unat (uvm_begin uv) + unat (uvm_size uv) < 2 ^ 32"
  using assms by (simp_all add: uvm_dims_def USER_START_def TRAPFRAME_num page_aligned_iff_dvd)

lemma user_leaf_iff: "has_perm w \<Longrightarrow> user_leaf w \<longleftrightarrow> bit w 4"
  by (simp add: user_leaf_def has_perm_def)

text \<open>An address below the end is not on the trampoline or trapframe page.\<close>

lemma user_range_page:
  assumes "uvm_dims uv" "in_range (uvm_begin uv) (unat (uvm_size uv)) va"
  shows "page_of va \<noteq> TRAMPOLINE" "page_of va \<noteq> TRAPFRAME"
proof -
  have "unat va < unat TRAPFRAME"
    using uvm_dimsD(4) [OF assms(1)] assms(2) by (simp add: in_range_def)
  moreover have "unat (page_of va) \<le> unat va"
    by (simp add: unat_page_of)
  ultimately have "unat (page_of va) < unat TRAPFRAME" by simp
  then show "page_of va \<noteq> TRAMPOLINE" "page_of va \<noteq> TRAPFRAME"
    by (auto simp: TRAPFRAME_num TRAMPOLINE_num)
qed

text \<open>
  With the trampoline and trapframe pages gone, the user range holds every mapping that is left.
\<close>

lemma user_leaf_in_range:
  assumes "uvm_leaf_ok f uv" "f va = Some w" "user_leaf w"
  shows "in_range (uvm_begin uv) (unat (uvm_size uv)) va"
proof -
  have "bit w 4" using assms(3) by (simp add: user_leaf_def)
  then show ?thesis using assms(1,2) unfolding uvm_leaf_ok_def by metis
qed

lemma unmapped_all:
  assumes "uvm_leaf_ok f uv" "\<And>va w. g va = Some w \<longleftrightarrow>
      f va = Some w \<and> page_of va \<noteq> TRAMPOLINE \<and> page_of va \<noteq> TRAPFRAME"
  shows "as_unmap (uvm_begin uv) (unat (uvm_size uv)) g = (\<lambda>_. None)"
proof
  fix va
  show "as_unmap (uvm_begin uv) (unat (uvm_size uv)) g va = None"
  proof (cases "g va")
    case (Some w)
    then have "in_range (uvm_begin uv) (unat (uvm_size uv)) va"
      using assms(1) assms(2) [of va w] unfolding uvm_leaf_ok_def by metis
    then show ?thesis by (simp add: as_unmap_def)
  qed (simp add: as_unmap_def)
qed

lemma user_words_range:
  assumes "uvm_dims uv" "uvm_leaf_ok f uv" "\<And>va w. g va = Some w \<longleftrightarrow>
      f va = Some w \<and> page_of va \<noteq> TRAMPOLINE \<and> page_of va \<noteq> TRAPFRAME"
  shows "user_words g (in_range (uvm_begin uv) (unat (uvm_size uv))) = user_words f (\<lambda>_. True)"
  unfolding user_words_def assms(3)
  using user_leaf_in_range [OF assms(2)] user_range_page [OF assms(1)] by blast

lemma unmappedD:
  assumes "unmapped hwf live r free base n s s'"
  shows "owned hwf live s' r" "same_rest s s'" "pt_frames (mem s') r = pt_frames (mem s) r"
    "leaf (mem s') r = as_unmap base n (leaf (mem s) r)"
    "live (heap_st s') = live (heap_st s) - released free base n (leaf (mem s) r)"
    "q \<notin> pt_frames (mem s) r \<Longrightarrow> same_page (mem s) (mem s') q"
  using assms unfolding unmapped_def by blast+

section \<open>Frames of the invariant\<close>

text \<open>The invariant depends on the table's pages and on the heap's view of the pages it uses.\<close>

lemma owned_transfer:
  assumes "owned hwf live s r" "same_rest s s'" "hwf (heap_st s')"
    and "\<And>q. q \<in> pt_frames (mem s) r \<Longrightarrow> same_page (mem s) (mem s') q"
    and "pt_frames (mem s) r \<union> user_pages (leaf (mem s) r) \<subseteq> live (heap_st s')"
  shows "owned hwf live s' r" "leaf (mem s') r = leaf (mem s) r"
    "pt_frames (mem s') r = pt_frames (mem s) r"
proof -
  have ok: "pt_wf (mem s) r" "heap_ready s"
    using assms(1) by (auto simp: owned_def table_ok_def)
  have r: "same_page (mem s) (mem s') r" using assms(4) by simp
  show fr: "pt_frames (mem s') r = pt_frames (mem s) r"
    using pt_frames_frame [OF r] ok by (simp add: pt_wfD)
  show lf: "leaf (mem s') r = leaf (mem s) r"
    using leaf_frame [OF ok(1) assms(4)] by auto
  show "owned hwf live s' r"
    using assms(1,3,5) pt_wf_frame [OF r ok(1)] heap_ready_same_rest [OF ok(2) assms(2)]
    by (auto simp: owned_def table_ok_def lf fr)
qed

lemma uvm_ok_transfer:
  assumes "uvm_ok hwf live s uv" "same_rest s s'" "hwf (heap_st s')"
    and "\<And>q. q \<in> uvm_frames s uv \<Longrightarrow> same_page (mem s) (mem s') q"
    and "uvm_frames s uv \<union> user_pages (uvm_leaf s uv) \<subseteq> live (heap_st s')"
  shows "uvm_ok hwf live s' uv" "uvm_leaf s' uv = uvm_leaf s uv" "uvm_frames s' uv = uvm_frames s uv"
  using owned_transfer [OF uvm_okD(1) [OF assms(1)] assms(2-5)] assms(1)
  by (simp_all add: uvm_ok_def)

section \<open>Mapping one page\<close>

lemma as_map_page:
  "page_aligned v \<Longrightarrow> as_map v a 4096 perm f =
    (\<lambda>va. if page_of va = v then Some (leaf_word a perm) else f va)"
  by (rule ext) (simp add: as_map_def page_range)

lemma user_words_as_map:
  assumes "page_aligned v" "page_aligned a" "perm_mask perm"
  shows "user_pages (as_map v a 4096 perm f) \<subseteq>
    user_pages f \<union> (if user_leaf (leaf_word a perm) then {a} else {})"
  using leaf_word_page [OF assms(2,3)]
  by (auto simp: user_pages_def user_words_def as_map_page [OF assms(1)] split: if_splits)

lemma user_inj_as_map:
  assumes "user_inj f" "page_aligned v" "page_aligned a" "perm_mask perm"
    and "user_leaf (leaf_word a perm) \<Longrightarrow> a \<notin> user_pages f"
  shows "user_inj (as_map v a 4096 perm f)"
proof -
  have other: "pte_page x \<noteq> a" if "user_leaf (leaf_word a perm)" "f vb = Some x" "user_leaf x" for vb x
    using assms(5) that by (auto simp: user_pages_def user_words_def)
  show ?thesis
    unfolding user_inj_def as_map_page [OF assms(2)]
    using assms(1) other leaf_word_page [OF assms(3,4)] unfolding user_inj_def
    by (metis option.inject)
qed

context platform
begin

text \<open>
  Entering one page: the table keeps owning its user pages if a page entered for the user is
  handed out and not in use.
\<close>

lemma map_page_owned:
  assumes "owned hwf live s (pt_root pt)" "page_aligned v" "unat v + 4096 < 2 ^ 32"
    and "page_aligned a" "unat a + 4096 < 2 ^ 32" "perm_mask perm"
    and "user_leaf (leaf_word a perm) \<Longrightarrow> a \<in> live (heap_st s) \<and> a \<notin> pt_frames (mem s) (pt_root pt) \<and>
      a \<notin> user_pages (leaf (mem s) (pt_root pt))"
  obtains res s' where "PageTable_map E pt v a PAGESIZE perm s = Inr (res, s')"
    "grows hwf live (pt_root pt) s s'" "owned hwf live s' (pt_root pt)"
    "leaf (mem s') (pt_root pt) = (if res = Ok () then as_map v a 4096 perm (leaf (mem s) (pt_root pt))
       else leaf (mem s) (pt_root pt))" "served E (Suc 0) (heap_st s) (res = Ok ()) (heap_st s')"
proof -
  let ?r = "pt_root pt"
  let ?f = "leaf (mem s) ?r"
  have ok: "table_ok hwf live s ?r" and inj: "user_inj ?f"
    and up: "user_pages ?f \<subseteq> live (heap_st s) - pt_frames (mem s) ?r"
    using assms(1) by (auto simp: owned_def)
  have sz: "page_aligned PAGESIZE" "unat PAGESIZE = 4096"
    by (simp_all add: PAGESIZE_num page_aligned_iff_dvd)
  have b: "unat v + unat PAGESIZE < 2 ^ 32" "unat a + unat PAGESIZE < 2 ^ 32"
    using assms(3,5) by (simp_all add: sz(2))
  obtain res s' k where map: "PageTable_map E pt v a PAGESIZE perm s = Inr (res, s')"
    and g: "grows hwf live ?r s s'"
    and k': "k \<le> unat PAGESIZE div 4096" "res = Ok () \<longleftrightarrow> k = unat PAGESIZE div 4096"
    and lf: "leaf (mem s') ?r = as_map v a (4096 * k) perm ?f"
    and sv: "served E (unat PAGESIZE div 4096) (heap_st s) (res = Ok ()) (heap_st s')"
    using map_refines [OF ok assms(2,4) sz(1) b, of perm] by blast
  have k: "k \<le> 1" "res = Ok () \<longleftrightarrow> k = 1" using k' by (simp_all add: sz(2))
  have lf': "leaf (mem s') ?r = (if res = Ok () then as_map v a 4096 perm ?f else ?f)"
    using lf k by (cases "k = 0") (auto simp: le_Suc_eq)
  have "user_inj (leaf (mem s') ?r)"
    using inj user_inj_as_map [OF inj assms(2,4,6)] assms(7) by (simp add: lf')
  moreover have "user_pages (leaf (mem s') ?r) \<subseteq> live (heap_st s') - pt_frames (mem s') ?r"
    using user_words_as_map [OF assms(2,4,6), of ?f] up assms(7) growsD(3,4) [OF g]
    by (auto simp: lf' split: if_splits)
  ultimately have "owned hwf live s' ?r"
    using growsD(1) [OF g] by (simp add: owned_def)
  then show thesis using that map g lf' sv sz(2) by simp
qed

text \<open>A new address space is empty.\<close>

lemma Uvm_new_cases:
  assumes "heap_ready s" "hwf (heap_st s)"
  obtains (oom) "Uvm_new E s = Inl (Panic ''failed to allocate root page table'')"
      "takes E (Suc 0) (heap_st s) = None"
  | (created) uv s' where "Uvm_new E s = Inr (Ok uv, s')" "uvm_ok hwf live s' uv"
      "uvm_leaf s' uv = (\<lambda>_. None)" "uvm_begin uv = USER_START" "uvm_size uv = 0"
      "uvm_frames s' uv = {pt_root (uvm_pagetable uv)}" "pt_root (uvm_pagetable uv) \<notin> live (heap_st s)"
      "live (heap_st s') = insert (pt_root (uvm_pagetable uv)) (live (heap_st s))" "same_rest s s'"
      "\<And>q. q \<noteq> pt_root (uvm_pagetable uv) \<Longrightarrow> same_page (mem s) (mem s') q"
      "served E (Suc 0) (heap_st s) True (heap_st s')"
  using assms
proof (cases rule: PageTable_new_cases)
  case oom
  then show ?thesis using that(1) by (simp add: Uvm_new_def)
next
  case (created a h)
  let ?s = "(refresh_prev s)\<lparr>heap_st := h, mem := write_bytes (mem s) a 0 4096\<rparr>"
  let ?uv = "\<lparr>uvm_begin = USER_START, uvm_size = 0, uvm_pagetable = \<lparr>pt_root = a\<rparr>\<rparr>"
  note n = new_table_owned [OF assms(1) created(2-6) refl]
  have "uvm_ok hwf live ?s ?uv"
    using n(1,2)
    by (simp add: uvm_ok_def uvm_dims_def uvm_leaf_ok_def page_aligned_iff_dvd USER_START_def TRAPFRAME_num)
  then show ?thesis
    using n created by (intro that(2) [of ?uv ?s]) (simp_all add: Uvm_new_def)
qed

lemma unmap_one_page:
  assumes "owned hwf live s (pt_root pt)" "page_aligned v" "unat v + 4096 < 2 ^ 32"
  obtains s' where "PageTable_unmap E pt v PAGESIZE free s = Inr (Ok (), s')"
    "unmapped hwf live (pt_root pt) free v 4096 s s'"
proof -
  have "page_aligned PAGESIZE" "unat PAGESIZE = 4096"
    by (simp_all add: PAGESIZE_num page_aligned_iff_dvd)
  then show thesis using unmap_refines [OF assms(1,2), of PAGESIZE free] assms(3) that by auto
qed

text \<open>The trampoline and the trapframe go first; no user page is touched.\<close>

lemma unmap_kernel_pages:
  assumes "owned hwf live s (pt_root pt)"
  obtains s1 s2 where "PageTable_unmap E pt TRAMPOLINE PAGESIZE False s = Inr (Ok (), s1)"
    "PageTable_unmap E pt TRAPFRAME PAGESIZE False s1 = Inr (Ok (), s2)"
    "owned hwf live s2 (pt_root pt)" "same_rest s s2" "live (heap_st s2) = live (heap_st s)"
    "pt_frames (mem s2) (pt_root pt) = pt_frames (mem s) (pt_root pt)"
    "\<And>va w. leaf (mem s2) (pt_root pt) va = Some w \<longleftrightarrow>
      leaf (mem s) (pt_root pt) va = Some w \<and> page_of va \<noteq> TRAMPOLINE \<and> page_of va \<noteq> TRAPFRAME"
    "\<And>q. q \<notin> pt_frames (mem s) (pt_root pt) \<Longrightarrow> same_page (mem s) (mem s2) q"
proof -
  have T: "page_aligned TRAMPOLINE" "unat TRAMPOLINE + 4096 < 2 ^ 32"
      "page_aligned TRAPFRAME" "unat TRAPFRAME + 4096 < 2 ^ 32"
    by (simp_all add: TRAMPOLINE_num TRAPFRAME_num page_aligned_iff_dvd)
  obtain s1 where s1: "PageTable_unmap E pt TRAMPOLINE PAGESIZE False s = Inr (Ok (), s1)"
      "unmapped hwf live (pt_root pt) False TRAMPOLINE 4096 s s1"
    using unmap_one_page [OF assms T(1,2)] by blast
  note u1 = unmappedD [OF s1(2)]
  obtain s2 where s2: "PageTable_unmap E pt TRAPFRAME PAGESIZE False s1 = Inr (Ok (), s2)"
      "unmapped hwf live (pt_root pt) False TRAPFRAME 4096 s1 s2"
    using unmap_one_page [OF u1(1) T(3,4)] by blast
  note u2 = unmappedD [OF s2(2)]
  show thesis
  proof (rule that [OF s1(1) s2(1) u2(1) same_rest_trans [OF u1(2) u2(2)]])
    show "live (heap_st s2) = live (heap_st s)" using u1(5) u2(5) by (simp add: released_def)
    show "pt_frames (mem s2) (pt_root pt) = pt_frames (mem s) (pt_root pt)" using u1(3) u2(3) by simp
    show "leaf (mem s2) (pt_root pt) va = Some w \<longleftrightarrow>
        leaf (mem s) (pt_root pt) va = Some w \<and> page_of va \<noteq> TRAMPOLINE \<and> page_of va \<noteq> TRAPFRAME" for va w
      by (auto simp: u1(4) u2(4) page_range T(1,3))
    show "same_page (mem s) (mem s2) q" if "q \<notin> pt_frames (mem s) (pt_root pt)" for q
      using same_page_trans [OF u1(6) u2(6)] that u1(3) by simp
  qed
qed

text \<open>
  \<open>free\<close> unmaps everything and gives back exactly the user pages.
\<close>

lemma Uvm_free_correct:
  assumes "uvm_ok hwf live s uv"
  obtains s' where "Uvm_free E uv s = Inr ((), s')" "owned hwf live s' (pt_root (uvm_pagetable uv))"
    "uvm_leaf s' uv = (\<lambda>_. None)" "uvm_frames s' uv = uvm_frames s uv" "same_rest s s'"
    "live (heap_st s') = live (heap_st s) - user_pages (uvm_leaf s uv)"
    "\<And>q. q \<notin> uvm_frames s uv \<Longrightarrow> same_page (mem s) (mem s') q"
proof -
  let ?pt = "uvm_pagetable uv" and ?f = "uvm_leaf s uv"
  let ?rng = "in_range (uvm_begin uv) (unat (uvm_size uv))"
  note ok = uvm_okD [OF assms]
  note dims = uvm_dimsD [OF ok(5)]
  obtain s1 s2 where s1: "PageTable_unmap E ?pt TRAMPOLINE PAGESIZE False s = Inr (Ok (), s1)"
    and s2: "PageTable_unmap E ?pt TRAPFRAME PAGESIZE False s1 = Inr (Ok (), s2)"
      "owned hwf live s2 (pt_root ?pt)" "same_rest s s2" "live (heap_st s2) = live (heap_st s)"
      "uvm_frames s2 uv = uvm_frames s uv"
    and f2: "\<And>va w. uvm_leaf s2 uv va = Some w \<longleftrightarrow>
      ?f va = Some w \<and> page_of va \<noteq> TRAMPOLINE \<and> page_of va \<noteq> TRAPFRAME"
    and p2: "\<And>q. q \<notin> uvm_frames s uv \<Longrightarrow> same_page (mem s) (mem s2) q"
    using unmap_kernel_pages [OF ok(1)] by blast
  obtain s3 where s3: "Uvm_free E uv s = Inr ((), s3)"
      "unmapped hwf live (pt_root ?pt) True (uvm_begin uv) (unat (uvm_size uv)) s2 s3"
  proof (cases "uvm_size uv = 0")
    case True
    then have "Uvm_free E uv s = Inr ((), s2)"
      using s1(1) s2(1) by (simp add: Uvm_free_def unwrap_result_def)
    then show ?thesis using that unmapped_refl [OF s2(2)] True by simp
  next
    case False
    obtain s3 where "PageTable_unmap E ?pt (uvm_begin uv) (uvm_size uv) True s2 = Inr (Ok (), s3)"
        "unmapped hwf live (pt_root ?pt) True (uvm_begin uv) (unat (uvm_size uv)) s2 s3"
      using unmap_refines [OF s2(2) dims(2,3,5)] by blast
    then show ?thesis
      using that False s1(1) s2(1)
      by (simp add: Uvm_free_def unwrap_result_def word_neq_0_conv)
  qed
  note u3 = unmappedD [OF s3(2)]
  show thesis
  proof (rule that [OF s3(1) u3(1)])
    show "uvm_leaf s3 uv = (\<lambda>_. None)"
      using unmapped_all [OF ok(6) f2] by (simp add: u3(4))
    show "live (heap_st s3) = live (heap_st s) - user_pages ?f"
      using user_words_range [OF ok(5,6) f2] by (simp add: u3(5) s2(4) released_def user_pages_def)
    show "same_page (mem s) (mem s3) q" if "q \<notin> uvm_frames s uv" for q
      using same_page_trans [OF p2 u3(6)] that s2(5) by simp
  qed (use u3(3) s2(5) same_rest_trans [OF s2(3) u3(2)] in auto)
qed

text \<open>
  The drop of an address space never panics; it gives back the user pages and the root page.
\<close>

lemma Uvm_drop_correct:
  assumes "uvm_ok hwf live s uv"
  obtains s' where "Uvm_drop E uv s = Inr ((), s')" "hwf (heap_st s')" "same_rest s s'"
    "live (heap_st s') = live (heap_st s) - user_pages (uvm_leaf s uv) - {pt_root (uvm_pagetable uv)}"
    "\<And>q. q \<notin> uvm_frames s uv \<Longrightarrow> same_page (mem s) (mem s') q"
proof -
  obtain s1 where s1: "Uvm_free E uv s = Inr ((), s1)" "owned hwf live s1 (pt_root (uvm_pagetable uv))"
    "uvm_leaf s1 uv = (\<lambda>_. None)" "uvm_frames s1 uv = uvm_frames s uv" "same_rest s s1"
    "live (heap_st s1) = live (heap_st s) - user_pages (uvm_leaf s uv)"
    and p1: "\<And>q. q \<notin> uvm_frames s uv \<Longrightarrow> same_page (mem s) (mem s1) q"
    using Uvm_free_correct [OF assms] by blast
  obtain s2 where s2: "PageTable_free E (uvm_pagetable uv) s1 = Inr ((), s2)" "hwf (heap_st s2)"
    "live (heap_st s2) = live (heap_st s1) - {pt_root (uvm_pagetable uv)}" "same_rest s1 s2"
    and p2: "\<And>q. q \<notin> uvm_frames s1 uv \<Longrightarrow> same_page (mem s1) (mem s2) q"
    using PageTable_free_empty [OF owned_table_ok [OF s1(2)] s1(3)] by blast
  show thesis
  proof (rule that)
    show "Uvm_drop E uv s = Inr ((), s2)" using s1(1) s2(1) by (simp add: Uvm_drop_def PageTable_drop_def)
    show "same_page (mem s) (mem s2) q" if "q \<notin> uvm_frames s uv" for q
      using same_page_trans [OF p1 p2] that s1(4) by simp
  qed (use s1 s2 same_rest_trans in auto)
qed

end

section \<open>Growing\<close>

text \<open>
  What growing an address space may do: the old translations stay, the new pages are fresh from
  the heap and mapped with the permission and the user bit, and nothing but table pages changes.
\<close>

definition new_range :: "Uvm \<Rightarrow> Uvm \<Rightarrow> usize \<Rightarrow> bool" where
  "new_range uv uv' va \<longleftrightarrow> unat (uvm_begin uv) + unat (uvm_size uv) \<le> unat va \<and>
     unat va < unat (uvm_begin uv) + unat (uvm_size uv')"

definition uvm_grown :: "('h \<Rightarrow> bool) \<Rightarrow> ('h \<Rightarrow> usize set) \<Rightarrow> usize \<Rightarrow> Uvm \<Rightarrow> ('h, 'z) machine_scheme \<Rightarrow>
    Uvm \<Rightarrow> ('h, 'z) machine_scheme \<Rightarrow> bool" where
  "uvm_grown hwf live perm uv s uv' s' \<longleftrightarrow>
     uvm_ok hwf live s' uv' \<and> same_rest s s' \<and>
     uvm_pagetable uv' = uvm_pagetable uv \<and> uvm_begin uv' = uvm_begin uv \<and> uvm_size uv \<le> uvm_size uv' \<and>
     live (heap_st s') = live (heap_st s) \<union> uvm_frames s' uv \<union> user_pages (uvm_leaf s' uv) \<and>
     uvm_frames s' uv \<inter> live (heap_st s) = uvm_frames s uv \<and>
     (\<forall>q. q \<notin> uvm_frames s' uv \<longrightarrow> same_page (mem s) (mem s') q) \<and>
     (\<forall>va. \<not> new_range uv uv' va \<longrightarrow> uvm_leaf s' uv va = uvm_leaf s uv va) \<and>
     (\<forall>va. new_range uv uv' va \<longrightarrow> (if perm = 0 then uvm_leaf s' uv va = None else
        \<exists>a. uvm_leaf s' uv va = Some (leaf_word a (perm OR PTE_U)) \<and> page_aligned a \<and> a \<notin> live (heap_st s)))"

lemma uvm_grownD:
  assumes "uvm_grown hwf live perm uv s uv' s'"
  shows "uvm_ok hwf live s' uv'" "same_rest s s'"
    "uvm_pagetable uv' = uvm_pagetable uv" "uvm_begin uv' = uvm_begin uv" "uvm_size uv \<le> uvm_size uv'"
    "live (heap_st s') = live (heap_st s) \<union> uvm_frames s' uv \<union> user_pages (uvm_leaf s' uv)"
    "uvm_frames s' uv \<inter> live (heap_st s) = uvm_frames s uv"
    "q \<notin> uvm_frames s' uv \<Longrightarrow> same_page (mem s) (mem s') q"
    "\<not> new_range uv uv' va \<Longrightarrow> uvm_leaf s' uv va = uvm_leaf s uv va"
    "new_range uv uv' va \<Longrightarrow> perm = 0 \<Longrightarrow> uvm_leaf s' uv va = None"
    "new_range uv uv' va \<Longrightarrow> perm \<noteq> 0 \<Longrightarrow> \<exists>a. uvm_leaf s' uv va = Some (leaf_word a (perm OR PTE_U)) \<and>
       page_aligned a \<and> a \<notin> live (heap_st s)"
  using assms unfolding uvm_grown_def by meson+

lemma in_range_not_new: "in_range (uvm_begin uv) (unat (uvm_size uv)) va \<Longrightarrow> \<not> new_range uv uv' va"
  by (simp add: in_range_def new_range_def)

lemma new_range_refl [simp]: "\<not> new_range uv uv va"
  by (simp add: new_range_def)

lemma uvm_grown_user_pages:
  assumes "uvm_ok hwf live s uv" "\<And>va. \<not> new_range uv uv' va \<Longrightarrow> uvm_leaf s' uv va = uvm_leaf s uv va"
  shows "user_pages (uvm_leaf s uv) \<subseteq> user_pages (uvm_leaf s' uv)"
proof
  fix p assume "p \<in> user_pages (uvm_leaf s uv)"
  then obtain va w where w: "p = pte_page w" "uvm_leaf s uv va = Some w" "user_leaf w"
    by (auto simp: user_pages_def user_words_def)
  then have "uvm_leaf s' uv va = Some w"
    using assms(2) in_range_not_new [OF user_leaf_in_range [OF uvm_okD(6) [OF assms(1)] w(2,3)]]
    by metis
  then show "p \<in> user_pages (uvm_leaf s' uv)" using w by (auto simp: user_pages_def user_words_def)
qed

lemma uvm_grown_refl:
  assumes "uvm_ok hwf live s uv"
  shows "uvm_grown hwf live perm uv s uv s"
  using assms by (auto simp: uvm_grown_def new_range_def uvm_ok_def owned_def table_ok_def)

lemma uvm_grown_trans:
  assumes "uvm_grown hwf live perm uv s uv1 s1" "uvm_grown hwf live perm uv1 s1 uv2 s2"
  shows "uvm_grown hwf live perm uv s uv2 s2"
proof -
  note a = uvm_grownD [OF assms(1)] and b0 = uvm_grownD [OF assms(2)]
  note b = b0 [unfolded a(3)]
  have le: "unat (uvm_size uv) \<le> unat (uvm_size uv1)" "unat (uvm_size uv1) \<le> unat (uvm_size uv2)"
    using a(5) b0(5) by (simp_all add: word_le_nat_alt)
  have split: "new_range uv uv2 va \<longleftrightarrow> new_range uv uv1 va \<or> new_range uv1 uv2 va" for va
    using le by (auto simp: new_range_def a(4))
  have excl: "new_range uv uv1 va \<Longrightarrow> \<not> new_range uv1 uv2 va" for va
    by (auto simp: new_range_def a(4))
  have up: "user_pages (uvm_leaf s1 uv) \<subseteq> user_pages (uvm_leaf s2 uv)"
    using uvm_grown_user_pages [OF a(1), of uv2 s2] b0(9) by (simp add: a(3))
  have fr: "uvm_frames s2 uv \<inter> live (heap_st s1) = uvm_frames s1 uv" using b0(7) by (simp add: a(3))
  have lv: "live (heap_st s2) = live (heap_st s) \<union> uvm_frames s2 uv \<union> user_pages (uvm_leaf s2 uv)"
    using a(6) b0(6) up fr by (auto simp: a(3))
  have pg: "same_page (mem s) (mem s2) q" if "q \<notin> uvm_frames s2 uv" for q
  proof -
    have "q \<notin> uvm_frames s1 uv" using that fr by blast
    then show ?thesis using same_page_trans [OF a(8)] b(8) that by blast
  qed
  have old: "uvm_leaf s2 uv va = uvm_leaf s uv va" if "\<not> new_range uv uv2 va" for va
    using that a(9) b(9) split by metis
  have new: "if perm = 0 then uvm_leaf s2 uv va = None else
      \<exists>x. uvm_leaf s2 uv va = Some (leaf_word x (perm OR PTE_U)) \<and> page_aligned x \<and> x \<notin> live (heap_st s)"
    if "new_range uv uv2 va" for va
  proof (cases "new_range uv uv1 va")
    case True
    then show ?thesis using a(10,11) b(9) excl by metis
  next
    case False
    then have "new_range uv1 uv2 va" using that split by blast
    then show ?thesis using b(10,11) a(6) by (metis UnCI)
  qed
  have fr2: "uvm_frames s2 uv \<inter> live (heap_st s) = uvm_frames s uv"
    using a(6,7) fr by blast
  show ?thesis
    unfolding uvm_grown_def
    using b0(1) same_rest_trans [OF a(2) b0(2)] a(3,4,5) b0(3,4,5) lv fr2 pg old new by auto
qed

text \<open>A permission of \<open>alloc\<close>: some of read, write and execute. With the user bit it is a
  user entry that the table can hold.\<close>

definition rwx_mask :: "usize \<Rightarrow> bool" where
  "rwx_mask perm \<longleftrightarrow> perm \<noteq> 0 \<and> perm AND NOT 0b1110 = 0"

lemma and_not_eq_0_iff: "(p :: usize) AND NOT x = 0 \<longleftrightarrow> (\<forall>n. bit p n \<longrightarrow> bit x n)"
  using bit_imp_le_length [of p] by (force simp: bit_eq_iff bit_simps)

lemma rwx_user:
  assumes "rwx_mask perm" "page_aligned a"
  shows "perm_mask (perm OR PTE_U)" "has_perm (leaf_word a (perm OR PTE_U))"
    "bit (leaf_word a (perm OR PTE_U)) 4" "user_leaf (leaf_word a (perm OR PTE_U))"
proof -
  have m: "(0b1110 :: usize) = push_bit 1 (mask 3)" "PTE_U = push_bit 4 1"
    by (simp_all add: mask_eq_exp_minus_1 PTE_U_def)
  have b: "1 \<le> n \<and> n \<le> 3" if "bit perm n" for n
  proof -
    have "bit (0b1110 :: usize) n"
      using assms(1) that unfolding rwx_mask_def and_not_eq_0_iff by blast
    then show ?thesis unfolding m bit_push_bit_iff bit_mask_iff by auto
  qed
  have mm: "(0b11110 :: usize) = push_bit 1 (mask 4)" by (simp add: mask_eq_exp_minus_1)
  have bits: "bit (0b11110 :: usize) n \<longleftrightarrow> 1 \<le> n \<and> n \<le> 4" "bit PTE_U n \<longleftrightarrow> n = 4" for n
    unfolding mm m(2) bit_push_bit_iff bit_mask_iff bit_1_iff by auto
  show "perm_mask (perm OR PTE_U)"
    unfolding perm_mask_def and_not_eq_0_iff bits bit_or_iff by (auto dest!: b)
  obtain n where n: "bit perm n" using assms(1) bit_eq_iff [of perm 0] by (auto simp: rwx_mask_def)
  then have "n = 1 \<or> n = 2 \<or> n = 3" using b [OF n] by auto
  then show p: "has_perm (leaf_word a (perm OR PTE_U))"
    using n by (auto simp: has_perm_def leaf_word_bits [OF assms(2)] bit_simps)
  show u: "bit (leaf_word a (perm OR PTE_U)) 4"
    by (simp add: leaf_word_bits [OF assms(2)] m(2) bit_simps)
  show "user_leaf (leaf_word a (perm OR PTE_U))" using p u by (simp add: user_leaf_iff)
qed

lemma uvm_room:
  assumes "uvm_dims uv" "uvm_size uv < sz" "unat USER_START + unat sz \<le> unat TRAPFRAME"
  shows "unat (uvm_size uv + 4096) = unat (uvm_size uv) + 4096"
    "uvm_dims (uv\<lparr>uvm_size := uvm_size uv + 4096\<rparr>)"
    "unat (uvm_begin uv + uvm_size uv) = unat (uvm_begin uv) + unat (uvm_size uv)"
    "page_aligned (uvm_begin uv + uvm_size uv)" "unat (uvm_begin uv + uvm_size uv) + 4096 < 2 ^ 32"
    "add_chk (uvm_size uv) PAGESIZE = Inr (uvm_size uv + 4096)"
    "Uvm_end uv = Inr (uvm_begin uv + uvm_size uv)"
proof -
  obtain k where k: "unat (uvm_size uv) = 4096 * k"
    using assms(1) by (auto simp: uvm_dims_def page_aligned_iff_dvd)
  have b: "uvm_begin uv = 0x10000" using assms(1) by (simp add: uvm_dims_def USER_START_def)
  have lt: "65536 + unat (uvm_size uv) + 4096 \<le> 0xffffd000"
    using assms(2,3) k by (simp add: word_less_nat_alt USER_START_def TRAPFRAME_num)
  show s: "unat (uvm_size uv + 4096) = unat (uvm_size uv) + 4096"
    using lt by (simp add: unat_word_ariths)
  show e: "unat (uvm_begin uv + uvm_size uv) = unat (uvm_begin uv) + unat (uvm_size uv)"
    using lt by (simp add: unat_word_ariths b)
  show "page_aligned (uvm_begin uv + uvm_size uv)" "unat (uvm_begin uv + uvm_size uv) + 4096 < 2 ^ 32"
    using lt by (simp_all only: page_aligned_iff_dvd e, simp_all add: k b)
  show "uvm_dims (uv\<lparr>uvm_size := uvm_size uv + 4096\<rparr>)"
    using lt by (simp add: uvm_dims_def b s k page_aligned_iff_dvd USER_START_def TRAPFRAME_num)
  show "add_chk (uvm_size uv) PAGESIZE = Inr (uvm_size uv + 4096)"
    using lt by (simp add: add_chk_def PAGESIZE_num)
  show "Uvm_end uv = Inr (uvm_begin uv + uvm_size uv)"
    using lt by (simp add: Uvm_end_def add_chk_def b)
qed

context platform
begin

text \<open>A fresh page entered at the end of the address space extends it by one page.\<close>

lemma uvm_page_added:
  assumes ok: "uvm_ok hwf live s uv" and sz: "uvm_size uv < sz" "unat USER_START + unat sz \<le> unat TRAPFRAME"
    and perm: "rwx_mask perm"
    and a: "page_aligned a" "a \<notin> live (heap_st s)" "live (heap_st s1) = insert a (live (heap_st s))"
    and s1: "same_rest s s1" "mem s1 = mem s"
    and g: "grows hwf live (pt_root (uvm_pagetable uv)) s1 s2" "owned hwf live s2 (pt_root (uvm_pagetable uv))"
    and lf: "uvm_leaf s2 uv = as_map (uvm_begin uv + uvm_size uv) a 4096 (perm OR PTE_U) (uvm_leaf s uv)"
  shows "uvm_grown hwf live perm uv s (uv\<lparr>uvm_size := uvm_size uv + 4096\<rparr>) s2"
proof -
  let ?v = "uvm_begin uv + uvm_size uv" and ?uv = "uv\<lparr>uvm_size := uvm_size uv + 4096\<rparr>"
  let ?w = "leaf_word a (perm OR PTE_U)"
  note room = uvm_room [OF uvm_okD(5) [OF ok] sz]
  note w = rwx_user [OF perm a(1)] leaf_word_page [OF a(1) rwx_user(1) [OF perm a(1)]]
  note L = lf [unfolded as_map_page [OF room(4)]]
  have rng: "page_of va = ?v \<longleftrightarrow> new_range uv ?uv va" for va
    using page_range [OF room(4), of va] room(1,3) by (auto simp: in_range_def new_range_def)
  have "has_perm x \<and> (if bit x 4 then in_range (uvm_begin uv) (unat (uvm_size uv) + 4096) va
      else page_of va = TRAMPOLINE \<or> page_of va = TRAPFRAME)" if x: "uvm_leaf s2 uv va = Some x" for va x
  proof (cases "page_of va = ?v")
    case True
    then have "new_range uv ?uv va" "x = ?w" using rng x L by auto
    then show ?thesis using w(2,3) room(1) by (simp add: new_range_def in_range_def)
  next
    case False
    then have "uvm_leaf s uv va = Some x" using x L by simp
    then show ?thesis using uvm_okD(6) [OF ok] unfolding uvm_leaf_ok_def in_range_def by fastforce
  qed
  then have "uvm_leaf_ok (uvm_leaf s2 uv) ?uv" by (simp add: uvm_leaf_ok_def room(1))
  then have ok2: "uvm_ok hwf live s2 ?uv" using g(2) room(2) by (simp add: uvm_ok_def)
  have up: "a \<in> user_pages (uvm_leaf s2 uv)"
  proof -
    have "uvm_leaf s2 uv ?v = Some ?w" using L room(4) by simp
    then show ?thesis using w(4,5) by (force simp: user_pages_def user_words_def)
  qed
  have "user_pages (uvm_leaf s uv) \<subseteq> live (heap_st s)" "uvm_frames s uv \<subseteq> live (heap_st s)"
    using uvm_okD(1) [OF ok] by (auto simp: owned_def table_ok_def)
  moreover have "user_pages (uvm_leaf s2 uv) \<subseteq> insert a (user_pages (uvm_leaf s uv))"
    using user_words_as_map [OF room(4) a(1) w(1), of "uvm_leaf s uv"] w(4) by (auto simp: lf)
  ultimately have "live (heap_st s2) = live (heap_st s) \<union> uvm_frames s2 uv \<union> user_pages (uvm_leaf s2 uv)"
    "uvm_frames s2 uv \<inter> live (heap_st s) = uvm_frames s uv"
    using up a(3) growsD(3,4) [OF g(1)] s1(2) by auto
  moreover have "uvm_size uv \<le> uvm_size uv + 4096" using room(1) by (simp add: word_le_nat_alt)
  ultimately show ?thesis
    unfolding uvm_grown_def
    using ok2 same_rest_trans [OF s1(1) growsD(2) [OF g(1)]] growsD(5) [OF g(1)] s1(2) L rng a(1,2) perm
    by (auto simp: rwx_mask_def)
qed

text \<open>If the page cannot be entered it goes back, and the address space is as before.\<close>

lemma uvm_page_returned:
  assumes ok: "uvm_ok hwf live s uv"
    and a: "a \<notin> live (heap_st s)" "live (heap_st s1) = insert a (live (heap_st s))"
    and s1: "same_rest s s1" "mem s1 = mem s"
    and g: "grows hwf live (pt_root (uvm_pagetable uv)) s1 s2" "owned hwf live s2 (pt_root (uvm_pagetable uv))"
    and lf: "uvm_leaf s2 uv = uvm_leaf s uv"
  obtains h where "LockedHeap_dealloc E a PAGE_LAYOUT s2 = Inr ((), (refresh_prev s2)\<lparr>heap_st := h\<rparr>)"
    "uvm_grown hwf live perm uv s uv ((refresh_prev s2)\<lparr>heap_st := h\<rparr>)"
proof -
  note okD = uvm_okD [OF ok]
  have used: "uvm_frames s uv \<subseteq> live (heap_st s)" "user_pages (uvm_leaf s uv) \<subseteq> live (heap_st s)"
    using okD(1) by (auto simp: owned_def table_ok_def)
  have "a \<in> live (heap_st s2)" using a(2) growsD(3) [OF g(1)] by simp
  then obtain h where h: "LockedHeap_dealloc E a PAGE_LAYOUT s2 = Inr ((), (refresh_prev s2)\<lparr>heap_st := h\<rparr>)"
      "live h = live (heap_st s2) - {a}" "hwf h"
    using page_dealloc [OF table_okD(1,2) [OF growsD(1) [OF g(1)]]] by blast
  let ?s = "(refresh_prev s2)\<lparr>heap_st := h\<rparr>"
  have ok2: "uvm_ok hwf live s2 uv" using g(2) okD(5,6) lf by (simp add: uvm_ok_def)
  have a2: "a \<notin> uvm_frames s2 uv" using growsD(4) [OF g(1)] a used s1(2) by auto
  have lv: "live h = live (heap_st s) \<union> uvm_frames s2 uv"
    using h(2) growsD(3) [OF g(1)] a a2 by auto
  have "uvm_frames s2 uv \<union> user_pages (uvm_leaf s2 uv) \<subseteq> live h"
    using lv used lf by auto
  then have "uvm_ok hwf live ?s uv" using uvm_ok_transfer(1) [OF ok2, of ?s] h by simp
  moreover have "uvm_frames s2 uv \<inter> live (heap_st s) = uvm_frames s uv"
    using growsD(4) [OF g(1)] a used s1(2) by auto
  moreover have "same_rest s s2" using same_rest_trans [OF s1(1) growsD(2) [OF g(1)]] .
  ultimately have "uvm_grown hwf live perm uv s uv ?s"
    using growsD(5) [OF g(1)] lf lv used s1(2) by (auto simp: uvm_grown_def)
  then show thesis using h(1) that by blast
qed

text \<open>One round of \<open>alloc\<close>.\<close>

lemma Uvm_alloc_round:
  assumes ok: "uvm_ok hwf live s uv" and sz: "uvm_size uv < sz" "unat USER_START + unat sz \<le> unat TRAPFRAME"
    and perm: "rwx_mask perm"
  obtains (oom) s' where "Uvm_alloc E uv sz perm s = Inr ((Err, uv), s')" "uvm_grown hwf live perm uv s uv s'"
      "served E 2 (heap_st s) False (heap_st s')"
  | (page) s' where "Uvm_alloc E uv sz perm s = Uvm_alloc E (uv\<lparr>uvm_size := uvm_size uv + 4096\<rparr>) sz perm s'"
      "uvm_grown hwf live perm uv s (uv\<lparr>uvm_size := uvm_size uv + 4096\<rparr>) s'"
      "served E 2 (heap_st s) True (heap_st s')"
proof -
  let ?r = "pt_root (uvm_pagetable uv)" and ?v = "uvm_begin uv + uvm_size uv"
  note okD = uvm_okD [OF ok]
  note room = uvm_room [OF okD(5) sz]
  have p0: "perm \<noteq> 0" using perm by (simp add: rwx_mask_def)
  have used: "uvm_frames s uv \<union> user_pages (uvm_leaf s uv) \<subseteq> live (heap_st s)"
    using okD(1) by (auto simp: owned_def table_ok_def)
  show thesis
    using okD(3,4)
  proof (cases rule: page_alloc_cases)
    case (oom h)
    let ?s = "(refresh_prev s)\<lparr>heap_st := h\<rparr>"
    have "uvm_ok hwf live ?s uv" using uvm_ok_transfer(1) [OF ok, of ?s] oom used by simp
    then have "uvm_grown hwf live perm uv s uv ?s"
      using uvm_grown_refl [of hwf live ?s uv perm] oom(3) by (simp add: uvm_grown_def)
    moreover have "Uvm_alloc E uv sz perm s = Inr ((Err, uv), ?s)"
      using sz(1) p0 oom(1) by (simp add: Uvm_alloc.simps [of E uv])
    moreover have "served E 2 (heap_st s) False (heap_st ?s)"
      using served_mono [OF served_take(2) [OF oom(2)], of 2] by simp
    ultimately show ?thesis by (intro that(1))
  next
    case (page a h)
    let ?s1 = "(refresh_prev s)\<lparr>heap_st := h\<rparr>"
    have o1: "owned hwf live ?s1 ?r"
      using owned_transfer(1) [OF okD(1), of ?s1] page used by auto
    have fresh: "a \<in> live (heap_st ?s1)" "a \<notin> pt_frames (mem ?s1) ?r" "a \<notin> user_pages (leaf (mem ?s1) ?r)"
      using page used by auto
    have ab: "unat a + 4096 < 2 ^ 32" using live_bound [of h a] page by simp
    obtain res s2 where m: "PageTable_map E (uvm_pagetable uv) ?v a PAGESIZE (perm OR PTE_U) ?s1 = Inr (res, s2)"
      and g: "grows hwf live ?r ?s1 s2" and o2: "owned hwf live s2 ?r"
      and lf: "leaf (mem s2) ?r = (if res = Ok () then as_map ?v a 4096 (perm OR PTE_U) (leaf (mem ?s1) ?r)
        else leaf (mem ?s1) ?r)"
      and sv: "served E (Suc 0) (heap_st ?s1) (res = Ok ()) (heap_st s2)"
      using map_page_owned [OF o1 room(4,5) page(4) ab rwx_user(1) [OF perm page(4)]] fresh by blast
    have sv2: "served E 2 (heap_st s) (res = Ok ()) (heap_st s2)"
      using served_trans [OF served_take(1) [OF page(2)], of "Suc 0"] sv by (simp add: numeral_2_eq_2)
    show ?thesis
    proof (cases res)
      case (Ok u)
      then have "uvm_grown hwf live perm uv s (uv\<lparr>uvm_size := uvm_size uv + 4096\<rparr>) s2"
        using uvm_page_added [OF ok sz perm page(4,7) _ _ _ g o2] page(8) lf by simp
      moreover have "Uvm_alloc E uv sz perm s = Uvm_alloc E (uv\<lparr>uvm_size := uvm_size uv + 4096\<rparr>) sz perm s2"
        using sz(1) p0 page(1,3) m Ok room(6,7) by (simp add: Uvm_alloc.simps [of E uv])
      ultimately show ?thesis using sv2 Ok by (intro that(2)) simp_all
    next
      case Err
      then obtain h3 where h3: "LockedHeap_dealloc E a PAGE_LAYOUT s2 = Inr ((), (refresh_prev s2)\<lparr>heap_st := h3\<rparr>)"
          "uvm_grown hwf live perm uv s uv ((refresh_prev s2)\<lparr>heap_st := h3\<rparr>)"
        using uvm_page_returned [OF ok page(7) _ _ _ g o2] page(8) lf by auto
      moreover have "Uvm_alloc E uv sz perm s = Inr ((Err, uv), (refresh_prev s2)\<lparr>heap_st := h3\<rparr>)"
        using sz(1) p0 page(1,3) m Err room(7) h3(1) by (simp add: Uvm_alloc.simps [of E uv])
      ultimately show ?thesis using sv2 Err by (intro that(1)) (simp_all add: served_def)
    qed
  qed
qed

lemma rounds:
  "(n :: nat) < m \<Longrightarrow> Suc ((m - (n + 4096) + 4095) div 4096) \<le> (m - n + 4095) div 4096"
proof -
  assume "n < m"
  then have "Suc ((m - (n + 4096) + 4095) div 4096) = (m - (n + 4096) + 4095 + 4096) div 4096" by simp
  also have "\<dots> \<le> (m - n + 4095) div 4096" if "4096 \<le> m - n" by (rule div_le_mono) (use that in simp)
  finally show ?thesis using \<open>n < m\<close> by (cases "4096 \<le> m - n") auto
qed

text \<open>
  \<open>alloc\<close> ends in \<open>Ok\<close> with the address space grown to the requested size, rounded up to
  whole pages, or in \<open>Err\<close> with some of the pages added.
\<close>

lemma Uvm_alloc_correct:
  assumes "uvm_ok hwf live s uv" "unat USER_START + unat sz \<le> unat TRAPFRAME" "rwx_mask perm"
  shows "\<exists>res uv' s'. Uvm_alloc E uv sz perm s = Inr ((res, uv'), s') \<and>
    uvm_grown hwf live perm uv s uv' s' \<and> (res = Ok () \<longrightarrow> sz \<le> uvm_size uv') \<and>
    unat (uvm_size uv') < max (unat (uvm_size uv) + 1) (unat sz + 4096) \<and>
    served E (2 * ((unat sz - unat (uvm_size uv) + 4095) div 4096)) (heap_st s) (res = Ok ()) (heap_st s')"
  using assms
proof (induction "unat sz - unat (uvm_size uv)" arbitrary: uv s rule: less_induct)
  case less
  show ?case
  proof (cases "uvm_size uv < sz")
    case False
    then have "Uvm_alloc E uv sz perm s = Inr ((Ok (), uv), s)"
      by (simp add: Uvm_alloc.simps [of E uv])
    then show ?thesis using uvm_grown_refl [OF less.prems(1)] False by (simp add: not_less)
  next
    case True
    note room = uvm_room [OF uvm_okD(5) [OF less.prems(1)] True less.prems(2)]
    show ?thesis
      using less.prems(1) True less.prems(2,3)
    proof (cases rule: Uvm_alloc_round)
      case (oom s')
      have "1 \<le> (unat sz - unat (uvm_size uv) + 4095) div 4096"
        using True by (simp add: word_less_nat_alt)
      then show ?thesis
        using oom served_mono [OF oom(3), of "2 * ((unat sz - unat (uvm_size uv) + 4095) div 4096)"] by simp
    next
      case (page s')
      let ?uv = "uv\<lparr>uvm_size := uvm_size uv + 4096\<rparr>"
      have dec: "unat sz - unat (uvm_size ?uv) < unat sz - unat (uvm_size uv)"
        using True room(1) by (simp add: word_less_nat_alt)
      obtain res uv' s'' where "Uvm_alloc E ?uv sz perm s' = Inr ((res, uv'), s'')"
        "uvm_grown hwf live perm ?uv s' uv' s''" "res = Ok () \<longrightarrow> sz \<le> uvm_size uv'"
        "unat (uvm_size uv') < max (unat (uvm_size ?uv) + 1) (unat sz + 4096)"
        "served E (2 * ((unat sz - unat (uvm_size ?uv) + 4095) div 4096)) (heap_st s') (res = Ok ()) (heap_st s'')"
        using less.hyps [OF dec uvm_grownD(1) [OF page(2)] less.prems(2,3)] by blast
      moreover have "2 + 2 * ((unat sz - unat (uvm_size ?uv) + 4095) div 4096) \<le>
          2 * ((unat sz - unat (uvm_size uv) + 4095) div 4096)"
        using True rounds [of "unat (uvm_size uv)" "unat sz"] room(1) by (simp add: word_less_nat_alt)
      ultimately show ?thesis
        using page uvm_grown_trans [OF page(2)] True room(1) served_mono [OF served_trans [OF page(3)]]
        by (intro exI [of _ res] exI [of _ uv'] exI [of _ s'']) (auto simp: word_less_nat_alt)
    qed
  qed
qed

end

text \<open>Growing by one guard page changes nothing but the size.\<close>

lemma uvm_guard_added:
  assumes "uvm_ok hwf live s uv" "unat USER_START + unat (uvm_size uv) + 4096 \<le> unat TRAPFRAME"
  shows "uvm_grown hwf live 0 uv s (uv\<lparr>uvm_size := uvm_size uv + 4096\<rparr>) s"
proof -
  let ?uv = "uv\<lparr>uvm_size := uvm_size uv + 4096\<rparr>"
  note ok = uvm_okD [OF assms(1)]
  note dims = uvm_dimsD [OF ok(5)]
  have sz: "unat (uvm_size uv + 4096) = unat (uvm_size uv) + 4096"
    using assms(2) by (simp add: unat_word_ariths TRAPFRAME_num USER_START_def)
  have d: "uvm_dims ?uv"
    using dims(1,3) assms(2) by (simp add: uvm_dims_def sz page_aligned_iff_dvd)
  have l: "uvm_leaf_ok (uvm_leaf s uv) ?uv"
    using ok(6) unfolding uvm_leaf_ok_def in_range_def by (fastforce simp: sz split: if_splits)
  have "uvm_leaf s uv va = None" if nr: "new_range uv ?uv va" for va
  proof (rule ccontr)
    assume "uvm_leaf s uv va \<noteq> None"
    then obtain w where w: "uvm_leaf s uv va = Some w" by auto
    have "in_range (uvm_begin ?uv) (unat (uvm_size ?uv)) va"
      using nr by (simp add: new_range_def in_range_def sz)
    from user_range_page [OF d this] have "bit w 4"
      using ok(6) w unfolding uvm_leaf_ok_def by (meson option.sel)
    then have "in_range (uvm_begin uv) (unat (uvm_size uv)) va"
      using ok(6) w unfolding uvm_leaf_ok_def by metis
    then show False using nr by (simp add: in_range_def new_range_def)
  qed
  moreover have "uvm_frames s uv \<subseteq> live (heap_st s)" "user_pages (uvm_leaf s uv) \<subseteq> live (heap_st s)"
    using ok(1) by (auto simp: owned_def table_ok_def)
  ultimately show ?thesis
    using ok(1) d l sz by (auto simp: uvm_grown_def uvm_ok_def word_le_nat_alt)
qed

lemma Uvm_grow_guard:
  assumes "uvm_ok hwf live s uv" "unat USER_START + unat (uvm_size uv) + 4096 \<le> unat TRAPFRAME"
  shows "Uvm_grow E uv PAGESIZE 0 s = Inr ((Ok (), uv\<lparr>uvm_size := uvm_size uv + 4096\<rparr>), s)"
proof -
  have sz: "unat (uvm_size uv + 4096) = unat (uvm_size uv) + 4096"
    using assms(2) by (simp add: unat_word_ariths TRAPFRAME_num USER_START_def)
  then have "add_chk (uvm_size uv) PAGESIZE = Inr (uvm_size uv + 4096)"
    using unat_u32_bound [of "uvm_size uv + 4096"] by (simp add: add_chk_def PAGESIZE_num)
  moreover have "uvm_size uv < uvm_size uv + 4096" using sz by (simp add: word_less_nat_alt)
  ultimately show ?thesis
    by (simp add: Uvm_grow_def Uvm_alloc.simps [of E uv] Uvm_alloc.simps [of E "uv\<lparr>uvm_size := uvm_size uv + 4096\<rparr>"])
qed

end
