(* ===== verification/UvmClone.thy ===== *)
theory UvmClone
  imports UvmSpec
begin

text \<open>
  The remaining operations of user address spaces under the invariant: \<open>init_proc\<close> enters the
  trampoline and the trapframe, \<open>dealloc\<close> shrinks, and \<open>clone\<close>, the memory part of
  \<open>fork\<close>, builds an address space with the same contents on fresh pages.
\<close>

section \<open>Trampoline and trapframe\<close>

definition kernel_page :: "usize \<Rightarrow> bool" where
  "kernel_page v \<longleftrightarrow> v = TRAMPOLINE \<or> v = TRAPFRAME"

text \<open>A permission without the user bit.\<close>

definition kernel_perm :: "usize \<Rightarrow> bool" where
  "kernel_perm perm \<longleftrightarrow> perm_mask perm \<and> has_perm perm \<and> \<not> bit perm 4"

lemma kernel_perms: "kernel_perm (PTE_R OR PTE_X)" "kernel_perm (PTE_R OR PTE_W)"
  by (simp_all add: kernel_perm_def perm_mask_def has_perm_def perm_consts bit_numeral_rec)

lemma kernel_page_bounds:
  "kernel_page v \<Longrightarrow> page_aligned v" "kernel_page v \<Longrightarrow> unat v + 4096 < 2 ^ 32"
  by (auto simp: kernel_page_def TRAMPOLINE_num TRAPFRAME_num page_aligned_iff_dvd)

context platform
begin

lemma map_kernel_page:
  assumes "uvm_ok hwf live s uv" "kernel_page v" "page_aligned a" "unat a + 4096 < 2 ^ 32" "kernel_perm perm"
  obtains res s' where "PageTable_map E (uvm_pagetable uv) v a PAGESIZE perm s = Inr (res, s')"
    "grows hwf live (pt_root (uvm_pagetable uv)) s s'" "uvm_ok hwf live s' uv"
    "uvm_leaf s' uv = (if res = Ok () then as_map v a 4096 perm (uvm_leaf s uv) else uvm_leaf s uv)"
    "served E (Suc 0) (heap_st s) (res = Ok ()) (heap_st s')"
proof -
  note ok = uvm_okD [OF assms(1)]
  have p: "perm_mask perm" "has_perm perm" "\<not> bit perm 4" using assms(5) by (auto simp: kernel_perm_def)
  have w: "has_perm (leaf_word a perm)" "\<not> bit (leaf_word a perm) 4"
    using p(2,3) by (auto simp: has_perm_def leaf_word_bits [OF assms(3)])
  then have "\<not> user_leaf (leaf_word a perm)" by (simp add: user_leaf_iff)
  then obtain res s' where m: "PageTable_map E (uvm_pagetable uv) v a PAGESIZE perm s = Inr (res, s')"
    "grows hwf live (pt_root (uvm_pagetable uv)) s s'" "owned hwf live s' (pt_root (uvm_pagetable uv))"
    "uvm_leaf s' uv = (if res = Ok () then as_map v a 4096 perm (uvm_leaf s uv) else uvm_leaf s uv)"
    "served E (Suc 0) (heap_st s) (res = Ok ()) (heap_st s')"
    using map_page_owned [OF ok(1) kernel_page_bounds [OF assms(2)] assms(3,4) p(1)] by blast
  have "uvm_leaf_ok (as_map v a 4096 perm (uvm_leaf s uv)) uv"
    using ok(6) w assms(2)
    by (auto simp: uvm_leaf_ok_def as_map_page [OF kernel_page_bounds(1) [OF assms(2)]] kernel_page_def)
  then have "uvm_ok hwf live s' uv" using m(3,4) ok(5,6) by (simp add: uvm_ok_def)
  then show thesis using m that by blast
qed

text \<open>\<open>init_proc\<close> keeps the invariant and, on \<open>Ok\<close>, enters both pages.\<close>

lemma Uvm_init_proc_correct:
  assumes "uvm_ok hwf live s uv" "page_aligned (sym_trampoline E)" "unat (sym_trampoline E) + 4096 < 2 ^ 32"
    and "page_aligned tf" "unat tf + 4096 < 2 ^ 32"
  obtains res s' where "Uvm_init_proc E uv tf s = Inr (res, s')"
    "grows hwf live (pt_root (uvm_pagetable uv)) s s'" "uvm_ok hwf live s' uv"
    "\<And>va. \<not> kernel_page (page_of va) \<Longrightarrow> uvm_leaf s' uv va = uvm_leaf s uv va"
    "res = Ok () \<Longrightarrow> uvm_leaf s' uv = as_map TRAPFRAME tf 4096 (PTE_R OR PTE_W)
      (as_map TRAMPOLINE (sym_trampoline E) 4096 (PTE_R OR PTE_X) (uvm_leaf s uv))"
    "served E 2 (heap_st s) (res = Ok ()) (heap_st s')"
proof -
  have T: "kernel_page TRAMPOLINE" "kernel_page TRAPFRAME" by (simp_all add: kernel_page_def)
  note maps = as_map_page [OF kernel_page_bounds(1) [OF T(1)]] as_map_page [OF kernel_page_bounds(1) [OF T(2)]]
  obtain r1 s1 where m1: "PageTable_map E (uvm_pagetable uv) TRAMPOLINE (sym_trampoline E) PAGESIZE
      (PTE_R OR PTE_X) s = Inr (r1, s1)"
    and g1: "grows hwf live (pt_root (uvm_pagetable uv)) s s1" and o1: "uvm_ok hwf live s1 uv"
    and l1: "uvm_leaf s1 uv = (if r1 = Ok () then as_map TRAMPOLINE (sym_trampoline E) 4096
      (PTE_R OR PTE_X) (uvm_leaf s uv) else uvm_leaf s uv)"
    and sv1: "served E (Suc 0) (heap_st s) (r1 = Ok ()) (heap_st s1)"
    using map_kernel_page [OF assms(1) T(1) assms(2,3) kernel_perms(1)] by blast
  show thesis
  proof (cases r1)
    case Err
    show ?thesis
      by (rule that [of Err s1]) (use m1 g1 o1 l1 Err served_mono [OF sv1, of 2] in \<open>auto simp: Uvm_init_proc_def\<close>)
  next
    case (Ok u)
    obtain r2 s2 where m2: "PageTable_map E (uvm_pagetable uv) TRAPFRAME tf PAGESIZE
        (PTE_R OR PTE_W) s1 = Inr (r2, s2)"
      and g2: "grows hwf live (pt_root (uvm_pagetable uv)) s1 s2" and o2: "uvm_ok hwf live s2 uv"
      and l2: "uvm_leaf s2 uv = (if r2 = Ok () then as_map TRAPFRAME tf 4096
        (PTE_R OR PTE_W) (uvm_leaf s1 uv) else uvm_leaf s1 uv)"
      and sv2: "served E (Suc 0) (heap_st s1) (r2 = Ok ()) (heap_st s2)"
      using map_kernel_page [OF o1 T(2) assms(4,5) kernel_perms(2)] by blast
    show ?thesis
    proof (rule that [OF _ grows_trans [OF g1 g2] o2])
      show "Uvm_init_proc E uv tf s = Inr (r2, s2)"
        using m1 m2 Ok by (cases r2) (simp_all add: Uvm_init_proc_def)
      show "uvm_leaf s2 uv va = uvm_leaf s uv va" if "\<not> kernel_page (page_of va)" for va
        using that l1 l2 Ok by (auto simp: maps kernel_page_def)
      show "served E 2 (heap_st s) (r2 = Ok ()) (heap_st s2)"
        using served_trans [of E "Suc 0" "heap_st s" "heap_st s1", OF _ sv2] sv1 Ok by (simp add: numeral_2_eq_2)
    qed (use l1 l2 Ok in simp)
  qed
qed

section \<open>Shrinking\<close>

text \<open>\<open>dealloc\<close> to a smaller whole number of pages gives back the pages above.\<close>

lemma Uvm_dealloc_correct:
  assumes "uvm_ok hwf live s uv" "page_aligned sz" "sz \<le> uvm_size uv"
  obtains s' where "Uvm_dealloc E uv sz s = Inr ((Ok (), uv\<lparr>uvm_size := sz\<rparr>), s')"
    "uvm_ok hwf live s' (uv\<lparr>uvm_size := sz\<rparr>)"
    "unmapped hwf live (pt_root (uvm_pagetable uv)) True (USER_START + sz) (unat (uvm_size uv) - unat sz) s s'"
proof -
  note ok = uvm_okD [OF assms(1)]
  note dims = uvm_dimsD [OF ok(5)]
  have le: "unat sz \<le> unat (uvm_size uv)" using assms(3) by (simp add: word_le_nat_alt)
  have e: "unat (USER_START + sz) = unat USER_START + unat sz"
    using le dims(1,5) by (simp add: unat_word_ariths)
  have d: "unat (uvm_size uv - sz) = unat (uvm_size uv) - unat sz" using assms(3) by (simp add: unat_sub)
  have al: "page_aligned (USER_START + sz)" "page_aligned (uvm_size uv - sz)"
    using assms(2) dims(1,2,3) by (auto simp only: page_aligned_iff_dvd e d intro!: dvd_add dvd_diff_nat)
  have b: "unat (USER_START + sz) + unat (uvm_size uv - sz) < 2 ^ 32"
    using dims(1,5) le by (simp only: e d)
  obtain s' where s': "PageTable_unmap E (uvm_pagetable uv) (USER_START + sz) (uvm_size uv - sz) True s =
      Inr (Ok (), s')"
    and u: "unmapped hwf live (pt_root (uvm_pagetable uv)) True (USER_START + sz)
      (unat (uvm_size uv) - unat sz) s s'"
    using unmap_refines [OF ok(1) al b] by (auto simp: d)
  note uD = unmappedD [OF u]
  have "uvm_leaf_ok (uvm_leaf s' uv) (uv\<lparr>uvm_size := sz\<rparr>)"
    using ok(6) le dims(1) unfolding uvm_leaf_ok_def uD(4) as_unmap_Some
    by (fastforce simp: in_range_def e split: if_splits)
  moreover have "uvm_dims (uv\<lparr>uvm_size := sz\<rparr>)"
    using ok(5) le assms(2) by (simp add: uvm_dims_def)
  moreover have "Uvm_dealloc E uv sz s = Inr ((Ok (), uv\<lparr>uvm_size := sz\<rparr>), s')"
    using assms(2,3) s' dims(1,5) le
    by (simp add: Uvm_dealloc_def PAGESIZE_num is_multiple_of_page add_chk_def sub_chk_def)
  ultimately show thesis using that u uD(1) by (simp add: uvm_ok_def)
qed

end

end
