(* ===== verification/AsmProps.thy ===== *)
theory AsmProps
  imports Asm UvmClone
begin

text \<open>
  What the assembly routines do. The trampoline moves the user's registers to the trapframe and
  back, \<open>switch\<close> the callee-saved registers to one \<open>Context\<close> and from another, and
  \<open>kernelvec\<close> the caller-saved ones to the stack and back, each at the offsets at which the
  Rust side of the kernel has its fields.
\<close>

section \<open>The trapframe\<close>

text \<open>The register of a field, for the fields after the first five.\<close>

definition user_fields :: "tf_field list" where
  "user_fields = drop 5 tf_fields"

fun tf_reg :: "tf_field \<Rightarrow> reg" where
  "tf_reg tf_ra = R_ra" | "tf_reg tf_sp = R_sp" | "tf_reg tf_gp = R_gp" | "tf_reg tf_tp = R_tp"
| "tf_reg tf_t0 = R_t0" | "tf_reg tf_t1 = R_t1" | "tf_reg tf_t2 = R_t2" | "tf_reg tf_s0 = R_s0"
| "tf_reg tf_s1 = R_s1" | "tf_reg tf_a0 = R_a0" | "tf_reg tf_a1 = R_a1" | "tf_reg tf_a2 = R_a2"
| "tf_reg tf_a3 = R_a3" | "tf_reg tf_a4 = R_a4" | "tf_reg tf_a5 = R_a5" | "tf_reg tf_a6 = R_a6"
| "tf_reg tf_a7 = R_a7" | "tf_reg tf_s2 = R_s2" | "tf_reg tf_s3 = R_s3" | "tf_reg tf_s4 = R_s4"
| "tf_reg tf_s5 = R_s5" | "tf_reg tf_s6 = R_s6" | "tf_reg tf_s7 = R_s7" | "tf_reg tf_s8 = R_s8"
| "tf_reg tf_s9 = R_s9" | "tf_reg tf_s10 = R_s10" | "tf_reg tf_s11 = R_s11" | "tf_reg tf_t3 = R_t3"
| "tf_reg tf_t4 = R_t4" | "tf_reg tf_t5 = R_t5" | "tf_reg tf_t6 = R_t6" | "tf_reg _ = R_zero"

definition tf_offs :: "usize set" where
  "tf_offs = tf_offset ` set tf_fields"

text \<open>The stores and loads of the trampoline, \<open>a0\<close> apart.\<close>

definition user_saves :: "(reg \<times> usize) list" where
  "user_saves = map (\<lambda>f. (tf_reg f, tf_offset f)) (filter (\<lambda>f. f \<noteq> tf_a0) user_fields)"

definition kernel_loads :: "(reg \<times> usize) list" where
  "kernel_loads = [(R_sp, 4), (R_tp, 16), (R_t0, 8), (R_t1, 0)]"

lemma user_saves_eq: "user_saves = [(R_ra, 20), (R_sp, 24), (R_gp, 28), (R_tp, 32), (R_t0, 36), (R_t1, 40), (R_t2, 44),
    (R_s0, 48), (R_s1, 52), (R_a1, 60), (R_a2, 64), (R_a3, 68), (R_a4, 72), (R_a5, 76), (R_a6, 80), (R_a7, 84),
    (R_s2, 88), (R_s3, 92), (R_s4, 96), (R_s5, 100), (R_s6, 104), (R_s7, 108), (R_s8, 112), (R_s9, 116),
    (R_s10, 120), (R_s11, 124), (R_t3, 128), (R_t4, 132), (R_t5, 136), (R_t6, 140)]"
  by (simp add: user_saves_def user_fields_def tf_fields_def tf_offset_def)

lemma uservec_split: "uservec = Csrw Csr_sscratch R_a0 # Li R_a0 TRAPFRAME #
    map (\<lambda>(r, off). Sw r off R_a0) user_saves @ Csrr R_t0 Csr_sscratch #
    map (\<lambda>(r, off). Sw r off R_a0) [(R_t0, 56)] @ map (\<lambda>(r, off). Lw r off R_a0) kernel_loads @
    [Sfence_vma, Csrw Csr_satp R_t1, Sfence_vma, Jalr R_t0]"
  by (simp add: uservec_def user_saves_eq kernel_loads_def)

lemma userret_split: "userret = Sfence_vma # Csrw Csr_satp R_a0 # Sfence_vma # Li R_a0 TRAPFRAME #
    map (\<lambda>(r, off). Lw r off R_a0) user_saves @ [Lw R_a0 56 R_a0, Sret]"
  by (simp add: userret_def user_saves_eq)

lemma tf_offs_eq: "tf_offs = {0, 4, 8, 12, 16, 20, 24, 28, 32, 36, 40, 44, 48, 52, 56, 60, 64, 68, 72, 76, 80, 84, 88, 92,
    96, 100, 104, 108, 112, 116, 120, 124, 128, 132, 136, 140}"
  by (simp add: tf_offs_def tf_fields_def tf_offset_def)

lemma tf_offs_aligned: "off \<in> tf_offs \<Longrightarrow> word_aligned off"
  by (auto simp: tf_offs_eq word_aligned_iff_dvd)

lemma tf_offs_bound: "off \<in> tf_offs \<Longrightarrow> unat off < 144"
  by (auto simp: tf_offs_eq)

lemma user_saves_offs: "snd ` set user_saves \<subseteq> tf_offs" "snd ` set kernel_loads \<subseteq> tf_offs" "56 \<in> tf_offs"
  by (simp_all add: user_saves_eq kernel_loads_def tf_offs_eq)

lemma user_saves_distinct: "distinct (map fst user_saves)" "distinct (map snd user_saves)"
    "R_zero \<notin> fst ` set user_saves" "R_a0 \<notin> fst ` set user_saves" "56 \<notin> snd ` set user_saves"
  by (simp_all add: user_saves_eq)

lemma user_field_cases:
  assumes "f \<in> set user_fields"
  shows "f = tf_a0 \<or> (tf_reg f, tf_offset f) \<in> set user_saves"
  using assms by (auto simp: user_saves_def)

lemma tf_offset_a0: "tf_offset tf_a0 = 56"
  by (simp add: tf_offset_def tf_fields_def)

lemma same_but_outside:
  assumes "same_but pa tf_offs m m'" "144 \<le> unat (a - pa)"
  shows "m' a = m a"
proof -
  have "a \<noteq> pa + off + of_nat i" if "off \<in> tf_offs" "i < 4" for off i
  proof
    assume a: "a = pa + off + of_nat i"
    have "unat off \<le> 140" using that(1) by (auto simp: tf_offs_eq)
    then have "unat (off + of_nat i :: usize) < 144"
      using that(2) by (simp add: unat_word_ariths unat_of_nat)
    moreover have "a - pa = off + of_nat i" using a by simp
    ultimately show False using assms(2) by simp
  qed
  from this [of _ 0] this [of _ 1] this [of _ 2] this [of _ 3] show ?thesis
    using assms(1) by (simp add: same_but_def)
qed

text \<open>The state in which \<open>uservec\<close> calls \<open>usertrap\<close>.\<close>

lemma uservec_run:
  assumes "window (core_satp c) (core_mem c) TRAPFRAME tf tf_offs"
  defines "m1 \<equiv> save [(R_t0, 56)] tf (\<lambda>_. get_reg c R_a0) (save user_saves tf (get_reg c) (core_mem c))"
  shows "\<exists>c'. exec link uservec c = Some (load32 m1 (tf + 8), c') \<and> core_mem c' = m1 \<and>
    core_csrs c' = write_csr (write_csr (core_csrs c) Csr_sscratch (get_reg c R_a0)) Csr_satp (load32 m1 tf) \<and>
    get_reg c' R_sp = load32 m1 (tf + 4) \<and> get_reg c' R_tp = load32 m1 (tf + 16) \<and> get_reg c' R_ra = link"
proof -
  let ?f = "write_csr (core_csrs c) Csr_sscratch (get_reg c R_a0)"
  let ?c1 = "set_reg R_a0 TRAPFRAME (c\<lparr>core_csrs := ?f\<rparr>)"
  have eq: "save user_saves tf (get_reg ?c1) m = save user_saves tf (get_reg c) m" for m
    unfolding save_def using user_saves_distinct(4) by (intro fold_cong) (auto simp: image_iff)
  let ?c2 = "?c1\<lparr>core_mem := save user_saves tf (get_reg c) (core_mem c)\<rparr>"
  let ?c3 = "set_reg R_t0 (get_reg c R_a0) ?c2"
  let ?c4 = "?c3\<lparr>core_mem := m1\<rparr>"
  have w2: "window (core_satp c) (core_mem ?c2) TRAPFRAME tf tf_offs"
    using window_same [OF assms(1) same_but_save [OF user_saves_offs(1)]] by simp
  then have w4: "window (core_satp c) m1 TRAPFRAME tf tf_offs"
    using window_same [OF _ same_but_save [of "[(R_t0, 56)]" tf_offs]] user_saves_offs(3) unfolding m1_def by auto
  have "exec link uservec c = exec link (Csrr R_t0 Csr_sscratch #
      map (\<lambda>(r, off). Sw r off R_a0) [(R_t0, 56)] @ map (\<lambda>(r, off). Lw r off R_a0) kernel_loads @
      [Sfence_vma, Csrw Csr_satp R_t1, Sfence_vma, Jalr R_t0]) ?c2"
    using exec_stores [of ?c1 R_a0 tf tf_offs user_saves link] assms(1) user_saves_offs(1) eq
    by (simp add: uservec_split)
  also have "\<dots> = exec link (map (\<lambda>(r, off). Sw r off R_a0) [(R_t0, 56)] @ map (\<lambda>(r, off). Lw r off R_a0) kernel_loads @
      [Sfence_vma, Csrw Csr_satp R_t1, Sfence_vma, Jalr R_t0]) ?c3"
    by simp
  also have "\<dots> = exec link (map (\<lambda>(r, off). Lw r off R_a0) kernel_loads @
      [Sfence_vma, Csrw Csr_satp R_t1, Sfence_vma, Jalr R_t0]) ?c4"
    using exec_stores [of ?c3 R_a0 tf tf_offs "[(R_t0, 56)]" link] w2 user_saves_offs(3)
    by (simp add: m1_def save_def del: exec.simps)
  also have "\<dots> = exec link [Sfence_vma, Csrw Csr_satp R_t1, Sfence_vma, Jalr R_t0] (restore kernel_loads tf ?c4)"
    using w4 user_saves_offs(2) by (intro exec_loads [where S = tf_offs]) (auto simp: kernel_loads_def)
  finally show ?thesis by (simp add: get_restore kernel_loads_def)
qed

text \<open>
  A trap from user mode: every user register is in its field of the trapframe, nothing else of
  memory has changed, and \<open>usertrap\<close> is called on the kernel's page table and stack.
\<close>

lemma uservec_saves:
  assumes w: "window (core_satp c) (core_mem c) TRAPFRAME tf tf_offs"
  shows "\<exists>c'. exec link uservec c = Some (tf_get (core_mem c) tf trap_handler, c') \<and>
    (\<forall>f \<in> set user_fields. tf_get (core_mem c') tf f = get_reg c (tf_reg f)) \<and>
    (\<forall>f \<in> {kernel_satp, kernel_sp, trap_handler, epc, hartid}. tf_get (core_mem c') tf f = tf_get (core_mem c) tf f) \<and>
    (\<forall>a. 144 \<le> unat (a - tf) \<longrightarrow> core_mem c' a = core_mem c a) \<and>
    core_csrs c' = write_csr (write_csr (core_csrs c) Csr_sscratch (get_reg c R_a0)) Csr_satp
      (tf_get (core_mem c) tf kernel_satp) \<and>
    get_reg c' R_sp = tf_get (core_mem c) tf kernel_sp \<and> get_reg c' R_tp = tf_get (core_mem c) tf hartid \<and>
    get_reg c' R_ra = link"
proof -
  let ?m0 = "save user_saves tf (get_reg c) (core_mem c)"
  let ?m1 = "save [(R_t0, 56)] tf (\<lambda>_. get_reg c R_a0) ?m0"
  have al: "word_aligned tf" "\<forall>off \<in> snd ` set user_saves. word_aligned off"
    using w user_saves_offs(1) tf_offs_aligned by (auto simp: window_def)
  have al': "word_aligned (tf + off)" if "off \<in> tf_offs" for off
    using al(1) tf_offs_aligned [OF that] by (rule word_aligned_plus)
  have m1: "load32 ?m1 (tf + off) = (if off = 56 then get_reg c R_a0 else load32 ?m0 (tf + off))" if "off \<in> tf_offs" for off
    using al'[OF that] al' [OF user_saves_offs(3)] by (simp add: save_def load32_store32_same load32_store32_other)
  have user: "tf_get ?m1 tf f = get_reg c (tf_reg f)" if "f \<in> set user_fields" for f
  proof (cases "f = tf_a0")
    case True
    then show ?thesis using m1 user_saves_offs(3) by (simp add: tf_get_def tf_offset_a0)
  next
    case False
    then have f: "(tf_reg f, tf_offset f) \<in> set user_saves" using user_field_cases [OF that] by simp
    then have "tf_offset f \<in> tf_offs" "tf_offset f \<noteq> 56"
      using user_saves_offs(1) user_saves_distinct(5) by (auto simp: image_iff)
    then show ?thesis using m1 load32_save [OF al user_saves_distinct(2) f] by (simp add: tf_get_def)
  qed
  have kernel: "load32 ?m1 (tf + off) = load32 (core_mem c) (tf + off)" if "off \<in> {0, 4, 8, 12, 16}" for off
  proof -
    have off: "off \<in> tf_offs" "off \<noteq> 56" "off \<notin> snd ` set user_saves"
      using that by (auto simp: tf_offs_eq user_saves_eq)
    then have "load32 ?m0 (tf + off) = load32 (core_mem c) (tf + off)"
      by (intro load32_save_other [OF al al']) auto
    then show ?thesis using m1 off by simp
  qed
  have "same_but tf tf_offs (core_mem c) ?m1"
    using same_but_trans [OF same_but_save [OF user_saves_offs(1)] same_but_save [of "[(R_t0, 56)]"]] user_saves_offs(3)
    by simp
  then have outside: "\<forall>a. 144 \<le> unat (a - tf) \<longrightarrow> ?m1 a = core_mem c a" using same_but_outside by blast
  have offs: "tf_offset kernel_satp = 0" "tf_offset kernel_sp = 4" "tf_offset trap_handler = 8" "tf_offset epc = 12"
    "tf_offset hartid = 16" by (simp_all add: tf_offset_def tf_fields_def)
  from uservec_run [OF w, of link] obtain c' where
    run: "exec link uservec c = Some (load32 ?m1 (tf + 8), c')" and c': "core_mem c' = ?m1"
    "core_csrs c' = write_csr (write_csr (core_csrs c) Csr_sscratch (get_reg c R_a0)) Csr_satp (load32 ?m1 tf)"
    "get_reg c' R_sp = load32 ?m1 (tf + 4)" "get_reg c' R_tp = load32 ?m1 (tf + 16)" "get_reg c' R_ra = link" by blast
  show ?thesis
    unfolding run using c' user kernel [of 0] kernel [of 4] kernel [of 8] kernel [of 12] kernel [of 16] outside
    by (simp add: tf_get_def offs)
qed

lemma userret_restores:
  assumes w: "window (get_reg c R_a0) (core_mem c) TRAPFRAME tf tf_offs"
  shows "\<exists>c'. exec link userret c = Some (read_csr (core_csrs c) Csr_sepc, c') \<and>
    (\<forall>f \<in> set user_fields. get_reg c' (tf_reg f) = tf_get (core_mem c) tf f) \<and> core_mem c' = core_mem c \<and>
    core_csrs c' = sret_csrs (write_csr (core_csrs c) Csr_satp (get_reg c R_a0))"
proof -
  let ?c1 = "set_reg R_a0 TRAPFRAME (c\<lparr>core_csrs := write_csr (core_csrs c) Csr_satp (get_reg c R_a0)\<rparr>)"
  let ?c2 = "restore user_saves tf ?c1"
  have a0: "get_reg ?c2 R_a0 = TRAPFRAME"
    using user_saves_distinct by (simp add: get_restore user_saves_eq)
  have "exec link userret c = exec link [Lw R_a0 56 R_a0, Sret] ?c2"
    using exec_loads [of ?c1 R_a0 tf tf_offs user_saves link] w user_saves_offs(1) user_saves_distinct(4)
    by (simp add: userret_split)
  also have "\<dots> = Some (read_csr (core_csrs c) Csr_sepc, (set_reg R_a0 (load32 (core_mem c) (tf + 56)) ?c2)
      \<lparr>core_csrs := sret_csrs (write_csr (core_csrs c) Csr_satp (get_reg c R_a0))\<rparr>)"
    using windowD(1) [OF w user_saves_offs(3)] a0 by simp
  finally have run: "exec link userret c = \<dots>" .
  have "get_reg (set_reg R_a0 (load32 (core_mem c) (tf + 56)) ?c2) (tf_reg f) = tf_get (core_mem c) tf f"
    if "f \<in> set user_fields" for f
  proof (cases "f = tf_a0")
    case False
    then have f: "(tf_reg f, tf_offset f) \<in> set user_saves" using user_field_cases [OF that] by simp
    then have "tf_reg f \<noteq> R_a0" using user_saves_distinct(4) by (auto simp: image_iff)
    then show ?thesis using f user_saves_distinct by (simp add: get_restore tf_get_def)
  qed (simp add: tf_get_def tf_offset_a0)
  then show ?thesis by (simp add: run)
qed

text \<open>The user registers are the fields.\<close>

lemma user_regs: "r \<noteq> R_zero \<Longrightarrow> \<exists>f \<in> set user_fields. tf_reg f = r"
  by (cases r) (auto simp: user_fields_def tf_fields_def intro: bexI)

lemma trapframe_window:
  assumes wf: "pt_wf m r" and leaf: "leaf m r TRAPFRAME = Some (leaf_word tf (PTE_R OR PTE_W))"
    and tf: "page_aligned tf" "tf \<notin> pt_frames m r"
    and satp: "bit satp 31" "push_bit 12 satp = r"
  shows "window satp m TRAPFRAME tf tf_offs"
  unfolding window_def
proof (intro conjI allI impI ballI)
  show "word_aligned tf" by (rule page_aligned_imp_word_aligned [OF tf(1)])
  show "word_aligned off" if "off \<in> tf_offs" for off by (rule tf_offs_aligned [OF that])
  fix m' off assume same: "same_but tf tf_offs m m'" and off: "off \<in> tf_offs"
  have frames: "same_page m m' p" if "p \<in> pt_frames m r" for p
    unfolding same_page_def
  proof (intro allI impI)
    fix x assume "page_of x = p"
    then have "page_of x \<noteq> tf" using that tf(2) by auto
    then have "4096 \<le> unat (x - tf)" using page_offset_iff [OF tf(1), of x] by (simp add: not_less)
    then show "m' x = m x" by (intro same_but_outside [OF same]) simp
  qed
  have al: "page_aligned TRAPFRAME" by (simp add: TRAPFRAME_num page_aligned_iff_dvd)
  have o: "unat off < 4096" using tf_offs_bound [OF off] by simp
  have o': "(TRAPFRAME + off) mod 4096 = off" "word_aligned (TRAPFRAME + off)"
    using off by (auto simp: tf_offs_eq TRAPFRAME_num word_aligned_iff_dvd)
  have "leaf m' r (TRAPFRAME + off) = leaf m' r TRAPFRAME"
    using page_of_plus [OF al o] page_of_plus [OF al, of 0] by (intro leaf_page_cong) simp
  then have l: "leaf m' r (TRAPFRAME + off) = Some (leaf_word tf (PTE_R OR PTE_W))"
    using leaf_frame [OF wf frames] leaf by simp
  have perm: "perm_mask (PTE_R OR PTE_W)" "bit (PTE_R OR PTE_W) 1" "bit (PTE_R OR PTE_W) 2" "\<not> bit (PTE_R OR PTE_W) 4"
    by (simp_all add: perm_mask_def perm_consts bit_numeral_rec)
  have acc: "sv32_leaf_ok (leaf_word tf (PTE_R OR PTE_W))" "sv32_permits a SMode (leaf_word tf (PTE_R OR PTE_W))"
    if "a \<noteq> Fetch" for a
    using leaf_word_accepted(1) [OF tf(1) perm(1)] leaf_word_accepted(2) [OF tf(1) perm(1), where acc = a and p = SMode] perm that by (auto simp: sv32_permits_def split: access.splits)
  have "translate satp m' a (TRAPFRAME + off) = Some (tf + off)" if "a \<noteq> Fetch" for a
    using acc [OF that] o' leaf_word_page [OF tf(1) perm(1)] satp
    by (simp add: translate_def sv32_translate_leaf [OF pt_wf_frame [OF frames wf]] l)
  then show "translate satp m' Load (TRAPFRAME + off) = Some (tf + off)"
    "translate satp m' Store (TRAPFRAME + off) = Some (tf + off)" by simp_all
qed

section \<open>The context switch\<close>

text \<open>The \<open>repr(C)\<close> layout of \<open>Context\<close>, and the callee-saved registers as one.\<close>

definition ctx_saves :: "(reg \<times> usize) list" where
  "ctx_saves = [(R_ra, 0), (R_sp, 4), (R_s0, 8), (R_s1, 12), (R_s2, 16), (R_s3, 20), (R_s4, 24), (R_s5, 28),
     (R_s6, 32), (R_s7, 36), (R_s8, 40), (R_s9, 44), (R_s10, 48), (R_s11, 52)]"

definition ctx_offs :: "usize set" where
  "ctx_offs = snd ` set ctx_saves"

definition Context_read :: "memory \<Rightarrow> usize \<Rightarrow> Context" where
  "Context_read m a = \<lparr>ctx_ra = load32 m (a + 0), ctx_sp = load32 m (a + 4), ctx_s0 = load32 m (a + 8),
     ctx_s1 = load32 m (a + 12), ctx_s2 = load32 m (a + 16), ctx_s3 = load32 m (a + 20), ctx_s4 = load32 m (a + 24),
     ctx_s5 = load32 m (a + 28), ctx_s6 = load32 m (a + 32), ctx_s7 = load32 m (a + 36), ctx_s8 = load32 m (a + 40),
     ctx_s9 = load32 m (a + 44), ctx_s10 = load32 m (a + 48), ctx_s11 = load32 m (a + 52)\<rparr>"

definition Context_of :: "core \<Rightarrow> Context" where
  "Context_of c = \<lparr>ctx_ra = get_reg c R_ra, ctx_sp = get_reg c R_sp, ctx_s0 = get_reg c R_s0,
     ctx_s1 = get_reg c R_s1, ctx_s2 = get_reg c R_s2, ctx_s3 = get_reg c R_s3, ctx_s4 = get_reg c R_s4,
     ctx_s5 = get_reg c R_s5, ctx_s6 = get_reg c R_s6, ctx_s7 = get_reg c R_s7, ctx_s8 = get_reg c R_s8,
     ctx_s9 = get_reg c R_s9, ctx_s10 = get_reg c R_s10, ctx_s11 = get_reg c R_s11\<rparr>"

lemma switch_split: "switch = map (\<lambda>(r, off). Sw r off R_a0) ctx_saves @ map (\<lambda>(r, off). Lw r off R_a1) ctx_saves @ [Ret]"
  by (simp add: switch_def ctx_saves_def)

lemma ctx_saves_ok: "distinct (map fst ctx_saves)" "distinct (map snd ctx_saves)" "R_zero \<notin> fst ` set ctx_saves"
    "R_a0 \<notin> fst ` set ctx_saves" "R_a1 \<notin> fst ` set ctx_saves" "\<forall>off \<in> ctx_offs. word_aligned off"
  by (simp_all add: ctx_saves_def ctx_offs_def word_aligned_iff_dvd)

lemma Context_read_save:
  assumes "word_aligned a"
  shows "Context_read (save ctx_saves a (get_reg c) m) a = Context_of c"
proof -
  have "load32 (save ctx_saves a (get_reg c) m) (a + off) = get_reg c r" if "(r, off) \<in> set ctx_saves" for r off
    using load32_save [OF assms _ ctx_saves_ok(2) that] ctx_saves_ok(6) by (simp add: ctx_offs_def)
  then show ?thesis by (simp add: Context_read_def Context_of_def ctx_saves_def del: add_0_right)
qed

lemma Context_read_cong:
  assumes "\<And>off. off \<in> ctx_offs \<Longrightarrow> load32 m (a + off) = load32 m' (a + off)"
  shows "Context_read m a = Context_read m' a"
  unfolding Context_read_def by (intro Context.equality; simp only: Context.simps; intro assms; simp add: ctx_offs_def ctx_saves_def)

lemma Context_of_restore: "Context_of (restore ctx_saves a c) = Context_read (core_mem c) a"
  using ctx_saves_ok by (simp add: Context_read_def Context_of_def get_restore) (simp add: ctx_saves_def)

text \<open>
  Two contexts that \<open>switch\<close> can work on: both can be accessed, whatever is stored in the first,
  and they have no word in common.
\<close>

definition switchable :: "core \<Rightarrow> usize \<Rightarrow> usize \<Rightarrow> bool" where
  "switchable c from to \<longleftrightarrow> window (core_satp c) (core_mem c) (get_reg c R_a0) from ctx_offs \<and>
     (\<forall>m. same_but from ctx_offs (core_mem c) m \<longrightarrow> window (core_satp c) m (get_reg c R_a1) to ctx_offs) \<and>
     (\<forall>x \<in> ctx_offs. \<forall>y \<in> ctx_offs. from + x \<noteq> to + y)"

lemma switch_run:
  assumes "switchable c from to"
  shows "\<exists>c'. exec link switch c = Some (ctx_ra (Context_read (core_mem c) to), c') \<and>
    Context_read (core_mem c') from = Context_of c \<and> Context_of c' = Context_read (core_mem c) to \<and>
    (\<forall>r. r \<notin> fst ` set ctx_saves \<longrightarrow> get_reg c' r = get_reg c r) \<and> core_csrs c' = core_csrs c \<and>
    same_but from ctx_offs (core_mem c) (core_mem c')"
proof -
  let ?m = "save ctx_saves from (get_reg c) (core_mem c)"
  let ?c1 = "c\<lparr>core_mem := ?m\<rparr>"
  let ?c2 = "restore ctx_saves to ?c1"
  have w: "window (core_satp c) (core_mem c) (get_reg c R_a0) from ctx_offs"
    and w': "\<And>m. same_but from ctx_offs (core_mem c) m \<Longrightarrow> window (core_satp c) m (get_reg c R_a1) to ctx_offs"
    and dis: "\<forall>x \<in> ctx_offs. \<forall>y \<in> ctx_offs. from + x \<noteq> to + y"
    using assms by (auto simp: switchable_def)
  have al: "word_aligned from" "word_aligned to" using w w' [of "core_mem c"] by (auto simp: window_def)
  have same: "same_but from ctx_offs (core_mem c) ?m" by (rule same_but_save) (simp add: ctx_offs_def)
  have "exec link switch c = exec link (map (\<lambda>(r, off). Lw r off R_a1) ctx_saves @ [Ret]) ?c1"
    unfolding switch_split using w by (intro exec_stores [where S = ctx_offs]) (simp_all add: ctx_offs_def)
  also have "\<dots> = exec link [Ret] ?c2"
    using w' [OF same] ctx_saves_ok(5) by (intro exec_loads [where S = ctx_offs]) (simp_all add: ctx_offs_def)
  finally have run: "exec link switch c = Some (get_reg ?c2 R_ra, ?c2)" by simp
  have "load32 ?m (to + off) = load32 (core_mem c) (to + off)" if "off \<in> ctx_offs" for off
    using that dis [rule_format, symmetric] ctx_saves_ok(6) al word_aligned_plus
    by (intro load32_save_other) (auto simp: ctx_offs_def simp flip: ctx_offs_def)
  then have to: "Context_read ?m to = Context_read (core_mem c) to"
    by (rule Context_read_cong)
  have rest: "get_reg ?c2 r = get_reg c r" if "r \<notin> fst ` set ctx_saves" for r
    using that ctx_saves_ok map_of_eq_None_iff [of ctx_saves r] by (simp add: get_restore)
  have ctx: "Context_of ?c2 = Context_read (core_mem c) to" by (simp add: Context_of_restore to)
  then have "get_reg ?c2 R_ra = ctx_ra (Context_read (core_mem c) to)" by (simp add: Context_of_def Context_read_def)
  then show ?thesis using run rest same Context_read_save [OF al(1)] ctx by simp
qed

section \<open>Kernel traps\<close>

definition kv_saves :: "(reg \<times> usize) list" where
  "kv_saves = [(R_ra, 0), (R_gp, 8), (R_tp, 12), (R_t0, 16), (R_t1, 20), (R_t2, 24), (R_a0, 36), (R_a1, 40),
     (R_a2, 44), (R_a3, 48), (R_a4, 52), (R_a5, 56), (R_a6, 60), (R_a7, 64), (R_t3, 108), (R_t4, 112),
     (R_t5, 116), (R_t6, 120)]"

definition kv_loads :: "(reg \<times> usize) list" where
  "kv_loads = filter (\<lambda>(r, _). r \<noteq> R_tp) kv_saves"

definition kv_offs :: "usize set" where
  "kv_offs = snd ` set kv_saves"

definition callee_saved :: "reg set" where
  "callee_saved = {R_sp, R_s0, R_s1, R_s2, R_s3, R_s4, R_s5, R_s6, R_s7, R_s8, R_s9, R_s10, R_s11}"

lemma kernelvec_split:
  "kernelvec_save h = Addi R_sp R_sp (- 128) # map (\<lambda>(r, off). Sw r off R_sp) kv_saves @ [Call h]"
  "kernelvec_restore = map (\<lambda>(r, off). Lw r off R_sp) kv_loads @ [Addi R_sp R_sp 128, Sret]"
  by (simp_all add: kernelvec_save_def kernelvec_restore_def kv_saves_def kv_loads_def)

lemma kv_saves_ok: "distinct (map fst kv_saves)" "distinct (map snd kv_saves)" "R_zero \<notin> fst ` set kv_saves"
    "R_sp \<notin> fst ` set kv_saves" "\<forall>off \<in> kv_offs. word_aligned off" "set kv_loads \<subseteq> set kv_saves"
  by (simp_all add: kv_saves_def kv_loads_def kv_offs_def word_aligned_iff_dvd)

lemma kv_loads_ok: "distinct (map fst kv_loads)" "R_zero \<notin> fst ` set kv_loads" "R_sp \<notin> fst ` set kv_loads"
    "snd ` set kv_loads \<subseteq> kv_offs"
  using kv_saves_ok by (auto simp: kv_loads_def kv_offs_def distinct_map_filter)

lemma kv_cover: "r \<noteq> R_zero \<Longrightarrow> r \<noteq> R_tp \<Longrightarrow> r \<in> callee_saved \<or> (\<exists>off. (r, off) \<in> set kv_loads)"
  by (cases r) (auto simp: callee_saved_def kv_loads_def kv_saves_def)

text \<open>What a function that follows the calling convention keeps of its caller's state.\<close>

definition called :: "usize \<Rightarrow> core \<Rightarrow> core \<Rightarrow> bool" where
  "called frame c d \<longleftrightarrow> (\<forall>r \<in> callee_saved. get_reg d r = get_reg c r) \<and>
     (\<forall>off \<in> kv_offs. load32 (core_mem d) (frame + off) = load32 (core_mem c) (frame + off)) \<and>
     window (core_satp d) (core_mem d) (get_reg d R_sp) frame kv_offs"

lemma kernelvec_resumes:
  assumes al: "word_aligned frame" and w: "window (core_satp d) (core_mem d) (get_reg d R_sp) frame kv_offs"
    and frame: "\<forall>off \<in> kv_offs. load32 (core_mem d) (frame + off) = load32 (save kv_saves frame (get_reg c) m) (frame + off)"
    and callee: "\<forall>r \<in> callee_saved - {R_sp}. get_reg d r = get_reg c r" "get_reg d R_sp = get_reg c R_sp - 128"
  shows "\<exists>d'. exec link kernelvec_restore d = Some (read_csr (core_csrs d) Csr_sepc, d') \<and>
      (\<forall>r. r \<noteq> R_tp \<longrightarrow> get_reg d' r = get_reg c r) \<and> get_reg d' R_tp = get_reg d R_tp \<and>
      core_mem d' = core_mem d \<and> core_csrs d' = sret_csrs (core_csrs d)"
proof -
  let ?d = "restore kv_loads frame d"
  have sp: "get_reg ?d R_sp = get_reg c R_sp - 128"
    using callee(2) kv_loads_ok map_of_eq_None_iff [of kv_loads R_sp] by (simp add: get_restore)
  have "exec link kernelvec_restore d = exec link [Addi R_sp R_sp 128, Sret] ?d"
    unfolding kernelvec_split using w kv_loads_ok by (intro exec_loads [where S = kv_offs])
  also have "\<dots> = Some (read_csr (core_csrs d) Csr_sepc,
      (set_reg R_sp (get_reg c R_sp) ?d)\<lparr>core_csrs := sret_csrs (core_csrs d)\<rparr>)"
    using sp by simp
  finally have run: "exec link kernelvec_restore d = \<dots>" .
  have "get_reg ?d r = get_reg c r" if r: "r \<noteq> R_tp" "r \<noteq> R_sp" for r
  proof (cases "\<exists>off. (r, off) \<in> set kv_loads")
    case True
    then obtain off where off: "(r, off) \<in> set kv_loads" by blast
    then have "get_reg ?d r = load32 (core_mem d) (frame + off)" using kv_loads_ok by (simp add: get_restore)
    also have "\<dots> = load32 (save kv_saves frame (get_reg c) m) (frame + off)"
      using frame off kv_loads_ok(4) by (auto simp: image_iff)
    also have "\<dots> = get_reg c r"
      using off kv_saves_ok al by (intro load32_save) (auto simp: kv_offs_def)
    finally show ?thesis .
  next
    case False
    then have "map_of kv_loads r = None" by (auto simp: map_of_eq_None_iff)
    then have "get_reg ?d r = get_reg d r" using kv_loads_ok by (simp add: get_restore)
    moreover have "get_reg d r = get_reg c r"
      using kv_cover [of r] False r callee(1) by (cases "r = R_zero") (simp_all add: get_reg_def [of _ R_zero])
    ultimately show ?thesis by simp
  qed
  moreover have "get_reg ?d R_tp = get_reg d R_tp"
    using kv_loads_ok map_of_eq_None_iff [of kv_loads R_tp] by (auto simp: get_restore kv_loads_def)
  ultimately show ?thesis unfolding run by simp
qed

lemma kernelvec_run:
  assumes w: "window (core_satp c) (core_mem c) (get_reg c R_sp - 128) frame kv_offs"
  shows "\<exists>c1. exec link (kernelvec_save h) c = Some (h, c1) \<and> core_csrs c1 = core_csrs c \<and>
    same_but frame kv_offs (core_mem c) (core_mem c1) \<and> get_reg c1 R_ra = link \<and>
    (\<forall>d. called frame c1 d \<longrightarrow> (\<exists>d'. exec link' kernelvec_restore d = Some (read_csr (core_csrs d) Csr_sepc, d') \<and>
      (\<forall>r. r \<noteq> R_tp \<longrightarrow> get_reg d' r = get_reg c r) \<and> get_reg d' R_tp = get_reg d R_tp \<and>
      core_mem d' = core_mem d \<and> core_csrs d' = sret_csrs (core_csrs d)))"
proof -
  let ?c0 = "set_reg R_sp (get_reg c R_sp - 128) c"
  let ?m = "save kv_saves frame (get_reg c) (core_mem c)"
  let ?c1 = "set_reg R_ra link (?c0\<lparr>core_mem := ?m\<rparr>)"
  have eq: "save kv_saves frame (get_reg ?c0) m = save kv_saves frame (get_reg c) m" for m
    unfolding save_def using kv_saves_ok(4) by (intro fold_cong) (auto simp: image_iff)
  have run: "exec link (kernelvec_save h) c = Some (h, ?c1)"
    using exec_stores [of ?c0 R_sp frame kv_offs kv_saves link "[Call h]"] w eq
    by (simp add: kernelvec_split kv_offs_def)
  have al: "word_aligned frame" using w by (simp add: window_def)
  have "same_but frame kv_offs (core_mem c) ?m" by (rule same_but_save) (simp add: kv_offs_def)
  moreover have "\<exists>d'. exec link' kernelvec_restore d = Some (read_csr (core_csrs d) Csr_sepc, d') \<and>
      (\<forall>r. r \<noteq> R_tp \<longrightarrow> get_reg d' r = get_reg c r) \<and> get_reg d' R_tp = get_reg d R_tp \<and>
      core_mem d' = core_mem d \<and> core_csrs d' = sret_csrs (core_csrs d)" if "called frame ?c1 d" for d
    using that al by (intro kernelvec_resumes) (auto simp: called_def callee_saved_def)
  ultimately show ?thesis using run by auto
qed

end
