(* ===== verification/System.thy ===== *)
theory System
  imports BootRefine AsmProps
begin

text \<open>
  The kernel as a transition system: rounds of the scheduler, dispatches, time in user mode and
  traps. Traps, \<open>sret\<close> and the stores of a process in user mode are written from the
  architecture; the rest are the routines of the trampoline and the handlers of the kernel. The system refines
  the abstract machine of \<open>ProcAbs\<close>, and the theorems on every state the kernel can reach
  follow from its invariant. System calls run to their end or to their switch without being
  interrupted.
\<close>

section \<open>User mode\<close>

text \<open>The memory a process can write in user mode, on the page table \<open>satp\<close> names.\<close>

definition user_stores :: "usize \<Rightarrow> memory \<Rightarrow> memory \<Rightarrow> bool" where
  "user_stores satp m m' \<longleftrightarrow> (\<forall>a. m' a \<noteq> m a \<longrightarrow>
     (\<exists>va. sv32_translate m (push_bit 12 satp) Store UMode va = Some a))"

text \<open>
  From the return to user mode to the call of \<open>usertrap\<close>: \<open>userret\<close> loads the user's page table
  and registers, the process runs and stores, a trap occurs, and \<open>uservec\<close> saves the registers in
  the trapframe and loads the kernel's page table.
\<close>

inductive user_time :: "usize \<Rightarrow> ('h, 'z) kstate_scheme \<Rightarrow> ('h, 'z) kstate_scheme \<Rightarrow> bool" where
  "core_mem c0 = mem s \<Longrightarrow> core_csrs c0 = csrs s \<Longrightarrow> get_reg c0 R_a0 = satp \<Longrightarrow>
   exec link userret c0 = Some (upc, c1) \<Longrightarrow>
   user_stores satp (mem s) m \<Longrightarrow>
   c2 = \<lparr>xreg = uregs, core_mem = m,
     core_csrs = trap_csrs False pc cause tval (write_csr (core_csrs c1) Csr_time now)\<rparr> \<Longrightarrow>
   exec link' uservec c2 = Some (handler, c3) \<Longrightarrow>
   user_time satp s (s\<lparr>mem := core_mem c3, csrs := core_csrs c3\<rparr>)"

section \<open>Steps\<close>

text \<open>
  The kernel is in its scheduler, or a process is in user mode on the page table \<open>satp\<close>. A step
  carries the process it dispatches.
\<close>

datatype kmode = In_scheduler | In_user usize

inductive kstep :: "'h env \<Rightarrow> nat option \<Rightarrow> kmode \<times> ('h, 'z) kstate_scheme \<Rightarrow>
    kmode \<times> ('h, 'z) kstate_scheme \<Rightarrow> bool" for E where
  idle: "scheduler E regs s = Inr (None, s1) \<Longrightarrow>
    s2 = s1\<lparr>csrs := trap_csrs True pc cause tval (write_csr (csrs s1) Csr_time now)\<rparr> \<Longrightarrow>
    kerneltrap E regs s2 = Inr (To_kernel, s3) \<Longrightarrow>
    kstep E None (In_scheduler, s) (In_scheduler, s3\<lparr>csrs := sret_csrs (csrs s3)\<rparr>)"
| dispatch: "scheduler E regs s = Inr (Some i, s1) \<Longrightarrow> resume E i regs' s1 = Inr (To_user satp, s2) \<Longrightarrow>
    kstep E (Some i) (In_scheduler, s) (In_user satp, s2)"
| dispatch_switch: "scheduler E regs s = Inr (Some i, s1) \<Longrightarrow> resume E i regs' s1 = Inr (To_sched, s2) \<Longrightarrow>
    scheduler_resume E i s2 = Inr s3 \<Longrightarrow> kstep E (Some i) (In_scheduler, s) (In_scheduler, s3)"
| user: "current (cpu s) = Some i \<Longrightarrow> user_time satp s s1 \<Longrightarrow> usertrap E regs s1 = Inr (To_user satp', s2) \<Longrightarrow>
    kstep E None (In_user satp, s) (In_user satp', s2)"
| user_switch: "current (cpu s) = Some i \<Longrightarrow> user_time satp s s1 \<Longrightarrow> usertrap E regs s1 = Inr (To_sched, s2) \<Longrightarrow>
    scheduler_resume E i s2 = Inr s3 \<Longrightarrow> kstep E None (In_user satp, s) (In_scheduler, s3)"

text \<open>The states at the beginning of a step, and those after start-up.\<close>

definition sys_inv :: "kmode \<times> ('h, 'z) kstate_scheme \<Rightarrow> bool" where
  "sys_inv c \<longleftrightarrow> quiet (snd c) \<and> ainv (abs_sys (snd c)) \<and>
     (case fst c of In_scheduler \<Rightarrow> current (cpu (snd c)) = None
      | In_user _ \<Rightarrow> \<exists>i. in_kernel i (snd c))"

definition sys_start :: "kmode \<times> ('h, 'z) kstate_scheme \<Rightarrow> bool" where
  "sys_start c \<longleftrightarrow> fst c = In_scheduler \<and> quiet (snd c) \<and> astart (abs_sys (snd c))"

lemma user_time_same_sys: "user_time satp s s' \<Longrightarrow> same_sys s s'"
  by (auto elim!: user_time.cases)

section \<open>Refinement\<close>

text \<open>The dispatches of a sequence of abstract steps.\<close>

definition dispatch_of :: "nat option \<Rightarrow> alabel list \<Rightarrow> bool" where
  "dispatch_of d ls \<longleftrightarrow> (case d of None \<Rightarrow> dispatches ls = 0
     | Some i \<Rightarrow> \<exists>ms. ls = A_dispatch i # ms \<and> dispatches ms = 0)"

context spin_crate
begin

lemma dispatch_resume:
  assumes "quiet s" "current (cpu s) = None" "ainv (abs_sys s)"
    and sched: "scheduler E regs s = Inr (Some i, s1)" and run: "resume E i regs' s1 = Inr (r, s2)"
  shows "astep (A_dispatch i) (abs_sys s) (abs_sys s1)" "trap_ends i s1 r s2"
proof -
  note d = scheduler_refines [OF assms(1,2) sched]
  show "astep (A_dispatch i) (abs_sys s) (abs_sys s1)" by (rule d(3))
  have inv: "ainv (abs_sys s1)" by (rule astep_ainv [OF d(3) assms(3)])
  have i: "i < length (k_table s)" "p_state (k_table s ! i) = Runnable" "p_cont (k_table s1 ! i) = p_cont (k_table s ! i)"
    using sched [unfolded scheduler_eq [OF assms(1)]] find_sched_order_eq [of "k_table s" i]
    by (auto simp: dispatched_def next_process_def runnable_def split: option.splits if_splits)
  then have "resumable (p_cont (k_table s1 ! i))"
    using assms(3) by (auto simp: ainv_def cont_ok_def cont_fits_def resumable_def split: kcont.splits)
  then show "trap_ends i s1 r s2" by (rule resume_refines [OF d(1,2) inv _ run])
qed

lemma handed_over_resume:
  assumes "handed_over i s s'" "scheduler_resume E i s' = Inr s''"
  shows "quiet s''" "current (cpu s'') = None" "\<exists>ls. dispatches ls = 0 \<and> asteps ls (abs_sys s) (abs_sys s'')"
proof -
  have sw: "switched i s'" using assms(1) by (simp add: handed_over_def)
  from scheduler_resume_ok [OF sw] assms(2) have q: "quiet s''" "abs_sys s'' = (abs_sys s')\<lparr>a_run := None\<rparr>" by auto
  show "quiet s''" by (rule q(1))
  have "a_run (abs_sys s'') = None" by (simp add: q(2))
  then show "current (cpu s'') = None" by simp
  show "\<exists>ls. dispatches ls = 0 \<and> asteps ls (abs_sys s) (abs_sys s'')"
    using assms(1) by (simp add: handed_over_def q(2))
qed

lemma dispatch_trap:
  assumes s: "quiet s" "current (cpu s) = None" "ainv (abs_sys s)" "scheduler E regs s = Inr (Some i, s1)"
    and ls: "dispatches ls = 0" "asteps ls (abs_sys s1) B" and run: "resume E i regs' s1 = Inr (r, s2)"
  shows "dispatch_of (Some i) (A_dispatch i # ls)" "asteps (A_dispatch i # ls) (abs_sys s) B"
  using ls dispatch_resume(1) [OF s run] by (auto simp: dispatch_of_def intro: asteps.cons)

lemma kstep_sim:
  assumes step: "kstep E d c c'" and inv: "sys_inv c"
  shows "quiet (snd c')" "case fst c' of In_scheduler \<Rightarrow> current (cpu (snd c')) = None | In_user _ \<Rightarrow> \<exists>i. in_kernel i (snd c')"
    "\<exists>ls. dispatch_of d ls \<and> asteps ls (abs_sys (snd c)) (abs_sys (snd c'))"
proof -
  have "quiet (snd c') \<and> (case fst c' of In_scheduler \<Rightarrow> current (cpu (snd c')) = None | In_user _ \<Rightarrow> \<exists>i. in_kernel i (snd c')) \<and>
    (\<exists>ls. dispatch_of d ls \<and> asteps ls (abs_sys (snd c)) (abs_sys (snd c')))"
    using step
  proof (cases rule: kstep.cases)
    case (idle regs s s1 s2 pc cause tval now s3)
    have q: "quiet s" "current (cpu s) = None" using inv idle(2) by (auto simp: sys_inv_def)
    have 1: "same_sys s s1" using scheduler_idles [OF q(1)] idle(4) by blast
    then have "same_sys s s3"
      using idle(5,6) q(2)
      by (auto simp: kerneltrap_def Let_def run_inv next_timer_def kprintln_eq kerneltrap_end_def same_sys_def split: if_splits)
    then have same: "same_sys s (snd c')" using idle(3) by simp
    have "dispatch_of d []" "asteps [] (abs_sys (snd c)) (abs_sys (snd c'))"
      using same_sys_abs [OF same] idle(1,2) by (auto simp: dispatch_of_def dispatches_def)
    moreover have "quiet (snd c')" "current (cpu (snd c')) = None"
      using same_sys_quiet [OF same] same q by (auto simp: same_sys_def)
    ultimately show ?thesis using idle(3) by auto
  next
    case (dispatch regs s i s1 regs' satp s2)
    have q: "quiet s" "current (cpu s) = None" "ainv (abs_sys s)" using inv dispatch(2) by (auto simp: sys_inv_def)
    from dispatch_resume(2) [OF q dispatch(4,5)] obtain ls where ls: "dispatches ls = 0" "asteps ls (abs_sys s1) (abs_sys s2)"
      and own: "in_kernel i s2" by (auto simp: trap_ends_def returned_def)
    then show ?thesis
      using dispatch_trap [OF q dispatch(4) ls dispatch(5)] dispatch(1-3) by (auto simp: in_kernel_def)
  next
    case (dispatch_switch regs s i s1 regs' s2 s3)
    have q: "quiet s" "current (cpu s) = None" "ainv (abs_sys s)" using inv dispatch_switch(2) by (auto simp: sys_inv_def)
    have "handed_over i s1 s2" using dispatch_resume(2) [OF q dispatch_switch(4,5)] by (simp add: trap_ends_def)
    note h = handed_over_resume [OF this dispatch_switch(6)]
    then obtain ls where "dispatches ls = 0" "asteps ls (abs_sys s1) (abs_sys s3)" by blast
    from dispatch_trap [OF q dispatch_switch(4) this dispatch_switch(5)] show ?thesis
      using h(1,2) dispatch_switch(1-3) by auto
  next
    case (user s i satp s1 regs satp' s2)
    have own: "in_kernel i s" "ainv (abs_sys s)" using inv user(2,4) by (auto simp: sys_inv_def in_kernel_def)
    have 1: "returned i s s1" by (rule in_kernel_same_sys [OF own(1) user_time_same_sys [OF user(5)]])
    then have "trap_ends i s1 (To_user satp') s2"
      using usertrap_refines [OF _ returned_ainv [OF 1 own(2)] user(6)] by (simp add: returned_def)
    from trap_ends_trans [OF 1 this] have "returned i s s2" by (simp add: trap_ends_def)
    then show ?thesis using user(1-3) by (auto simp: returned_def in_kernel_def dispatch_of_def)
  next
    case (user_switch s i satp s1 regs s2 s3)
    have own: "in_kernel i s" "ainv (abs_sys s)" using inv user_switch(2,4) by (auto simp: sys_inv_def in_kernel_def)
    have 1: "returned i s s1" by (rule in_kernel_same_sys [OF own(1) user_time_same_sys [OF user_switch(5)]])
    then have "trap_ends i s1 To_sched s2"
      using usertrap_refines [OF _ returned_ainv [OF 1 own(2)] user_switch(6)] by (simp add: returned_def)
    from trap_ends_trans [OF 1 this] have "handed_over i s s2" by (simp add: trap_ends_def)
    from handed_over_resume [OF this user_switch(7)] show ?thesis using user_switch(1-3) by (auto simp: dispatch_of_def)
  qed
  then show "quiet (snd c')" "case fst c' of In_scheduler \<Rightarrow> current (cpu (snd c')) = None | In_user _ \<Rightarrow> \<exists>i. in_kernel i (snd c')"
    "\<exists>ls. dispatch_of d ls \<and> asteps ls (abs_sys (snd c)) (abs_sys (snd c'))" by blast+
qed

lemma kstep_sys_inv:
  assumes "kstep E d c c'" "sys_inv c"
  shows "sys_inv c'"
proof -
  have "ainv (abs_sys (snd c'))" using kstep_sim(3) [OF assms] assms(2) asteps_ainv by (auto simp: sys_inv_def)
  then show ?thesis using kstep_sim(1,2) [OF assms] by (simp add: sys_inv_def)
qed

end

sublocale spin_crate \<subseteq> kernel: invariant_system sys_start "\<lambda>c c'. \<exists>d. kstep E d c c'" sys_inv
proof
  show "sys_start c \<Longrightarrow> sys_inv c" for c
    using astart_ainv [of "abs_sys (snd c)"] by (auto simp: sys_start_def sys_inv_def astart_def)
  show "\<exists>d. kstep E d c c' \<Longrightarrow> sys_inv c \<Longrightarrow> sys_inv c'" for c c'
    using kstep_sys_inv by blast
qed

context spin_crate
begin

lemma reachable_sys_inv:
  assumes "sys_start c" "(\<lambda>c c'. \<exists>d. kstep E d c c')\<^sup>*\<^sup>* c c'"
  shows "sys_inv c'"
  using assms by (rule kernel.reachable_inv)

end

end
