(* ===== verification/UvmFork.thy ===== *)
theory UvmFork
  imports UvmClone
begin

text \<open>
  \<open>Uvm::clone\<close>: the child's address space maps the same user addresses with the same
  permissions, onto pages fresh from the heap that hold copies of the parent's pages.
\<close>

section \<open>Copied pages\<close>

definition same_contents :: "memory \<Rightarrow> usize \<Rightarrow> memory \<Rightarrow> usize \<Rightarrow> bool" where
  "same_contents m p m' q \<longleftrightarrow> (\<forall>i. unat i < 4096 \<longrightarrow> m' (q + i) = m (p + i))"

lemma same_contents_frame:
  assumes "same_contents m p m' q" "same_page m' m'' q" "page_aligned q"
  shows "same_contents m p m'' q"
  using assms by (simp add: same_contents_def same_page_def page_of_plus)

lemma copy_page_contents:
  assumes "page_aligned p" "page_aligned q" "p \<noteq> q" "same_page m0 m p"
  shows "same_contents m0 p (copy_nonoverlapping m p q 4096) q"
  using assms by (simp add: same_contents_def copy_page_apply page_of_plus same_page_def)

lemma pte_perm_bits: "bit (pte_perm (Pte_from w)) n \<longleftrightarrow> bit w n \<and> 1 \<le> n \<and> n \<le> 4"
  unfolding Pte_from_perm bit_and_iff bit_push_bit_iff bit_mask_iff by auto

lemma pte_perm_mask: "perm_mask (pte_perm (Pte_from w))"
proof -
  have mm: "(0b11110 :: usize) = push_bit 1 (mask 4)" by (simp add: mask_eq_exp_minus_1)
  have "bit (0b11110 :: usize) n \<longleftrightarrow> 1 \<le> n \<and> n \<le> 4" for n
    unfolding mm bit_push_bit_iff bit_mask_iff by auto
  then show ?thesis unfolding perm_mask_def and_not_eq_0_iff pte_perm_bits by blast
qed

text \<open>The entry for the copy has the flags of the original.\<close>

lemma copied_word:
  assumes "page_aligned a" "1 \<le> n" "n \<le> 4"
  shows "bit (leaf_word a (pte_perm (Pte_from w))) n \<longleftrightarrow> bit w n"
  using assms(2,3) leaf_word_bits [OF assms(1), of n] by (simp add: pte_perm_bits)

lemma copied_word_user:
  assumes "page_aligned a"
  shows "has_perm (leaf_word a (pte_perm (Pte_from w))) = has_perm w"
    "user_leaf (leaf_word a (pte_perm (Pte_from w))) = user_leaf w"
    "pte_page (leaf_word a (pte_perm (Pte_from w))) = a"
  using copied_word [OF assms] leaf_word_page [OF assms pte_perm_mask]
  by (simp_all add: has_perm_def user_leaf_def)

section \<open>The relation between parent and child\<close>

definition copy_of :: "memory \<Rightarrow> memory \<Rightarrow> usize option \<Rightarrow> usize option \<Rightarrow> bool" where
  "copy_of m0 m e e' \<longleftrightarrow> (case e of None \<Rightarrow> e' = None
     | Some w \<Rightarrow> \<exists>a. e' = Some (leaf_word a (pte_perm (Pte_from w))) \<and> page_aligned a \<and>
         same_contents m0 (pte_page w) m a)"

definition child_pages :: "('h, 'z) machine_scheme \<Rightarrow> Uvm \<Rightarrow> usize set" where
  "child_pages s vm = uvm_frames s vm \<union> user_pages (uvm_leaf s vm)"

text \<open>
  \<open>forked s0 uv s vm n\<close>: between the states \<open>s0\<close> and \<open>s\<close>, the first \<open>n\<close> bytes of the
  user range of \<open>uv\<close> have been copied into \<open>vm\<close>, and nothing else has changed.
\<close>

definition forked :: "('h \<Rightarrow> bool) \<Rightarrow> ('h \<Rightarrow> usize set) \<Rightarrow> ('h, 'z) machine_scheme \<Rightarrow> Uvm \<Rightarrow>
    ('h, 'z) machine_scheme \<Rightarrow> Uvm \<Rightarrow> nat \<Rightarrow> bool" where
  "forked hwf live s0 uv s vm n \<longleftrightarrow>
     uvm_ok hwf live s uv \<and> uvm_leaf s uv = uvm_leaf s0 uv \<and> uvm_frames s uv = uvm_frames s0 uv \<and>
     uvm_ok hwf live s vm \<and> same_rest s0 s \<and>
     live (heap_st s) = live (heap_st s0) \<union> child_pages s vm \<and> child_pages s vm \<inter> live (heap_st s0) = {} \<and>
     (\<forall>q. q \<notin> child_pages s vm \<longrightarrow> same_page (mem s0) (mem s) q) \<and>
     (\<forall>va. if in_range USER_START n va then copy_of (mem s0) (mem s) (uvm_leaf s0 uv va) (uvm_leaf s vm va)
        else uvm_leaf s vm va = None)"

lemma forkedD:
  assumes "forked hwf live s0 uv s vm n"
  shows "uvm_ok hwf live s uv" "uvm_leaf s uv = uvm_leaf s0 uv" "uvm_frames s uv = uvm_frames s0 uv"
    "uvm_ok hwf live s vm" "same_rest s0 s" "live (heap_st s) = live (heap_st s0) \<union> child_pages s vm"
    "child_pages s vm \<inter> live (heap_st s0) = {}" "q \<notin> child_pages s vm \<Longrightarrow> same_page (mem s0) (mem s) q"
    "in_range USER_START n va \<Longrightarrow> copy_of (mem s0) (mem s) (uvm_leaf s0 uv va) (uvm_leaf s vm va)"
    "\<not> in_range USER_START n va \<Longrightarrow> uvm_leaf s vm va = None"
  using assms unfolding forked_def by meson+

lemma uvm_pages_live:
  assumes "uvm_ok hwf live s uv"
  shows "uvm_frames s uv \<subseteq> live (heap_st s)" "user_pages (uvm_leaf s uv) \<subseteq> live (heap_st s)"
    "uvm_frames s uv \<inter> user_pages (uvm_leaf s uv) = {}"
  using uvm_okD(1) [OF assms] by (auto simp: owned_def table_ok_def)

text \<open>A copied entry stays a copy when its page is not written.\<close>

lemma copy_of_frame:
  assumes "copy_of m0 m e e'" "\<And>w a. e = Some w \<Longrightarrow> e' = Some (leaf_word a (pte_perm (Pte_from w))) \<Longrightarrow>
    page_aligned a \<Longrightarrow> same_page m m' a"
  shows "copy_of m0 m' e e'"
proof (cases e)
  case None
  then show ?thesis using assms(1) by (simp add: copy_of_def)
next
  case (Some w)
  then obtain a where a: "e' = Some (leaf_word a (pte_perm (Pte_from w)))" "page_aligned a"
      "same_contents m0 (pte_page w) m a"
    using assms(1) by (auto simp: copy_of_def)
  have "same_contents m0 (pte_page w) m' a"
    using same_contents_frame [OF a(3) assms(2) [OF Some a(1,2)] a(2)] .
  then show ?thesis using Some a by (auto simp: copy_of_def)
qed

lemma in_range_page:
  assumes "page_aligned b" "page_aligned sz" "in_range b (unat sz) (page_of va)"
  shows "in_range b (unat sz) va"
proof -
  obtain k where "unat b = 4096 * k" using assms(1) by (auto simp: page_aligned_iff_dvd)
  moreover obtain l where "unat sz = 4096 * l" using assms(2) by (auto simp: page_aligned_iff_dvd)
  ultimately have kl: "unat b = 4096 * k" "unat sz = 4096 * l" by auto
  have "4096 * k \<le> 4096 * (unat va div 4096)" "4096 * (unat va div 4096) < 4096 * (k + l)"
    using assms(3) by (simp_all add: in_range_def unat_page_of kl algebra_simps)
  then have "k \<le> unat va div 4096" "unat va div 4096 < k + l" by simp_all
  then have "4096 * k \<le> unat va" "unat va < 4096 * (k + l)"
    by (simp_all add: less_eq_div_iff_mult_less_eq div_less_iff_less_mult mult.commute)
  then show ?thesis by (simp add: in_range_def kl algebra_simps)
qed

lemma parent_leaf_user:
  assumes "uvm_ok hwf live s uv" "in_range (uvm_begin uv) (unat (uvm_size uv)) va" "uvm_leaf s uv va = Some w"
  shows "has_perm w" "bit w 4" "user_leaf w" "pte_page w \<in> user_pages (uvm_leaf s uv)"
proof -
  note l = uvm_okD(6) [OF assms(1), unfolded uvm_leaf_ok_def, rule_format, OF assms(3)]
  show p: "has_perm w" using l by simp
  show u: "bit w 4" using l user_range_page [OF uvm_okD(5) [OF assms(1)] assms(2)] by (auto split: if_splits)
  then show ul: "user_leaf w" using p by (simp add: user_leaf_iff)
  then show "pte_page w \<in> user_pages (uvm_leaf s uv)"
    using assms(3) by (auto simp: user_pages_def user_words_def)
qed

text \<open>Skipping a page the parent does not map.\<close>

lemma forked_skip:
  assumes f: "forked hwf live s0 uv s vm n" and v: "page_aligned v" "unat v = unat USER_START + n"
    and none: "uvm_leaf s0 uv v = None"
  shows "forked hwf live s0 uv s vm (n + 4096)"
proof -
  have split: "in_range USER_START (n + 4096) va \<longleftrightarrow> in_range USER_START n va \<or> page_of va = v" for va
    using page_range [OF v(1), of va] v(2) by (auto simp: in_range_def)
  have "\<not> in_range USER_START n v" by (simp add: in_range_def v(2))
  then have nv: "uvm_leaf s vm v = None" by (rule forkedD(10) [OF f])
  have "copy_of (mem s0) (mem s) (uvm_leaf s0 uv va) (uvm_leaf s vm va)" if "page_of va = v" for va
  proof -
    have "page_of va = page_of v" using that v(1) by simp
    then show ?thesis
      using leaf_page_cong [of va v "mem s"] leaf_page_cong [of va v "mem s0"] none nv
      by (simp add: copy_of_def)
  qed
  then show ?thesis using f forkedD(9,10) [OF f] unfolding forked_def split by metis
qed

context platform
begin

text \<open>
  Entering the copy: \<open>s3\<close> is the state after the page \<open>a\<close> has been allocated and filled,
  \<open>s4\<close> the state after the child's table has been extended.
\<close>

lemma forked_page:
  assumes f: "forked hwf live s0 uv s vm n" and same: "uvm_begin vm = uvm_begin uv" "uvm_size vm = uvm_size uv"
    and ok0: "uvm_ok hwf live s0 uv"
    and v: "page_aligned v" "unat v = unat USER_START + n" "in_range (uvm_begin uv) (unat (uvm_size uv)) v"
    and w: "uvm_leaf s0 uv v = Some w"
    and a: "page_aligned a" "a \<notin> live (heap_st s)" "live (heap_st s3) = insert a (live (heap_st s))"
    and s3: "same_rest s s3" "mem s3 = copy_nonoverlapping (mem s) (pte_page w) a 4096"
    and g: "grows hwf live (pt_root (uvm_pagetable vm)) s3 s4" "owned hwf live s4 (pt_root (uvm_pagetable vm))"
    and lf: "uvm_leaf s4 vm = as_map v a 4096 (pte_perm (Pte_from w)) (uvm_leaf s vm)"
    and fr3: "uvm_frames s3 vm = uvm_frames s vm"
  shows "forked hwf live s0 uv s4 vm (n + 4096)"
proof -
  let ?w = "leaf_word a (pte_perm (Pte_from w))"
  note D = forkedD [OF f]
  note cw = copied_word_user [OF a(1), of w]
  note pw = parent_leaf_user [OF ok0 v(3) w]
  note L = lf [unfolded as_map_page [OF v(1)]]
  have split: "in_range USER_START (n + 4096) va \<longleftrightarrow> in_range USER_START n va \<or> page_of va = v" for va
    using page_range [OF v(1), of va] v(2) by (auto simp: in_range_def)
  have new: "\<not> in_range USER_START n va" if "page_of va = v" for va
    using page_range [OF v(1), of va] that v(2) by (simp add: in_range_def)
  have live_s0: "live (heap_st s0) \<subseteq> live (heap_st s)" using D(6) by blast
  have srcl: "pte_page w \<in> live (heap_st s0)" using pw(4) uvm_pages_live(2) [OF ok0] by blast
  have cp: "same_page (mem s) (mem s3) q" if "q \<noteq> a" for q
    using same_page_copy_page [OF a(1)] that s3(2) by simp
  have fr4: "uvm_frames s4 vm \<inter> live (heap_st s) = uvm_frames s vm" "a \<notin> uvm_frames s4 vm"
    using growsD(4) [OF g(1)] fr3 a uvm_pages_live(1) [OF D(4)] by auto
  have up4: "user_pages (uvm_leaf s4 vm) = insert a (user_pages (uvm_leaf s vm))"
  proof -
    have v0: "uvm_leaf s vm va = None" if "page_of va = v" for va using D(10) new that by blast
    have "x \<in> user_words (uvm_leaf s4 vm) (\<lambda>_. True) \<longleftrightarrow> x = ?w \<or> x \<in> user_words (uvm_leaf s vm) (\<lambda>_. True)" for x
      unfolding user_words_def L using cw(2) pw(3) v(1) v0
      by (auto split: if_splits intro: exI [of _ v]) force
    then have "user_words (uvm_leaf s4 vm) (\<lambda>_. True) = insert ?w (user_words (uvm_leaf s vm) (\<lambda>_. True))"
      by blast
    then show ?thesis using cw(3) by (simp add: user_pages_def)
  qed
  have step: "same_page (mem s) (mem s4) q" if "q \<noteq> a" "q \<notin> uvm_frames s4 vm" for q
    using same_page_trans [OF cp [OF that(1)] growsD(5) [OF g(1) that(2)]] .
  have live4: "live (heap_st s4) = insert a (live (heap_st s)) \<union> uvm_frames s4 vm"
    using growsD(3) [OF g(1)] a(3) by simp
  have pages4: "child_pages s4 vm = insert a (child_pages s vm) \<union> uvm_frames s4 vm"
    using fr4(1) uvm_pages_live(1) [OF D(4)] by (auto simp: child_pages_def up4)
  have leaf_ok: "uvm_leaf_ok (uvm_leaf s4 vm) vm"
  proof -
    have "in_range (uvm_begin vm) (unat (uvm_size vm)) va" if "page_of va = v" for va
      using in_range_page [of "uvm_begin uv" "uvm_size uv" va] uvm_dimsD [OF uvm_okD(5) [OF ok0]] v(3) that same
      by simp
    then show ?thesis
      using uvm_okD(6) [OF D(4)] cw(1) pw copied_word [OF a(1), of 4 w] unfolding uvm_leaf_ok_def L
      by auto
  qed
  then have okv: "uvm_ok hwf live s4 vm" using g(2) uvm_okD(5) [OF D(4)] by (simp add: uvm_ok_def)
  have par: "q \<noteq> a \<and> q \<notin> uvm_frames s4 vm" if "q \<in> live (heap_st s0)" for q
    using that fr4(1) a(2) live_s0 D(7) by (auto simp: child_pages_def)
  have sr: "same_rest s s4" using same_rest_trans [OF s3(1) growsD(2) [OF g(1)]] .
  have "uvm_frames s uv \<union> user_pages (uvm_leaf s uv) \<subseteq> live (heap_st s4)"
    using uvm_pages_live(1,2) [OF D(1)] live4 by blast
  moreover have "same_page (mem s) (mem s4) q" if "q \<in> uvm_frames s uv" for q
    using step par that D(3) uvm_pages_live(1) [OF ok0] by blast
  ultimately have pu: "uvm_ok hwf live s4 uv" "uvm_leaf s4 uv = uvm_leaf s0 uv" "uvm_frames s4 uv = uvm_frames s0 uv"
    using uvm_ok_transfer [OF D(1) sr table_okD(2) [OF growsD(1) [OF g(1)]]] D(2,3) by auto
  have fr: "same_page (mem s0) (mem s4) q" if "q \<notin> child_pages s4 vm" for q
    using same_page_trans [OF D(8) step] that pages4 by blast
  have contents: "if in_range USER_START (n + 4096) va
      then copy_of (mem s0) (mem s4) (uvm_leaf s0 uv va) (uvm_leaf s4 vm va) else uvm_leaf s4 vm va = None" for va
  proof (cases "page_of va = v")
    case True
    have "pte_page w \<notin> child_pages s vm" using srcl D(7) by blast
    then have "same_contents (mem s0) (pte_page w) (mem s3) a"
      unfolding s3(2) using srcl live_s0 a(2) by (intro copy_page_contents [OF _ a(1) _ D(8)]) auto
    then have "same_contents (mem s0) (pte_page w) (mem s4) a"
      using same_contents_frame [OF _ growsD(5) [OF g(1) fr4(2)] a(1)] by blast
    moreover have "uvm_leaf s0 uv va = Some w" using w True leaf_page_cong [of va v] v(1) by simp
    ultimately show ?thesis using True a(1) by (simp add: split L copy_of_def) blast
  next
    case False
    then have L': "uvm_leaf s4 vm va = uvm_leaf s vm va" by (simp add: L)
    show ?thesis
    proof (cases "in_range USER_START n va")
      case True
      have rng: "in_range (uvm_begin uv) (unat (uvm_size uv)) va"
        using True v(2,3) uvm_dimsD(1) [OF uvm_okD(5) [OF ok0]] by (simp add: in_range_def)
      have "same_page (mem s) (mem s4) b" if "uvm_leaf s0 uv va = Some x" "page_aligned b"
        "uvm_leaf s vm va = Some (leaf_word b (pte_perm (Pte_from x)))" for x b
      proof -
        have "b \<in> user_pages (uvm_leaf s vm)"
          using that copied_word_user [OF that(2), of x] parent_leaf_user(3) [OF ok0 rng that(1)]
          unfolding user_pages_def user_words_def by force
        then show ?thesis
          using step [of b] uvm_pages_live [OF D(4)] uvm_pages_live(3) [OF okv] up4 a(2) by blast
      qed
      then show ?thesis
        using copy_of_frame [OF D(9) [OF True]] True by (simp add: split L')
    next
      case out: False
      then show ?thesis using False D(10) by (simp add: split L')
    qed
  qed
  have "live (heap_st s4) = live (heap_st s0) \<union> child_pages s4 vm" using live4 pages4 D(6) by blast
  moreover have "child_pages s4 vm \<inter> live (heap_st s0) = {}" using pages4 D(7) par by blast
  ultimately show ?thesis
    unfolding forked_def using pu okv same_rest_trans [OF D(5) sr] fr contents by blast
qed

text \<open>One round of the copy loop.\<close>

lemma clone_round:
  assumes f: "forked hwf live s0 uv s vm n" and same: "uvm_begin vm = uvm_begin uv" "uvm_size vm = uvm_size uv"
    and ok0: "uvm_ok hwf live s0 uv"
    and v: "page_aligned v" "unat v = unat USER_START + n" "in_range (uvm_begin uv) (unat (uvm_size uv)) v"
    and l2: "leaf_addr (mem s0) (pt_root (uvm_pagetable uv)) v \<noteq> None"
  obtains (oom) msg where "clone_loop E (uvm_pagetable uv) (uvm_pagetable vm) (v # vs) s = Inl (Panic msg)"
      "takes E 2 (heap_st s) = None"
  | (copied) s' where "clone_loop E (uvm_pagetable uv) (uvm_pagetable vm) (v # vs) s =
        clone_loop E (uvm_pagetable uv) (uvm_pagetable vm) vs s'" "forked hwf live s0 uv s' vm (n + 4096)"
      "served E 2 (heap_st s) True (heap_st s')"
proof -
  let ?rp = "pt_root (uvm_pagetable uv)" and ?rc = "pt_root (uvm_pagetable vm)"
  note D = forkedD [OF f]
  have wf: "pt_wf (mem s) ?rp" using uvm_okD(2) [OF D(1)] by (rule table_okD)
  have "?rp \<notin> child_pages s vm"
    using uvm_pages_live(1) [OF ok0] D(7) root_in_frames [of ?rp "mem s0"] by blast
  then have "leaf_addr (mem s) ?rp v = leaf_addr (mem s0) ?rp v"
    using leaf_addr_frame [OF D(8)] pt_wfD(1) [OF wf] by blast
  then obtain p where p: "leaf_addr (mem s) ?rp v = Some p" using l2 by auto
  let ?w = "load32 (mem s) p"
  have walk: "walk E (uvm_pagetable uv) v Walk s = Inr (Some p, s)" using walk_Walk [OF wf] p by simp
  have lf0: "uvm_leaf s0 uv v = (if bit ?w 0 then Some ?w else None)"
    unfolding D(2) [symmetric] by (simp add: leaf_def p)
  show thesis
  proof (cases "bit ?w 0")
    case False
    have "clone_loop E (uvm_pagetable uv) (uvm_pagetable vm) (v # vs) s =
        clone_loop E (uvm_pagetable uv) (uvm_pagetable vm) vs s"
      using walk False by simp
    then show ?thesis using that(2) forked_skip [OF f v(1,2)] lf0 False by simp
  next
    case True
    then have w: "uvm_leaf s0 uv v = Some ?w" using lf0 by simp
    show ?thesis
      using uvm_okD(3,4) [OF D(4)]
    proof (cases rule: page_alloc_cases)
      case (oom h)
      then show ?thesis
        using walk True by (intro that(1)) (simp_all add: FrameAllocator_allocate_def PAGE_LAYOUT_def numeral_2_eq_2)
    next
      case (page a h)
      let ?s3 = "(refresh_prev s)\<lparr>heap_st := h, mem := copy_nonoverlapping (mem s) (pte_page ?w) a 4096\<rparr>"
      have q: "same_page (mem s) (mem ?s3) q" if "q \<noteq> a" for q
        using same_page_copy_page [OF page(4)] that by simp
      have used: "uvm_frames s vm \<subseteq> live (heap_st s)" "user_pages (uvm_leaf s vm) \<subseteq> live (heap_st s)"
        using uvm_pages_live [OF D(4)] by auto
      have rest: "same_rest s ?s3" "hwf (heap_st ?s3)" using page(9) by simp_all
      have fr: "same_page (mem s) (mem ?s3) q" if "q \<in> uvm_frames s vm" for q
        using that used(1) page(7) by (intro q) blast
      have lv: "uvm_frames s vm \<union> user_pages (uvm_leaf s vm) \<subseteq> live (heap_st ?s3)"
        using page(8) used by auto
      note o3 = owned_transfer [OF uvm_okD(1) [OF D(4)] rest fr lv]
      have vb: "unat v + 4096 < 2 ^ 32" using v uvm_dimsD(4) [OF uvm_okD(5) [OF ok0]]
        by (simp add: in_range_def TRAPFRAME_num)
      have ab: "unat a + 4096 < 2 ^ 32" using live_bound [of h a] page by simp
      have fresh: "a \<in> live (heap_st ?s3)" "a \<notin> uvm_frames ?s3 vm" "a \<notin> user_pages (uvm_leaf ?s3 vm)"
        using page(7,8) used by (simp_all only: o3, auto)
      obtain res s4 where m: "PageTable_map E (uvm_pagetable vm) v a PAGESIZE (pte_perm (Pte_from ?w)) ?s3 = Inr (res, s4)"
        and g: "grows hwf live ?rc ?s3 s4" "owned hwf live s4 ?rc"
        and lf: "uvm_leaf s4 vm = (if res = Ok () then as_map v a 4096 (pte_perm (Pte_from ?w)) (uvm_leaf ?s3 vm)
          else uvm_leaf ?s3 vm)"
        and sv: "served E (Suc 0) (heap_st ?s3) (res = Ok ()) (heap_st s4)"
        using map_page_owned [OF o3(1) v(1) vb page(4) ab pte_perm_mask] fresh by blast
      have eq: "clone_loop E (uvm_pagetable uv) (uvm_pagetable vm) (v # vs) s =
          bind_ok (unwrap_result res) (\<lambda>_. clone_loop E (uvm_pagetable uv) (uvm_pagetable vm) vs s4)"
        using walk True page(1,3) m
        by (simp add: FrameAllocator_allocate_def PAGE_LAYOUT_def PAGESIZE_num pte_page_def)
      have sv2: "served E 2 (heap_st s) (res = Ok ()) (heap_st s4)"
        using served_trans [OF served_take(1) [OF page(2)], of "Suc 0"] sv by (simp add: numeral_2_eq_2)
      show ?thesis
      proof (cases res)
        case Err
        then show ?thesis using eq sv2 that(1) by (simp add: unwrap_result_def served_def)
      next
        case (Ok u)
        then have "forked hwf live s0 uv s4 vm (n + 4096)"
          using lf o3(2,3) page(8)
          by (intro forked_page [OF f same ok0 v w page(4,7) _ _ _ g]) simp_all
        then show ?thesis using eq Ok sv2 that(2) by (simp add: unwrap_result_def)
      qed
    qed
  qed
qed

text \<open>The copy loop from page \<open>i\<close> on.\<close>

lemma clone_loop_correct:
  assumes "forked hwf live s0 uv s vm (4096 * i)" "uvm_begin vm = uvm_begin uv" "uvm_size vm = uvm_size uv"
    and ok0: "uvm_ok hwf live s0 uv" and "i \<le> N" "unat (uvm_size uv) = 4096 * N"
    and l2: "\<And>va. in_range (uvm_begin uv) (unat (uvm_size uv)) va \<Longrightarrow>
      leaf_addr (mem s0) (pt_root (uvm_pagetable uv)) va \<noteq> None"
  shows "(\<exists>msg. clone_loop E (uvm_pagetable uv) (uvm_pagetable vm)
        (map (\<lambda>i. USER_START + of_nat i * PAGESIZE) [i..<N]) s = Inl (Panic msg) \<and>
        takes E (2 * (N - i)) (heap_st s) = None) \<or>
    (\<exists>s'. clone_loop E (uvm_pagetable uv) (uvm_pagetable vm)
        (map (\<lambda>i. USER_START + of_nat i * PAGESIZE) [i..<N]) s = Inr s' \<and>
      forked hwf live s0 uv s' vm (4096 * N) \<and> served E (2 * (N - i)) (heap_st s) True (heap_st s'))"
  using assms(1,5)
proof (induction "N - i" arbitrary: i s)
  case 0
  then show ?case by simp
next
  case (Suc k)
  let ?v = "USER_START + of_nat i * PAGESIZE"
  note dims = uvm_dimsD [OF uvm_okD(5) [OF ok0]]
  have iN: "i < N" using Suc.hyps(2) by simp
  have "unat USER_START + 4096 * N < 2 ^ 32" using dims(1,5) assms(6) by simp
  then have ub: "unat ?v = unat USER_START + 4096 * i"
    using iN by (simp add: unat_word_ariths unat_of_nat PAGESIZE_num USER_START_def)
  have v: "page_aligned ?v" "in_range (uvm_begin uv) (unat (uvm_size uv)) ?v"
    using iN dims(1,2) by (simp_all only: page_aligned_iff_dvd ub in_range_def assms(6)) auto
  have list: "[i..<N] = i # [Suc i..<N]" using iN by (simp add: upt_conv_Cons)
  show ?case
    using Suc.prems(1) assms(2,3) ok0 v(1) ub v(2) l2 [OF v(2)]
  proof (cases rule: clone_round [where vs = "map (\<lambda>i. USER_START + of_nat i * PAGESIZE) [Suc i..<N]"])
    case (oom msg)
    then show ?thesis using takes_None_mono [of E 2 "heap_st s" "2 * (N - i)"] iN unfolding list by auto
  next
    case (copied s')
    have n: "2 * (N - i) = 2 + 2 * (N - Suc i)" using iN by simp
    have m: "takes E (2 + 2 * (N - Suc i)) (heap_st s) = None" if "takes E (2 * (N - Suc i)) (heap_st s') = None"
      using served_trans [OF copied(3), of "2 * (N - Suc i)" False] that by (simp add: served_def)
    have "forked hwf live s0 uv s' vm (4096 * Suc i)" using copied(2) by (simp add: algebra_simps)
    from Suc.hyps(1) [OF _ this] have IH: "(\<exists>msg. clone_loop E (uvm_pagetable uv) (uvm_pagetable vm)
        (map (\<lambda>i. USER_START + of_nat i * PAGESIZE) [Suc i..<N]) s' = Inl (Panic msg) \<and>
        takes E (2 * (N - Suc i)) (heap_st s') = None) \<or>
      (\<exists>s''. clone_loop E (uvm_pagetable uv) (uvm_pagetable vm)
        (map (\<lambda>i. USER_START + of_nat i * PAGESIZE) [Suc i..<N]) s' = Inr s'' \<and>
        forked hwf live s0 uv s'' vm (4096 * N) \<and> served E (2 * (N - Suc i)) (heap_st s') True (heap_st s''))"
      using Suc.hyps(2) iN by simp
    show ?thesis
      unfolding list n list.map copied(1) using IH m served_trans [OF copied(3), of "2 * (N - Suc i)" True] by blast
  qed
qed

text \<open>
  \<open>clone\<close> panics for want of memory or returns a copy of the whole user range. It relies on
  the second-level tables of the range being present.
\<close>

lemma Uvm_clone_correct:
  assumes ok: "uvm_ok hwf live s uv"
    and l2: "\<And>va. in_range (uvm_begin uv) (unat (uvm_size uv)) va \<Longrightarrow>
      leaf_addr (mem s) (pt_root (uvm_pagetable uv)) va \<noteq> None"
  obtains (oom) msg where "Uvm_clone E uv s = Inl (Panic msg)"
      "takes E (1 + 2 * (unat (uvm_size uv) div 4096)) (heap_st s) = None"
  | (cloned) vm s' where "Uvm_clone E uv s = Inr (vm, s')" "uvm_begin vm = uvm_begin uv"
      "uvm_size vm = uvm_size uv" "forked hwf live s uv s' vm (unat (uvm_size uv))"
      "served E (1 + 2 * (unat (uvm_size uv) div 4096)) (heap_st s) True (heap_st s')"
proof -
  note okD = uvm_okD [OF ok]
  note dims = uvm_dimsD [OF okD(5)]
  show thesis
    using okD(3,4)
  proof (cases rule: Uvm_new_cases)
    case oom
    then show ?thesis
      using that(1) takes_None_mono [OF oom(2), of "1 + 2 * (unat (uvm_size uv) div 4096)"] by (simp add: Uvm_clone_def)
  next
    case (created vm0 s1)
    let ?vm = "vm0\<lparr>uvm_begin := uvm_begin uv, uvm_size := uvm_size uv\<rparr>"
    have fresh: "pt_root (uvm_pagetable vm0) \<notin> uvm_frames s uv"
      using created(7) uvm_pages_live(1) [OF ok] by blast
    then have fr: "same_page (mem s) (mem s1) q" if "q \<in> uvm_frames s uv" for q
      using that by (intro created(10)) blast
    have lv: "uvm_frames s uv \<union> user_pages (uvm_leaf s uv) \<subseteq> live (heap_st s1)"
      using created(8) uvm_pages_live(1,2) [OF ok] by blast
    note t = uvm_ok_transfer [OF ok created(9) uvm_okD(4) [OF created(2)] fr lv]
    have "uvm_ok hwf live s1 ?vm"
      using created(2,3) okD(5) by (simp add: uvm_ok_def uvm_leaf_ok_def uvm_dims_def)
    then have f: "forked hwf live s uv s1 ?vm 0"
      using t created(3,6-10) by (auto simp: forked_def child_pages_def in_range_def user_pages_def user_words_def)
    obtain N where N: "unat (uvm_size uv) = 4096 * N" using dims(3) by (auto simp: page_aligned_iff_dvd)
    have e: "Uvm_end uv = Inr (uvm_begin uv + uvm_size uv)" using dims(5) by (simp add: Uvm_end_def add_chk_def)
    have "unat (uvm_begin uv + uvm_size uv) = unat USER_START + 4096 * N"
      using dims(1,5) N by (simp add: unat_word_ariths)
    then have rng: "step_range USER_START (uvm_begin uv + uvm_size uv) PAGESIZE =
        map (\<lambda>i. USER_START + of_nat i * PAGESIZE) [0..<N]"
      by (simp add: step_range_def PAGESIZE_num)
    have eq: "Uvm_clone E uv s = bind_ok (clone_loop E (uvm_pagetable uv) (uvm_pagetable ?vm)
        (map (\<lambda>i. USER_START + of_nat i * PAGESIZE) [0..<N]) s1) (\<lambda>s2. Inr (?vm, s2))"
      using created(1) e by (simp add: Uvm_clone_def unwrap_result_def rng)
    have m: "takes E (1 + 2 * N) (heap_st s) = None" if "takes E (2 * N) (heap_st s1) = None"
      using served_trans [OF created(11), of "2 * N" False] that by (simp add: served_def)
    show ?thesis
      using clone_loop_correct [of s uv s1 ?vm 0 N] f ok N l2 eq that m served_trans [OF created(11), of "2 * N" True]
      by auto
  qed
qed

end

end
