(* ===== verification/UserView.thy ===== *)
theory UserView
  imports UvmFork
begin

text \<open>
  The memory a user process sees: \<open>user_view s uv va\<close> is the byte at the virtual address
  \<open>va\<close>, if it is mapped. \<open>load\<close> fills it with the program image, and the copy functions
  read and write it, as long as the copied range stays in one page.
\<close>

section \<open>The view\<close>

definition user_view :: "('h, 'z) machine_scheme \<Rightarrow> Uvm \<Rightarrow> usize \<Rightarrow> u8 option" where
  "user_view s uv va = map_option (\<lambda>w. mem s (pte_page w + va mod 4096)) (uvm_leaf s uv va)"

lemma user_view_Some:
  "uvm_leaf s uv va = Some w \<Longrightarrow> user_view s uv va = Some (mem s (pte_page w + va mod 4096))"
  by (simp add: user_view_def)

lemma offset_bound: "unat (va mod 4096 :: usize) < 4096"
  by (simp add: unat_mod_distrib)

lemma page_split: "va = page_of va + (va mod 4096 :: usize)"
  using unat_u32_bound [of va]
  by (simp add: word_unat_eq_iff unat_page_of unat_mod_distrib unat_word_ariths)

lemma page_plus_mod:
  assumes "page_aligned v" "unat i < 4096"
  shows "(v + i) mod 4096 = i"
proof -
  obtain k where "unat v = 4096 * k" using assms(1) by (auto simp: page_aligned_iff_dvd)
  then show ?thesis
    using assms unat_page_plus [OF assms] by (simp add: word_unat_eq_iff unat_mod_distrib)
qed

text \<open>What the hardware loads in user mode is what the view shows.\<close>

lemma user_view_hardware:
  assumes "uvm_ok hwf live s uv" "sv32_translate (mem s) (pt_root (uvm_pagetable uv)) acc UMode va = Some pa"
  shows "user_view s uv va = Some (mem s pa)"
    "in_range (uvm_begin uv) (unat (uvm_size uv)) va" "page_of pa \<in> user_pages (uvm_leaf s uv)"
proof -
  have wf: "pt_wf (mem s) (pt_root (uvm_pagetable uv))" using uvm_okD(2) [OF assms(1)] by (rule table_okD)
  obtain w where w: "uvm_leaf s uv va = Some w" "sv32_permits acc UMode w" "pa = pte_page w + va mod 4096"
    using assms(2) unfolding sv32_translate_leaf [OF wf] by (auto split: option.splits if_splits)
  have "bit w 4" using w(2) by (simp add: sv32_permits_def)
  moreover have "has_perm w \<and> (bit w 4 \<longrightarrow> in_range (uvm_begin uv) (unat (uvm_size uv)) va)"
    using uvm_okD(6) [OF assms(1)] w(1) unfolding uvm_leaf_ok_def by metis
  ultimately have u: "user_leaf w" "in_range (uvm_begin uv) (unat (uvm_size uv)) va"
    by (auto simp: user_leaf_iff)
  show "user_view s uv va = Some (mem s pa)" using user_view_Some [OF w(1)] w(3) by simp
  show "in_range (uvm_begin uv) (unat (uvm_size uv)) va" by (rule u(2))
  have "page_of pa = pte_page w" using w(3) page_of_plus [OF page_aligned_pte_page offset_bound] by simp
  then show "page_of pa \<in> user_pages (uvm_leaf s uv)"
    using u(1) w(1) by (auto simp: user_pages_def user_words_def)
qed

text \<open>The view of a clone.\<close>

lemma forked_view:
  assumes "forked hwf live s uv s' vm (unat (uvm_size uv))" "in_range USER_START (unat (uvm_size uv)) va"
  shows "user_view s' vm va = user_view s uv va"
  using forkedD(9) [OF assms] copied_word_user(3) offset_bound [of va]
  unfolding copy_of_def user_view_def same_contents_def
  by (auto split: option.splits)

section \<open>Writing user pages\<close>

text \<open>Changes confined to user pages keep the address space.\<close>

lemma uvm_ok_user_write:
  assumes "uvm_ok hwf live s uv" "\<And>q. q \<notin> user_pages (uvm_leaf s uv) \<Longrightarrow> same_page (mem s) m q"
  shows "uvm_ok hwf live (s\<lparr>mem := m\<rparr>) uv" "leaf m (pt_root (uvm_pagetable uv)) = uvm_leaf s uv"
    "pt_frames m (pt_root (uvm_pagetable uv)) = uvm_frames s uv"
proof -
  have fr: "same_page (mem s) (mem (s\<lparr>mem := m\<rparr>)) q" if "q \<in> uvm_frames s uv" for q
    using that assms(2) uvm_pages_live(3) [OF assms(1)] by auto
  have rest: "same_rest s (s\<lparr>mem := m\<rparr>)" "hwf (heap_st (s\<lparr>mem := m\<rparr>))"
    "uvm_frames s uv \<union> user_pages (uvm_leaf s uv) \<subseteq> live (heap_st (s\<lparr>mem := m\<rparr>))"
    using uvm_okD(4) [OF assms(1)] uvm_pages_live(1,2) [OF assms(1)] by auto
  note t = uvm_ok_transfer [OF assms(1) rest(1,2) fr rest(3)]
  show "uvm_ok hwf live (s\<lparr>mem := m\<rparr>) uv" "leaf m (pt_root (uvm_pagetable uv)) = uvm_leaf s uv"
    "pt_frames m (pt_root (uvm_pagetable uv)) = uvm_frames s uv"
    using t by simp_all
qed

section \<open>Loading a program\<close>

lemma load_page_eq:
  assumes "page_aligned p" "\<forall>i. unat i < 4096 \<longrightarrow> page_of (src + i) \<noteq> p"
  shows "copy_nonoverlapping (write_bytes m p 0 4096) src p 4096 = copy_nonoverlapping m src p 4096"
proof
  fix x
  show "copy_nonoverlapping (write_bytes m p 0 4096) src p 4096 x = copy_nonoverlapping m src p 4096 x"
    using assms page_offset_iff [OF assms(1), of x]
    by (auto simp: copy_page_apply write_page_apply)
qed

text \<open>The pages behind \<open>n\<close> pages of the address space from \<open>va\<close> on.\<close>

definition range_pages :: "addr_space \<Rightarrow> usize \<Rightarrow> nat \<Rightarrow> usize set" where
  "range_pages f va n = {pte_page w | w vb. f vb = Some w \<and> in_range va (4096 * n) vb}"

lemma range_pages_Suc:
  assumes "page_aligned va" "unat va + 4096 < 2 ^ 32"
  shows "range_pages f va (Suc n) = range_pages f va 1 \<union> range_pages f (va + 4096) n"
proof -
  have "in_range va (4096 * Suc n) vb \<longleftrightarrow> in_range va (4096 * 1) vb \<or> in_range (va + 4096) (4096 * n) vb" for vb
    using in_range_Suc [OF assms, of "4096 * n" vb] by simp
  then show ?thesis unfolding range_pages_def by blast
qed

lemma range_pages_one:
  assumes "page_aligned va" "leaf m r va = Some w"
  shows "range_pages (leaf m r) va 1 = {pte_page w}"
proof -
  have "leaf m r vb = Some w" if "in_range va 4096 vb" for vb
    using that leaf_page_cong [of vb va m r] page_range [OF assms(1)] assms by simp
  moreover have "in_range va 4096 va" by (simp add: in_range_def)
  ultimately show ?thesis using assms(2) unfolding range_pages_def by force
qed

text \<open>A user page of the range is not behind another page of it.\<close>

lemma range_pages_disjoint:
  assumes "uvm_ok hwf live s uv" "page_aligned va" "unat va + 4096 < 2 ^ 32"
    and "in_range (uvm_begin uv) (unat (uvm_size uv)) va" "uvm_leaf s uv va = Some w"
    and "unat va + 4096 * Suc n \<le> unat (uvm_begin uv) + unat (uvm_size uv)"
  shows "pte_page w \<notin> range_pages (uvm_leaf s uv) (va + 4096) n"
proof
  assume "pte_page w \<in> range_pages (uvm_leaf s uv) (va + 4096) n"
  then obtain x vb where x: "pte_page w = pte_page x" "uvm_leaf s uv vb = Some x" "in_range (va + 4096) (4096 * n) vb"
    by (auto simp: range_pages_def)
  note a = page_aligned_add [OF assms(2,3)]
  have "in_range (uvm_begin uv) (unat (uvm_size uv)) vb"
    using x(3) assms(4,6) by (simp add: in_range_def a(2))
  then have "user_leaf x" using parent_leaf_user(3) [OF assms(1) _ x(2)] by blast
  moreover have "user_leaf w" using parent_leaf_user(3) [OF assms(1,4,5)] .
  moreover have "user_inj (uvm_leaf s uv)" using uvm_okD(1) [OF assms(1)] by (simp add: owned_def)
  ultimately have "page_of vb = va"
    using x(1,2) assms(2,5) unfolding user_inj_def by (metis page_of_aligned)
  then have "in_range va 4096 vb" using page_range [OF assms(2)] by blast
  then show False using x(3) by (simp add: in_range_def a(2))
qed

lemma range_pages_user:
  assumes "uvm_ok hwf live s uv" "unat (uvm_begin uv) \<le> unat va"
    "unat va + 4096 * n \<le> unat (uvm_begin uv) + unat (uvm_size uv)"
  shows "range_pages (uvm_leaf s uv) va n \<subseteq> user_pages (uvm_leaf s uv)"
proof
  fix q assume "q \<in> range_pages (uvm_leaf s uv) va n"
  then obtain w vb where w: "q = pte_page w" "uvm_leaf s uv vb = Some w" "in_range va (4096 * n) vb"
    by (auto simp: range_pages_def)
  have "in_range (uvm_begin uv) (unat (uvm_size uv)) vb" using w(3) assms(2,3) by (simp add: in_range_def)
  then show "q \<in> user_pages (uvm_leaf s uv)" using parent_leaf_user(4) [OF assms(1) _ w(2)] w(1) by simp
qed

lemma chunk_list_Suc:
  "map (\<lambda>j. src + of_nat j * PAGESIZE) [0..<Suc n] = src # map (\<lambda>j. src + 4096 + of_nat j * PAGESIZE) [0..<n]"
  by (simp only: upt_rec [of 0 "Suc n"] map_Suc_upt [symmetric] map_map)
    (simp add: PAGESIZE_num algebra_simps comp_def)

lemma load_page_step:
  assumes "uvm_ok hwf live s uv" "page_aligned va" "unat va + 4096 < 2 ^ 32" "uvm_leaf s uv va = Some w"
    and "pte_page w \<in> user_pages (uvm_leaf s uv)"
    and "\<forall>i. unat i < 4096 \<longrightarrow> page_of (src + i) \<noteq> pte_page w"
  defines "s' \<equiv> s\<lparr>mem := copy_nonoverlapping (mem s) src (pte_page w) 4096\<rparr>"
  shows "load_loop E (uvm_pagetable uv) va (src # cs) s = load_loop E (uvm_pagetable uv) (va + 4096) cs s'"
    "uvm_ok hwf live s' uv" "uvm_leaf s' uv = uvm_leaf s uv"
    "q \<noteq> pte_page w \<Longrightarrow> same_page (mem s) (mem s') q"
proof -
  have wf: "pt_wf (mem s) (pt_root (uvm_pagetable uv))" using uvm_okD(2) [OF assms(1)] by (rule table_okD)
  obtain p where p: "leaf_addr (mem s) (pt_root (uvm_pagetable uv)) va = Some p" "load32 (mem s) p = w"
    using assms(4) by (auto simp: leaf_def split: option.splits if_splits)
  show "load_loop E (uvm_pagetable uv) va (src # cs) s = load_loop E (uvm_pagetable uv) (va + 4096) cs s'"
    using walk_Walk [OF wf, of E va] p assms(3) load_page_eq [OF page_aligned_pte_page assms(6)]
    by (simp add: s'_def PAGESIZE_num add_chk_def pte_page_def)
  have q: "same_page (mem s) (mem s') q" if "q \<noteq> pte_page w" for q
    using same_page_copy_page [OF page_aligned_pte_page] that by (simp add: s'_def)
  then show "q \<noteq> pte_page w \<Longrightarrow> same_page (mem s) (mem s') q" .
  have "same_page (mem s) (mem s') q" if "q \<notin> user_pages (uvm_leaf s uv)" for q
    using that assms(5) by (intro q) blast
  from uvm_ok_user_write [OF assms(1) this]
  show "uvm_ok hwf live s' uv" "uvm_leaf s' uv = uvm_leaf s uv" by (simp_all add: s'_def)
qed

text \<open>
  Loading \<open>n\<close> pages from \<open>src\<close>, a region outside the user pages, makes them visible from
  \<open>va\<close> on and changes no other page.
\<close>

lemma load_loop_correct:
  assumes "uvm_ok hwf live s uv" "page_aligned va" "unat (uvm_begin uv) \<le> unat va"
    and "unat va + 4096 * n \<le> unat (uvm_begin uv) + unat (uvm_size uv)"
    and "\<And>vb. in_range va (4096 * n) vb \<Longrightarrow> uvm_leaf s uv vb \<noteq> None"
    and "\<And>i. i < 4096 * n \<Longrightarrow> page_of (src + of_nat i) \<notin> user_pages (uvm_leaf s uv)"
  shows "\<exists>m. load_loop E (uvm_pagetable uv) va (map (\<lambda>j. src + of_nat j * PAGESIZE) [0..<n]) s =
      Inr (Ok (), s\<lparr>mem := m\<rparr>) \<and>
    (\<forall>q. q \<notin> range_pages (uvm_leaf s uv) va n \<longrightarrow> same_page (mem s) m q) \<and>
    (\<forall>i<4096 * n. user_view (s\<lparr>mem := m\<rparr>) uv (va + of_nat i) = Some (mem s (src + of_nat i)))"
  using assms
proof (induction n arbitrary: va src s)
  case 0
  then show ?case by (intro exI [of _ "mem s"]) simp
next
  case (Suc n)
  note dims = uvm_dimsD [OF uvm_okD(5) [OF Suc.prems(1)]]
  have vb: "unat va + 4096 < 2 ^ 32" using Suc.prems(4) dims(4) by (simp add: TRAPFRAME_num)
  note a = page_aligned_add [OF Suc.prems(2) vb]
  have rng: "in_range (uvm_begin uv) (unat (uvm_size uv)) va" using Suc.prems(3,4) by (simp add: in_range_def)
  obtain w where w: "uvm_leaf s uv va = Some w" using Suc.prems(5) [of va] by (auto simp: in_range_def)
  note up = parent_leaf_user(4) [OF Suc.prems(1) rng w]
  have src: "\<forall>i. unat i < 4096 \<longrightarrow> page_of (src + i) \<noteq> pte_page w"
  proof (intro allI impI)
    fix i :: usize assume "unat i < 4096"
    then show "page_of (src + i) \<noteq> pte_page w" using Suc.prems(6) [of "unat i"] up by auto
  qed
  define s1 where "s1 = s\<lparr>mem := copy_nonoverlapping (mem s) src (pte_page w) 4096\<rparr>"
  note st = load_page_step [OF Suc.prems(1,2) vb w up src, folded s1_def]
  have inr: "in_range (va + 4096) (4096 * n) vb \<Longrightarrow> in_range va (4096 * Suc n) vb" for vb
    by (simp add: in_range_def a(2))
  obtain m where m: "load_loop E (uvm_pagetable uv) (va + 4096)
        (map (\<lambda>j. src + 4096 + of_nat j * PAGESIZE) [0..<n]) s1 = Inr (Ok (), s1\<lparr>mem := m\<rparr>)"
    and fr: "\<And>q. q \<notin> range_pages (uvm_leaf s uv) (va + 4096) n \<Longrightarrow> same_page (mem s1) m q"
    and c: "\<And>i. i < 4096 * n \<Longrightarrow>
      user_view (s1\<lparr>mem := m\<rparr>) uv (va + 4096 + of_nat i) = Some (mem s1 (src + 4096 + of_nat i))"
  proof -
    have "page_of (src + 4096 + of_nat i) \<notin> user_pages (uvm_leaf s1 uv)" if "i < 4096 * n" for i
      using Suc.prems(6) [of "4096 + i"] that by (simp add: st(3) add.assoc)
    then show thesis
      using Suc.IH [OF st(2) a(1), of "src + 4096"] Suc.prems(3-5) inr that by (auto simp: a(2) st(3))
  qed
  have all: "load_loop E (uvm_pagetable uv) va (map (\<lambda>j. src + of_nat j * PAGESIZE) [0..<Suc n]) s =
      Inr (Ok (), s\<lparr>mem := m\<rparr>)"
    unfolding chunk_list_Suc by (rule trans [OF st(1)]) (simp only: m, simp add: s1_def)
  note pages = range_pages_Suc [OF Suc.prems(2) vb, of "uvm_leaf s uv" n]
    range_pages_one [OF Suc.prems(2) w]
  have out: "same_page (mem s) m q" if "q \<notin> range_pages (uvm_leaf s uv) va (Suc n)" for q
    using that same_page_trans [OF st(4) fr, of q] unfolding pages by simp
  have keep: "leaf m (pt_root (uvm_pagetable uv)) = uvm_leaf s uv"
    using uvm_ok_user_write(2) [OF Suc.prems(1)] out range_pages_user [OF Suc.prems(1,3,4)] by blast
  have view: "user_view (s\<lparr>mem := m\<rparr>) uv (va + of_nat i) = Some (mem s (src + of_nat i))"
    if i: "i < 4096 * Suc n" for i
  proof (cases "i < 4096")
    case True
    then have ui: "unat (of_nat i :: usize) < 4096" "unat (of_nat i :: usize) = i"
      by (simp_all add: unat_of_nat)
    have "page_of (va + of_nat i) = page_of va" using page_of_plus [OF Suc.prems(2) ui(1)] Suc.prems(2) by simp
    then have "leaf m (pt_root (uvm_pagetable uv)) (va + of_nat i) = Some w"
      using leaf_page_cong [of "va + of_nat i" va] w keep by simp
    then have "user_view (s\<lparr>mem := m\<rparr>) uv (va + of_nat i) = Some (m (pte_page w + of_nat i))"
      using page_plus_mod [OF Suc.prems(2) ui(1)] by (simp add: user_view_def)
    moreover have "m (pte_page w + of_nat i) = mem s1 (pte_page w + of_nat i)"
      using fr [OF range_pages_disjoint [OF Suc.prems(1,2) vb rng w Suc.prems(4)]]
        page_of_plus [OF page_aligned_pte_page ui(1)] by (simp add: same_page_def)
    ultimately show ?thesis
      using page_of_plus [OF page_aligned_pte_page ui(1), of w]
      by (simp add: s1_def copy_page_apply)
  next
    case False
    then obtain j where j: "i = 4096 + j" "j < 4096 * n" using i by (metis add_less_cancel_left le_Suc_ex mult_Suc_right not_less)
    have "page_of (src + 4096 + of_nat j) \<noteq> pte_page w"
      using Suc.prems(6) [OF i] up j(1) by (auto simp: add.assoc)
    then have "mem s1 (src + 4096 + of_nat j) = mem s (src + 4096 + of_nat j)"
      using st(4) by (simp add: same_page_def)
    then show ?thesis using c [OF j(2)] by (simp add: j(1) s1_def add.assoc)
  qed
  show ?case using all out view by blast
qed

text \<open>
  \<open>load\<close> of an image of \<open>len\<close> bytes: every byte of the image is visible in user memory.
  The loop copies whole pages, so the bytes behind the end of the image are copied too, up to the
  next page boundary; they have to lie outside the user pages as well.
\<close>

lemma Uvm_load_correct:
  assumes "uvm_ok hwf live s uv" "page_aligned va" "unat (uvm_begin uv) \<le> unat va"
    and "n = (unat len + 4095) div 4096" "unat va + 4096 * n \<le> unat (uvm_begin uv) + unat (uvm_size uv)"
    and "\<And>vb. in_range va (4096 * n) vb \<Longrightarrow> uvm_leaf s uv vb \<noteq> None"
    and "\<And>i. i < 4096 * n \<Longrightarrow> page_of (img + of_nat i) \<notin> user_pages (uvm_leaf s uv)"
  obtains m where "Uvm_load E uv va (img, len) s = Inr (Ok (), s\<lparr>mem := m\<rparr>)"
    "uvm_ok hwf live (s\<lparr>mem := m\<rparr>) uv" "leaf m (pt_root (uvm_pagetable uv)) = uvm_leaf s uv"
    "\<And>q. q \<notin> user_pages (uvm_leaf s uv) \<Longrightarrow> same_page (mem s) m q"
    "\<And>i. i < unat len \<Longrightarrow> user_view (s\<lparr>mem := m\<rparr>) uv (va + of_nat i) = Some (mem s (img + of_nat i))"
proof -
  obtain m where m: "load_loop E (uvm_pagetable uv) va (map (\<lambda>j. img + of_nat j * PAGESIZE) [0..<n]) s =
      Inr (Ok (), s\<lparr>mem := m\<rparr>)"
    and fr: "\<And>q. q \<notin> range_pages (uvm_leaf s uv) va n \<Longrightarrow> same_page (mem s) m q"
    and c: "\<And>i. i < 4096 * n \<Longrightarrow> user_view (s\<lparr>mem := m\<rparr>) uv (va + of_nat i) = Some (mem s (img + of_nat i))"
    using load_loop_correct [OF assms(1-3,5,6,7)] by blast
  have out: "same_page (mem s) m q" if "q \<notin> user_pages (uvm_leaf s uv)" for q
    using fr that range_pages_user [OF assms(1,3,5)] by blast
  have "Uvm_load E uv va (img, len) s = Inr (Ok (), s\<lparr>mem := m\<rparr>)"
    using m assms(2,4) by (simp add: Uvm_load_def PAGESIZE_num is_multiple_of_page chunk_addrs_def)
  moreover have "i < 4096 * n" if "i < unat len" for i using that assms(4) by simp
  ultimately show thesis
    using that uvm_ok_user_write [OF assms(1) out] out c by blast
qed

section \<open>Copying in and out\<close>

text \<open>
  Every copy translates its first address and then works on physically consecutive bytes.
\<close>

lemma copy_in_cont_eq:
  assumes "pt_wf (mem s) (pt_root (uvm_pagetable uv))"
  shows "copy_in_cont E T uv addr len s = Inr (case uvm_leaf s uv addr of
      Some w \<Rightarrow> if has_perm w then Ok (map (\<lambda>i. rep_read T (mem s)
          (pte_page w + addr mod 4096 + of_nat i * rep_size T)) [0..<unat len]) else Err
    | None \<Rightarrow> Err, s)"
  unfolding copy_in_cont_def walkaddr_leaf [OF assms] by (simp split: option.splits)

lemma copy_out_cont_eq:
  assumes "pt_wf (mem s) (pt_root (uvm_pagetable uv))"
  shows "copy_out_cont E T uv addr data s = Inr (case uvm_leaf s uv addr of
      Some w \<Rightarrow> if has_perm w then (Ok (), s\<lparr>mem := write_list T (pte_page w + addr mod 4096) data (mem s)\<rparr>)
        else (Err, s)
    | None \<Rightarrow> (Err, s))"
  unfolding copy_out_cont_def walkaddr_leaf [OF assms] by (simp split: option.splits)

lemma write_list_u8_apply:
  assumes "unat a + length xs \<le> 2 ^ 32"
  shows "write_list repr_u8 a xs m x = (if unat a \<le> unat x \<and> unat x < unat a + length xs
    then xs ! (unat x - unat a) else m x)"
  using assms
proof (induction xs arbitrary: a m)
  case Nil
  then show ?case by auto
next
  case (Cons y ys)
  show ?case
  proof (cases "unat a + 1 < 2 ^ 32")
    case True
    then have a: "unat (a + 1) = unat a + 1" by (simp add: unat_word_ariths)
    have "write_list repr_u8 a (y # ys) m x = (if unat a + 1 \<le> unat x \<and> unat x < unat a + 1 + length ys
        then ys ! (unat x - (unat a + 1)) else (m(a := y)) x)"
    proof -
      have step: "write_list repr_u8 a (y # ys) m = write_list repr_u8 (a + 1) ys (m(a := y))"
        by (simp add: repr_u8_def)
      have "unat (a + 1) + length ys \<le> 2 ^ 32" using Cons.prems by (simp add: a)
      from Cons.IH [OF this] show ?thesis by (simp only: step a)
    qed
    moreover have "x = a \<longleftrightarrow> unat x = unat a" by (simp add: word_unat_eq_iff)
    ultimately show ?thesis by (auto simp: nth_Cons' Suc_le_eq)
  next
    case False
    then have "ys = []" using Cons.prems by (cases ys) auto
    moreover have "x = a \<longleftrightarrow> unat a \<le> unat x"
      using False unat_u32_bound [of x] by (auto simp: word_unat_eq_iff)
    ultimately show ?thesis using False unat_u32_bound [of x] by (auto simp: repr_u8_def)
  qed
qed

lemma read_map_u8: "rep_read repr_u8 m a = m a" "rep_size repr_u8 = 1"
  by (simp_all add: repr_u8_def)

text \<open>
  Within one user page: what is copied out is seen by the user at those addresses and copied back
  in, and no other user address is affected.
\<close>

lemma copy_out_bytes:
  assumes ok: "uvm_ok hwf live s uv" and rng: "in_range (uvm_begin uv) (unat (uvm_size uv)) addr"
    and w: "uvm_leaf s uv addr = Some w" and len: "unat (addr mod 4096) + length data \<le> 4096"
  defines "s' \<equiv> s\<lparr>mem := write_list repr_u8 (pte_page w + addr mod 4096) data (mem s)\<rparr>"
  shows "copy_out_cont E repr_u8 uv addr data s = Inr (Ok (), s')" "uvm_ok hwf live s' uv"
    "uvm_leaf s' uv = uvm_leaf s uv"
    "q \<noteq> pte_page w \<Longrightarrow> same_page (mem s) (mem s') q"
    "unat i < 4096 \<Longrightarrow> mem s' (pte_page w + i) =
      (if unat (addr mod 4096) \<le> unat i \<and> unat i < unat (addr mod 4096) + length data
       then data ! (unat i - unat (addr mod 4096)) else mem s (pte_page w + i))"
proof -
  have wf: "pt_wf (mem s) (pt_root (uvm_pagetable uv))" using uvm_okD(2) [OF ok] by (rule table_okD)
  note pw = parent_leaf_user [OF ok rng w]
  show "copy_out_cont E repr_u8 uv addr data s = Inr (Ok (), s')"
    using w pw(1) by (simp add: copy_out_cont_eq [OF wf] s'_def)
  note base = unat_page_plus [OF page_aligned_pte_page offset_bound, of w addr]
  have fit: "unat (pte_page w + addr mod 4096) + length data \<le> unat (pte_page w) + 4096"
    using base len by simp
  then have fit32: "unat (pte_page w + addr mod 4096) + length data \<le> 2 ^ 32"
    using page_aligned_bound [OF page_aligned_pte_page, of w] by simp
  note wr = write_list_u8_apply [OF fit32]
  have q: "same_page (mem s) (mem s') q" if "q \<noteq> pte_page w" for q
  proof -
    have "\<not> (unat (pte_page w + addr mod 4096) \<le> unat x \<and>
        unat x < unat (pte_page w + addr mod 4096) + length data)" if "page_of x = q" for x
    proof
      assume "unat (pte_page w + addr mod 4096) \<le> unat x \<and>
        unat x < unat (pte_page w + addr mod 4096) + length data"
      then have "in_range (pte_page w) 4096 x" using fit base by (simp add: in_range_def)
      then show False using page_range [OF page_aligned_pte_page] that \<open>q \<noteq> pte_page w\<close> by simp
    qed
    then show ?thesis by (auto simp: same_page_def s'_def wr)
  qed
  then show "q \<noteq> pte_page w \<Longrightarrow> same_page (mem s) (mem s') q" .
  have "same_page (mem s) (mem s') q" if "q \<notin> user_pages (uvm_leaf s uv)" for q
    using that pw(4) by (intro q) blast
  from uvm_ok_user_write [OF ok this]
  show "uvm_ok hwf live s' uv" "uvm_leaf s' uv = uvm_leaf s uv" by (simp_all add: s'_def)
  show "unat i < 4096 \<Longrightarrow> mem s' (pte_page w + i) =
      (if unat (addr mod 4096) \<le> unat i \<and> unat i < unat (addr mod 4096) + length data
       then data ! (unat i - unat (addr mod 4096)) else mem s (pte_page w + i))"
    using unat_page_plus [OF page_aligned_pte_page, of i w] base by (simp add: s'_def wr)
qed

lemma copy_out_view:
  assumes ok: "uvm_ok hwf live s uv" and rng: "in_range (uvm_begin uv) (unat (uvm_size uv)) addr"
    and w: "uvm_leaf s uv addr = Some w" and len: "unat (addr mod 4096) + length data \<le> 4096"
  defines "s' \<equiv> s\<lparr>mem := write_list repr_u8 (pte_page w + addr mod 4096) data (mem s)\<rparr>"
  assumes "in_range (uvm_begin uv) (unat (uvm_size uv)) va"
  shows "user_view s' uv va = (if unat addr \<le> unat va \<and> unat va < unat addr + length data
    then Some (data ! (unat va - unat addr)) else user_view s uv va)"
proof -
  note c = copy_out_bytes [OF ok rng w len, folded s'_def]
  have ua: "unat addr = unat (page_of addr) + unat (addr mod 4096)"
    using unat_page_plus [OF page_aligned_page_of offset_bound, of addr addr] page_split [of addr] by simp
  have uv: "unat va = unat (page_of va) + unat (va mod 4096)"
    using unat_page_plus [OF page_aligned_page_of offset_bound, of va va] page_split [of va] by simp
  show ?thesis
  proof (cases "page_of va = page_of addr")
    case True
    then have "uvm_leaf s' uv va = Some w" "uvm_leaf s uv va = Some w"
      using leaf_page_cong [OF True] w c(3) by simp_all
    then show ?thesis
      using c(5) [OF offset_bound, of va] True ua uv by (simp add: user_view_def)
  next
    case False
    have out: "\<not> (unat addr \<le> unat va \<and> unat va < unat addr + length data)"
    proof
      assume "unat addr \<le> unat va \<and> unat va < unat addr + length data"
      then have "in_range (page_of addr) 4096 va" using ua len by (simp add: in_range_def)
      then show False using page_range [OF page_aligned_page_of] False by simp
    qed
    have "mem s' (pte_page x + va mod 4096) = mem s (pte_page x + va mod 4096)" if x: "uvm_leaf s uv va = Some x" for x
    proof -
      have "user_inj (uvm_leaf s uv)" using uvm_okD(1) [OF ok] by (simp add: owned_def)
      then have "pte_page x \<noteq> pte_page w"
        using x w False parent_leaf_user(3) [OF ok rng w] parent_leaf_user(3) [OF ok assms(6) x]
        unfolding user_inj_def by blast
      then show ?thesis
        using c(4) page_of_plus [OF page_aligned_pte_page offset_bound] by (simp add: same_page_def)
    qed
    then show ?thesis using out c(3) by (cases "uvm_leaf s uv va") (auto simp: user_view_def)
  qed
qed

lemma copy_in_bytes:
  assumes ok: "uvm_ok hwf live s uv" and rng: "in_range (uvm_begin uv) (unat (uvm_size uv)) addr"
    and w: "uvm_leaf s uv addr = Some w" and len: "unat (addr mod 4096) + unat n \<le> 4096"
  shows "copy_in_cont E repr_u8 uv addr n s = Inr (Ok (map (\<lambda>i. the (user_view s uv (addr + of_nat i))) [0..<unat n]), s)"
proof -
  have wf: "pt_wf (mem s) (pt_root (uvm_pagetable uv))" using uvm_okD(2) [OF ok] by (rule table_okD)
  have "user_view s uv (addr + of_nat i) = Some (mem s (pte_page w + addr mod 4096 + of_nat i))" if "i < unat n" for i
  proof -
    let ?o = "addr mod 4096 + of_nat i"
    have i: "unat (of_nat i :: usize) = i" using that unat_u32_bound [of n] by (simp add: unat_of_nat)
    have o: "unat ?o < 4096" using len that i by (simp add: unat_word_ariths)
    have e: "addr + of_nat i = page_of addr + ?o" using page_split [of addr] by (simp add: add.assoc [symmetric])
    have "page_of (addr + of_nat i) = page_of addr" unfolding e by (rule page_of_plus [OF page_aligned_page_of o])
    then have "uvm_leaf s uv (addr + of_nat i) = Some w" using leaf_page_cong w by metis
    moreover have "(addr + of_nat i) mod 4096 = ?o" unfolding e by (rule page_plus_mod [OF page_aligned_page_of o])
    ultimately show ?thesis by (simp add: user_view_def add.assoc)
  qed
  then show ?thesis
    using w parent_leaf_user(1) [OF ok rng w] by (simp add: copy_in_cont_eq [OF wf] read_map_u8)
qed

end
