(* ===== verification/UvmProps.thy ===== *)
theory UvmProps
  imports UserView
begin

text \<open>
  The properties of user address spaces: growing, dropping, cloning, loading and
  copying. The witnesses use an address space with one user page on the free-list page heap.
\<close>

section \<open>A concrete address space\<close>

definition demo_uvm :: Uvm where
  "demo_uvm = \<lparr>uvm_begin = 0x10000, uvm_size = 0x1000, uvm_pagetable = \<lparr>pt_root = 0x80300000\<rparr>\<rparr>"

definition demo_machine :: "usize list machine" where
  "demo_machine = (fl_machine [0x80304000, 0x80305000, 0x80306000])\<lparr>mem := demo_mem\<rparr>"

lemma demo_simps [simp]:
  "mem demo_machine = demo_mem" "heap_st demo_machine = [0x80304000, 0x80305000, 0x80306000]"
  "uvm_begin demo_uvm = 0x10000" "uvm_size demo_uvm = 0x1000"
  "pt_root (uvm_pagetable demo_uvm) = 0x80300000"
  by (simp_all add: demo_machine_def demo_uvm_def)

lemma demo_word:
  "pte_page (leaf_word 0x80400000 0b10110) = 0x80400000" "has_perm (leaf_word 0x80400000 0b10110)"
  "bit (leaf_word 0x80400000 0b10110) 4" "user_leaf (leaf_word 0x80400000 0b10110)"
proof -
  have al: "page_aligned 0x80400000" by (simp add: page_aligned_iff_dvd)
  show "pte_page (leaf_word 0x80400000 0b10110) = 0x80400000"
    by (rule leaf_word_page [OF al user_rw_bits(5)])
  show p: "has_perm (leaf_word 0x80400000 0b10110)" and u: "bit (leaf_word 0x80400000 0b10110) 4"
    using user_rw_bits by (simp_all add: has_perm_def leaf_word_bits [OF al])
  then show "user_leaf (leaf_word 0x80400000 0b10110)" by (simp add: user_leaf_iff)
qed

lemma demo_pages: "user_pages (leaf demo_mem 0x80300000) = {0x80400000}"
proof -
  have "page_of 0x10000 = 0x10000" by (simp add: page_aligned_iff_dvd)
  then have "user_words (leaf demo_mem 0x80300000) (\<lambda>_. True) = {leaf_word 0x80400000 0b10110}"
    using demo_word(4) by (auto simp: user_words_def demo_table(3) split: if_splits intro!: exI [of _ "0x10000"])
  then show ?thesis by (simp add: user_pages_def demo_word)
qed

lemma demo_uvm_ok: "uvm_ok fl_wf fl_live demo_machine demo_uvm"
proof -
  have ready: "heap_ready demo_machine" by (simp add: demo_machine_def)
  have wf: "fl_wf [0x80304000, 0x80305000, 0x80306000]"
    by (simp add: fl_wf_def fl_managed_def page_aligned_iff_dvd RAMEND_num)
  have man: "fl_managed 0x80300000" "fl_managed 0x80303000" "fl_managed 0x80400000"
    by (simp_all add: fl_managed_def page_aligned_iff_dvd RAMEND_num)
  have al: "page_aligned 0x10000" "unat (0x1000 :: usize) = 4096" by (simp_all add: page_aligned_iff_dvd)
  have "user_inj (leaf demo_mem 0x80300000)"
    by (auto simp: user_inj_def demo_table(3) split: if_splits)
  then have "owned fl_wf fl_live demo_machine 0x80300000"
    using ready wf man by (simp add: owned_def table_ok_def demo_table demo_pages fl_live_def)
  moreover have "uvm_leaf_ok (leaf demo_mem 0x80300000) demo_uvm"
    using demo_word page_range [OF al(1)]
    by (auto simp: uvm_leaf_ok_def demo_table(3) al(2) split: if_splits)
  moreover have "uvm_dims demo_uvm"
    by (simp add: uvm_dims_def USER_START_def TRAPFRAME_num page_aligned_iff_dvd)
  ultimately show ?thesis by (simp add: uvm_ok_def)
qed

lemma demo_range: "in_range (uvm_begin demo_uvm) (unat (uvm_size demo_uvm)) 0x10abc"
  by (simp add: in_range_def)

lemma demo_leaf: "uvm_leaf demo_machine demo_uvm 0x10abc = Some (leaf_word 0x80400000 0b10110)"
  by (simp add: demo_table(3) word_unat_eq_iff unat_page_of)

section \<open>Growing and shrinking\<close>

text \<open>
  C22. \<open>alloc\<close> never panics within the user range. It keeps the invariant; every page it adds is
  mapped for the user with the requested permission onto a page that was free, existing
  translations and the contents of all pages outside the table are unchanged, and the pages taken
  from the heap are exactly the new user pages and table pages. On \<open>Ok\<close> the size is the
  requested one, rounded up to whole pages; two free pages for each page to add are enough for
  \<open>Ok\<close>.
\<close>

theorem Uvm_alloc_grows:
  assumes "platform E hwf live lo hi" "uvm_ok hwf live s uv"
    and "unat USER_START + unat sz \<le> unat TRAPFRAME" "rwx_mask perm"
  shows "\<exists>res uv' s'. Uvm_alloc E uv sz perm s = Inr ((res, uv'), s') \<and>
    uvm_grown hwf live perm uv s uv' s' \<and> (res = Ok () \<longrightarrow> sz \<le> uvm_size uv') \<and>
    unat (uvm_size uv') < max (unat (uvm_size uv) + 1) (unat sz + 4096) \<and>
    (takes E (2 * ((unat sz - unat (uvm_size uv) + 4095) div 4096)) (heap_st s) \<noteq> None \<longrightarrow> res = Ok ())"
  using platform.Uvm_alloc_correct [OF assms] by (blast dest: served_enough)

theorem Uvm_alloc_grows_witness:
  "\<exists>uv' s'. Uvm_alloc fl_env demo_uvm 0x1800 0b110 demo_machine = Inr ((Ok (), uv'), s') \<and>
    uvm_ok fl_wf fl_live s' uv' \<and> 0x1800 \<le> uvm_size uv' \<and> unat (uvm_size uv') < 0x2800"
proof -
  have "rwx_mask 0b110" by (simp add: rwx_mask_def)
  then show ?thesis
    using Uvm_alloc_grows [OF fl.platform_axioms demo_uvm_ok, of "0x1800" "0b110"]
    by (auto simp: USER_START_def TRAPFRAME_num uvm_grown_def fl_takes simp del: takes.simps)
qed

text \<open>
  C23. \<open>dealloc\<close> to a smaller number of whole pages succeeds: exactly the pages above the new
  size are unmapped and given back, and the invariant holds with the new size.
\<close>

theorem Uvm_dealloc_shrinks:
  assumes "platform E hwf live lo hi" "uvm_ok hwf live s uv" "page_aligned sz" "sz \<le> uvm_size uv"
  shows "\<exists>s'. Uvm_dealloc E uv sz s = Inr ((Ok (), uv\<lparr>uvm_size := sz\<rparr>), s') \<and>
    uvm_ok hwf live s' (uv\<lparr>uvm_size := sz\<rparr>) \<and>
    unmapped hwf live (pt_root (uvm_pagetable uv)) True (USER_START + sz) (unat (uvm_size uv) - unat sz) s s'"
  using platform.Uvm_dealloc_correct [OF assms] by metis

theorem Uvm_dealloc_shrinks_witness:
  "\<exists>s'. Uvm_dealloc fl_env demo_uvm 0 demo_machine = Inr ((Ok (), demo_uvm\<lparr>uvm_size := 0\<rparr>), s') \<and>
    uvm_ok fl_wf fl_live s' (demo_uvm\<lparr>uvm_size := 0\<rparr>)"
  using Uvm_dealloc_shrinks [OF fl.platform_axioms demo_uvm_ok, of 0] by (auto simp: page_aligned_iff_dvd)

section \<open>Dropping\<close>

text \<open>
  C24. The drop of a user address space never panics. It gives back every user page and the root
  page, each once, and touches no page but those of the table.
\<close>

theorem Uvm_drop_releases:
  assumes "platform E hwf live lo hi" "uvm_ok hwf live s uv"
  shows "\<exists>s'. Uvm_drop E uv s = Inr ((), s') \<and> same_rest s s' \<and> hwf (heap_st s') \<and>
    live (heap_st s') = live (heap_st s) - user_pages (uvm_leaf s uv) - {pt_root (uvm_pagetable uv)} \<and>
    (\<forall>q. q \<notin> uvm_frames s uv \<longrightarrow> same_page (mem s) (mem s') q)"
  using platform.Uvm_drop_correct [OF assms] by metis

theorem Uvm_drop_releases_witness:
  "\<exists>s'. Uvm_drop fl_env demo_uvm demo_machine = Inr ((), s') \<and> 0x80400000 \<notin> fl_live (heap_st s')"
  using Uvm_drop_releases [OF fl.platform_axioms demo_uvm_ok] by (auto simp: demo_pages)

section \<open>Cloning\<close>

text \<open>
  C6. \<open>clone\<close> ends in a panic, and only when the heap does not have a page for the table and two
  for each page of the range, or in a copy of the address space: the child
  sees the same bytes at the same addresses, all its pages were free before, and the parent's
  address space and every page in use before are unchanged.
\<close>

theorem Uvm_clone_copies:
  assumes "platform E hwf live lo hi" "uvm_ok hwf live s uv"
    and "\<And>va. in_range (uvm_begin uv) (unat (uvm_size uv)) va \<Longrightarrow>
      leaf_addr (mem s) (pt_root (uvm_pagetable uv)) va \<noteq> None"
  shows "(\<exists>msg. Uvm_clone E uv s = Inl (Panic msg) \<and>
      takes E (1 + 2 * (unat (uvm_size uv) div 4096)) (heap_st s) = None) \<or>
    (\<exists>vm s'. Uvm_clone E uv s = Inr (vm, s') \<and> uvm_begin vm = uvm_begin uv \<and> uvm_size vm = uvm_size uv \<and>
      uvm_ok hwf live s' uv \<and> uvm_ok hwf live s' vm \<and> uvm_leaf s' uv = uvm_leaf s uv \<and>
      (uvm_frames s' vm \<union> user_pages (uvm_leaf s' vm)) \<inter> live (heap_st s) = {} \<and>
      (\<forall>q\<in>live (heap_st s). same_page (mem s) (mem s') q) \<and>
      (\<forall>va. in_range (uvm_begin uv) (unat (uvm_size uv)) va \<longrightarrow> user_view s' vm va = user_view s uv va))"
proof (rule platform.Uvm_clone_correct [OF assms])
  fix msg assume "Uvm_clone E uv s = Inl (Panic msg)" "takes E (1 + 2 * (unat (uvm_size uv) div 4096)) (heap_st s) = None"
  then show ?thesis by blast
next
  fix vm s'
  assume c: "Uvm_clone E uv s = Inr (vm, s')" "uvm_begin vm = uvm_begin uv" "uvm_size vm = uvm_size uv"
    and f: "forked hwf live s uv s' vm (unat (uvm_size uv))"
  have b: "uvm_begin uv = USER_START" using uvm_dimsD(1) [OF uvm_okD(5) [OF assms(2)]] .
  have "same_page (mem s) (mem s') q" if "q \<in> live (heap_st s)" for q
    using forkedD(7,8) [OF f] that by blast
  then show ?thesis
    using c forkedD [OF f] forked_view [OF f] unfolding b child_pages_def by blast
qed

theorem Uvm_clone_copies_witness:
  "\<exists>vm s'. Uvm_clone fl_env demo_uvm demo_machine = Inr (vm, s') \<and>
    user_view s' vm 0x10abc = user_view demo_machine demo_uvm 0x10abc"
proof -
  have "leaf_addr demo_mem 0x80300000 va \<noteq> None" if "in_range 0x10000 0x1000 va" for va
  proof -
    have "page_of va = 0x10000" using that page_range [of "0x10000" va] by (simp add: page_aligned_iff_dvd)
    then have "leaf demo_mem 0x80300000 va \<noteq> None" by (simp add: demo_table(3))
    then show ?thesis by (auto simp: leaf_def split: option.splits)
  qed
  then show ?thesis
    using Uvm_clone_copies [OF fl.platform_axioms demo_uvm_ok] demo_range
    by (auto simp: fl_takes simp del: takes.simps)
qed

section \<open>Loading and copying\<close>

text \<open>
  C19. \<open>load\<close> of an image into mapped user pages succeeds and makes every byte of the image
  visible in user memory, provided the image, rounded up to whole pages, lies outside the user
  pages. No page outside the user pages changes.
\<close>

theorem Uvm_load_visible:
  assumes "uvm_ok hwf live s uv" "page_aligned va" "unat (uvm_begin uv) \<le> unat va"
    and "n = (unat len + 4095) div 4096" "unat va + 4096 * n \<le> unat (uvm_begin uv) + unat (uvm_size uv)"
    and "\<And>vb. in_range va (4096 * n) vb \<Longrightarrow> uvm_leaf s uv vb \<noteq> None"
    and "\<And>i. i < 4096 * n \<Longrightarrow> page_of (img + of_nat i) \<notin> user_pages (uvm_leaf s uv)"
  shows "\<exists>m. Uvm_load E uv va (img, len) s = Inr (Ok (), s\<lparr>mem := m\<rparr>) \<and>
    uvm_ok hwf live (s\<lparr>mem := m\<rparr>) uv \<and>
    (\<forall>q. q \<notin> user_pages (uvm_leaf s uv) \<longrightarrow> same_page (mem s) m q) \<and>
    (\<forall>i<unat len. user_view (s\<lparr>mem := m\<rparr>) uv (va + of_nat i) = Some (mem s (img + of_nat i)))"
  using Uvm_load_correct [OF assms] by metis

theorem Uvm_load_visible_witness:
  "\<exists>m. Uvm_load fl_env demo_uvm 0x10000 (0x80230000, 0x123) demo_machine = Inr (Ok (), demo_machine\<lparr>mem := m\<rparr>) \<and>
    user_view (demo_machine\<lparr>mem := m\<rparr>) demo_uvm 0x10007 = Some (demo_mem 0x80230007)"
proof -
  have al: "page_aligned 0x10000" "page_aligned 0x80230000" by (simp_all add: page_aligned_iff_dvd)
  have map: "uvm_leaf demo_machine demo_uvm vb \<noteq> None" if "in_range 0x10000 (4096 * 1) vb" for vb
    using that page_range [OF al(1), of vb] by (simp add: demo_table(3))
  have img: "page_of (0x80230000 + of_nat i) \<notin> user_pages (uvm_leaf demo_machine demo_uvm)" if "i < 4096 * 1" for i
    using that page_of_plus [OF al(2), of "of_nat i"] by (simp add: demo_pages unat_of_nat)
  have "\<exists>m. Uvm_load fl_env demo_uvm 0x10000 (0x80230000, 0x123) demo_machine = Inr (Ok (), demo_machine\<lparr>mem := m\<rparr>) \<and>
      uvm_ok fl_wf fl_live (demo_machine\<lparr>mem := m\<rparr>) demo_uvm \<and>
      (\<forall>q. q \<notin> user_pages (uvm_leaf demo_machine demo_uvm) \<longrightarrow> same_page (mem demo_machine) m q) \<and>
      (\<forall>i<unat (0x123 :: usize). user_view (demo_machine\<lparr>mem := m\<rparr>) demo_uvm (0x10000 + of_nat i) =
        Some (mem demo_machine (0x80230000 + of_nat i)))"
    by (rule Uvm_load_visible [where n = 1, OF demo_uvm_ok al(1) _ _ _ map img]) simp_all
  then obtain m where m: "Uvm_load fl_env demo_uvm 0x10000 (0x80230000, 0x123) demo_machine =
      Inr (Ok (), demo_machine\<lparr>mem := m\<rparr>)"
    and v: "\<forall>i<unat (0x123 :: usize). user_view (demo_machine\<lparr>mem := m\<rparr>) demo_uvm (0x10000 + of_nat i) =
        Some (mem demo_machine (0x80230000 + of_nat i))" by blast
  show ?thesis using m v [rule_format, of 7] by auto
qed

text \<open>
  C20. Copying bytes out to a user address and back in, within one page: \<open>copy_out_cont\<close>
  succeeds, the user sees the bytes at those addresses and every other user address is as before;
  \<open>copy_in_cont\<close> then returns the bytes.
\<close>

theorem copy_out_in_roundtrip:
  assumes "uvm_ok hwf live s uv" "in_range (uvm_begin uv) (unat (uvm_size uv)) addr"
    and "uvm_leaf s uv addr = Some w" "unat (addr mod 4096) + length data \<le> 4096"
  shows "\<exists>s'. copy_out_cont E repr_u8 uv addr data s = Inr (Ok (), s') \<and> uvm_ok hwf live s' uv \<and>
    (\<forall>va. in_range (uvm_begin uv) (unat (uvm_size uv)) va \<longrightarrow> user_view s' uv va =
      (if unat addr \<le> unat va \<and> unat va < unat addr + length data
       then Some (data ! (unat va - unat addr)) else user_view s uv va)) \<and>
    copy_in_cont E repr_u8 uv addr (of_nat (length data)) s' = Inr (Ok data, s')"
proof -
  let ?s = "s\<lparr>mem := write_list repr_u8 (pte_page w + addr mod 4096) data (mem s)\<rparr>"
  note c = copy_out_bytes [OF assms]
  have wf: "pt_wf (mem ?s) (pt_root (uvm_pagetable uv))" using uvm_okD(2) [OF c(2)] by (rule table_okD)
  have n: "unat (of_nat (length data) :: usize) = length data" using assms(4) by (simp add: unat_of_nat)
  have byte: "mem ?s (pte_page w + addr mod 4096 + of_nat i) = data ! i" if "i < length data" for i
  proof -
    have u: "unat (addr mod 4096 + of_nat i :: usize) = unat (addr mod 4096) + i"
      using that assms(4) by (simp add: unat_word_ariths unat_of_nat)
    then have "unat (addr mod 4096 + of_nat i :: usize) < 4096" using that assms(4) by simp
    then show ?thesis using c(5) [of "addr mod 4096 + of_nat i"] that u by (simp add: add.assoc)
  qed
  have "map (\<lambda>i. mem ?s (pte_page w + addr mod 4096 + of_nat i)) [0..<length data] = data"
    by (rule nth_equalityI) (use byte in auto)
  then have "copy_in_cont E repr_u8 uv addr (of_nat (length data)) ?s = Inr (Ok data, ?s)"
    using c(3) assms(3) parent_leaf_user(1) [OF assms(1-3)] n
    by (simp add: copy_in_cont_eq [OF wf] read_map_u8)
  then show ?thesis using c(1,2) copy_out_view [OF assms] by blast
qed

theorem copy_out_in_roundtrip_witness:
  "\<exists>s'. copy_out_cont fl_env repr_u8 demo_uvm 0x10abc [1, 2, 3] demo_machine = Inr (Ok (), s') \<and>
    copy_in_cont fl_env repr_u8 demo_uvm 0x10abc 3 s' = Inr (Ok [1, 2, 3], s')"
  using copy_out_in_roundtrip [OF demo_uvm_ok demo_range demo_leaf, of "[1, 2, 3]" fl_env] by auto



end
