(* ===== verification/SystemProps.thy ===== *)
theory SystemProps
  imports System UvmProps
begin

text \<open>
  Properties of the process layer and of the running kernel. The first part states what single
  operations do; the second part holds in every state the kernel can reach from start-up.
\<close>

section \<open>Runs of the kernel\<close>

abbreviation reaches :: "'h env \<Rightarrow> kmode \<times> ('h, 'z) kstate_scheme \<Rightarrow> kmode \<times> ('h, 'z) kstate_scheme \<Rightarrow> bool" where
  "reaches E \<equiv> (\<lambda>c c'. \<exists>d. kstep E d c c')\<^sup>*\<^sup>*"

lemma reachable_ainv:
  assumes "spin_crate E" "sys_start c0" "reaches E c0 c"
  shows "sys_inv c" "quiet (snd c)" "ainv (abs_sys (snd c))"
proof -
  show "sys_inv c" by (rule spin_crate.reachable_sys_inv [OF assms])
  then show "quiet (snd c)" "ainv (abs_sys (snd c))" by (auto simp: sys_inv_def)
qed

text \<open>
  A run on which process \<open>i\<close> is overlooked: whenever another process is dispatched, \<open>i\<close> is
  runnable, and \<open>i\<close> itself is never dispatched. The number counts the dispatches.
\<close>

inductive overlooked :: "'h env \<Rightarrow> nat \<Rightarrow> nat \<Rightarrow> kmode \<times> ('h, 'z) kstate_scheme \<Rightarrow>
    kmode \<times> ('h, 'z) kstate_scheme \<Rightarrow> bool" for E i where
  nil: "overlooked E i 0 c c"
| other: "kstep E None c c1 \<Longrightarrow> overlooked E i n c1 c2 \<Longrightarrow> overlooked E i n c c2"
| dispatch: "kstep E (Some j) c c1 \<Longrightarrow> j \<noteq> i \<Longrightarrow> runnable (k_table (snd c)) i \<Longrightarrow> overlooked E i n c1 c2 \<Longrightarrow>
    overlooked E i (Suc n) c c2"

definition turns :: "nat \<Rightarrow> Process list \<Rightarrow> nat" where
  "turns i t = (\<Sum>j \<in> {..<length t} - {i}. Suc (unat (p_quants (t ! i))) - unat (p_quants (t ! j)))"

lemma turns_abs: "i < length t \<Longrightarrow> a_turns i (map abs_proc t) = turns i t"
  by (auto simp: a_turns_def turns_def intro!: sum.cong)

lemma passed_over_others: "asteps ls A B \<Longrightarrow> dispatches ls = 0 \<Longrightarrow> passed_over i ls A B"
proof (induction rule: asteps.induct)
  case (cons l A B ls C)
  then have "\<forall>j. l \<noteq> A_dispatch j" "dispatches ls = 0" by (auto simp: dispatches_def split: if_splits)
  then show ?case using cons passed_over.other by blast
qed (rule passed_over.nil)

lemma passed_over_append: "passed_over i ls A B \<Longrightarrow> passed_over i ms B C \<Longrightarrow> passed_over i (ls @ ms) A C"
  by (induction rule: passed_over.induct) (auto intro: passed_over.intros)

lemma kstep_passed_over:
  assumes "spin_crate E" "kstep E d c c1" "sys_inv c" "d \<noteq> Some i" "d \<noteq> None \<Longrightarrow> runnable (k_table (snd c)) i"
  shows "\<exists>ls. passed_over i ls (abs_sys (snd c)) (abs_sys (snd c1)) \<and> dispatches ls = (if d = None then 0 else 1)"
proof -
  obtain ls where ls: "dispatch_of d ls" "asteps ls (abs_sys (snd c)) (abs_sys (snd c1))"
    using spin_crate.kstep_sim(3) [OF assms(1-3)] by blast
  show ?thesis
  proof (cases d)
    case None
    then show ?thesis using passed_over_others [OF ls(2)] ls(1) by (auto simp: dispatch_of_def)
  next
    case (Some j)
    then obtain ms where ms: "ls = A_dispatch j # ms" "dispatches ms = 0" using ls(1) by (auto simp: dispatch_of_def)
    then obtain B where "astep (A_dispatch j) (abs_sys (snd c)) B" "asteps ms B (abs_sys (snd c1))"
      using ls(2) by (auto simp: asteps_Cons)
    moreover have "a_runnable (a_tab (abs_sys (snd c))) i"
      using assms(5) Some by (auto simp: runnable_def a_runnable_def)
    ultimately have "passed_over i ls (abs_sys (snd c)) (abs_sys (snd c1))"
      using assms(4) Some ms passed_over_others passed_over.dispatch by auto
    moreover have "dispatches ls = 1" using ms by (simp add: dispatches_def)
    ultimately show ?thesis using Some by auto
  qed
qed

lemma overlooked_passed_over:
  assumes "overlooked E i n c c'" "spin_crate E" "sys_inv c"
  shows "\<exists>ls. passed_over i ls (abs_sys (snd c)) (abs_sys (snd c')) \<and> dispatches ls = n"
  using assms
proof (induction rule: overlooked.induct)
  case (nil c)
  then show ?case by (auto intro!: exI [of _ "[]"] passed_over.nil simp: dispatches_def)
next
  case (other c c1 n c2)
  have "sys_inv c1" by (rule spin_crate.kstep_sys_inv [OF other.prems(1) other.hyps(1) other.prems(2)])
  then show ?case
    using kstep_passed_over [OF other.prems(1) other.hyps(1) other.prems(2), of i] other.IH other.prems(1)
      passed_over_append by (fastforce simp: dispatches_append)
next
  case (dispatch j c c1 n c2)
  have "sys_inv c1" by (rule spin_crate.kstep_sys_inv [OF dispatch.prems(1) dispatch.hyps(1) dispatch.prems(2)])
  then show ?case
    using kstep_passed_over [OF dispatch.prems(1) dispatch.hyps(1) dispatch.prems(2), of i] dispatch.hyps(2,3) dispatch.IH dispatch.prems(1)
      passed_over_append by (fastforce simp: dispatches_append)
qed

section \<open>A small system\<close>

definition demo_proc :: "ProcState \<Rightarrow> usize option \<Rightarrow> usize option \<Rightarrow> usize \<Rightarrow> Process" where
  "demo_proc st pid parent q = \<lparr>p_id = 0, p_pid = pid, p_state = st, p_kstack = 0xffffc000, p_parent = parent,
     p_pagetable = \<lparr>uvm_begin = USER_START, uvm_size = 0, uvm_pagetable = \<lparr>pt_root = 0x80303000\<rparr>\<rparr>,
     p_context = Context_zero, p_cont = In_forkret, p_prev = False, p_xstatus = 0,
     p_sleep_channel = (if st = Sleeping then pid else None), p_trapframe = 0x80310000, p_lock = False, p_quants = q\<rparr>"

definition demo_sys :: "Process list \<Rightarrow> usize \<Rightarrow> nat option \<Rightarrow> usize list kstate" where
  "demo_sys ps n cur = \<lparr>mem = (\<lambda>_. 0), csrs = (\<lambda>_. 0), stimecmp = 0, uart_out = [], heap_st = [], heap_lock = False,
     cpu = Cpu_new\<lparr>current := cur\<rparr>, kernel_once = True, kernel_lock = False, k_kvm = None, k_table = ps, k_pid = n\<rparr>"

lemma demo_proc_simps [simp]:
  "p_state (demo_proc st pid parent q) = st" "p_pid (demo_proc st pid parent q) = pid"
  "p_parent (demo_proc st pid parent q) = parent" "p_quants (demo_proc st pid parent q) = q"
  "p_lock (demo_proc st pid parent q) = False" "p_cont (demo_proc st pid parent q) = In_forkret"
  "p_kstack (demo_proc st pid parent q) = 0xffffc000"
  "p_sleep_channel (demo_proc st pid parent q) = (if st = Sleeping then pid else None)"
  by (simp_all add: demo_proc_def)

lemma demo_sys_simps [simp]:
  "k_table (demo_sys ps n cur) = ps" "current (cpu (demo_sys ps n cur)) = cur" "k_pid (demo_sys ps n cur) = n"
  "interrupt_off_stack (cpu (demo_sys ps n cur)) = 0" "kernel_once (demo_sys ps n cur)"
  "\<not> kernel_lock (demo_sys ps n cur)"
  by (simp_all add: demo_sys_def Cpu_new_def)

lemma demo_quiet: "list_all (\<lambda>p. \<not> p_lock p) ps \<Longrightarrow> quiet (demo_sys ps n cur)"
  by (simp add: quiet_def locks_free_def)

text \<open>The table after start-up, and one with two runnable processes.\<close>

abbreviation demo_init :: "Process list" where
  "demo_init \<equiv> [demo_proc Runnable (Some 0) None 0, demo_proc Unused None None 0]"

abbreviation demo_two :: "Process list" where
  "demo_two \<equiv> [demo_proc Runnable (Some 0) None 3, demo_proc Runnable (Some 1) (Some 0) 2]"

lemma demo_start: "sys_start (In_scheduler, demo_sys demo_init 1 None)"
  by (simp add: sys_start_def demo_quiet astart_def)

lemma demo_two_inv: "sys_inv (In_scheduler, demo_sys demo_two 2 None)"
proof -
  have "run_ok (abs_sys (demo_sys demo_two 2 None))" "pid_ok (abs_sys (demo_sys demo_two 2 None))"
    "parent_ok (abs_sys (demo_sys demo_two 2 None))" "sleep_ok (abs_sys (demo_sys demo_two 2 None))"
    "cont_ok (abs_sys (demo_sys demo_two 2 None))"
    by (auto simp: run_ok_def pid_ok_def parent_ok_def sleep_ok_def cont_ok_def cont_fits_def alive_def less_Suc_eq)
  then show ?thesis by (simp add: sys_inv_def ainv_def demo_quiet)
qed

section \<open>The scheduler\<close>

text \<open>
  C9. A round of the scheduler in a quiet state (no lock held, interrupt level 0) dispatches the
  runnable process with the fewest quanta, the lowest index among equals; there is exactly one
  such process whenever a process is runnable. The dispatched process is marked running, its lock
  is held, its quanta are counted up (an overflow of the counter panics), it is current, the
  scheduler's registers are saved, interrupts are off at level 1, and nothing else changes. If no
  process is runnable, the scheduler enables interrupts and waits.
\<close>

theorem scheduler_choice:
  assumes "spin_crate E" "quiet s"
  shows "(\<forall>i. next_process (k_table s) i \<longrightarrow> scheduler E regs s =
       (if p_quants (k_table s ! i) = 0xffffffff then Inl Overflow else Inr (Some i, dispatched i regs s))) \<and>
    ((\<exists>i. runnable (k_table s) i) \<longrightarrow> (\<exists>!i. next_process (k_table s) i)) \<and>
    ((\<forall>i. \<not> runnable (k_table s) i) \<longrightarrow> scheduler E regs s = Inr (None, idling s))"
  using next_process_exists [of "k_table s"] next_process_unique [of "k_table s"]
  by (auto simp: spin_crate.scheduler_eq [OF assms] find_sched_order_eq [THEN iffD2] find_sched_order_None [THEN iffD2])

theorem scheduler_choice_witness:
  "scheduler fl_env Context_zero (demo_sys [demo_proc Runnable (Some 0) None 3, demo_proc Sleeping (Some 1) None 0,
      demo_proc Runnable (Some 2) None 2, demo_proc Runnable (Some 3) None 2] 4 None) =
    Inr (Some 2, dispatched 2 Context_zero (demo_sys [demo_proc Runnable (Some 0) None 3,
      demo_proc Sleeping (Some 1) None 0, demo_proc Runnable (Some 2) None 2, demo_proc Runnable (Some 3) None 2] 4 None))"
proof -
  let ?t = "[demo_proc Runnable (Some 0) None 3, demo_proc Sleeping (Some 1) None 0,
      demo_proc Runnable (Some 2) None 2, demo_proc Runnable (Some 3) None 2]"
  have "next_process ?t 2" by (auto simp: next_process_def runnable_def less_Suc_eq)
  then show ?thesis
    using scheduler_choice [OF fl_spin.spin_crate_axioms demo_quiet [of ?t 4 None], where regs = Context_zero] by simp
qed

section \<open>First dispatch\<close>

text \<open>The trampoline section: both routines lie in the page at its start.\<close>

definition linker_ok :: "'h env \<Rightarrow> bool" where
  "linker_ok E \<longleftrightarrow> sym_trampoline E \<le> fn_uservec E \<and> unat (fn_uservec E - sym_trampoline E) < 4096 \<and>
     sym_trampoline E \<le> fn_userret E \<and> unat (fn_userret E - sym_trampoline E) < 4096"

lemma linker_ok_chk:
  assumes "linker_ok E"
  shows "\<exists>v. sub_chk (fn_uservec E) (sym_trampoline E) = Inr v \<and> (\<exists>w. add_chk TRAMPOLINE v = Inr w)"
    "\<exists>v. sub_chk (fn_userret E) (sym_trampoline E) = Inr v \<and> (\<exists>w. add_chk TRAMPOLINE v = Inr w)"
  using assms by (auto simp: linker_ok_def sub_chk_def add_chk_def TRAMPOLINE_num)

lemma prepare_return_ok:
  assumes "linker_ok E" "unat (p_kstack (k_table s ! i)) + 8192 < 2 ^ 32"
  shows "\<exists>s'. prepare_return E i s = Inr s' \<and> same_sys s s'"
proof -
  obtain v w where "sub_chk (fn_uservec E) (sym_trampoline E) = Inr v" "add_chk TRAMPOLINE v = Inr w"
    using linker_ok_chk [OF assms(1)] by blast
  moreover have "mul_chk KERNEL_STACK_PAGES PAGESIZE = Inr 8192"
    by (simp add: mul_chk_def KERNEL_STACK_PAGES_def PAGESIZE_num)
  moreover have "add_chk (p_kstack (k_table s ! i)) 8192 = Inr (p_kstack (k_table s ! i) + 8192)"
    using assms(2) by (simp add: add_chk_def)
  ultimately show ?thesis
    by (simp add: prepare_return_def Let_def trapframe_set_def)
qed

lemma forkret_ok:
  assumes "spin_crate E" "linker_ok E" "switched i s" "current (cpu s) = Some i"
    "p_cont (k_table s ! i) = In_forkret" "unat (p_kstack (k_table s ! i)) + 8192 < 2 ^ 32"
  shows "\<exists>satp s'. resume E i regs s = Inr (To_user satp, s')"
proof -
  let ?s1 = "popped (upd_proc i (\<lambda>p. p\<lparr>p_lock := False\<rparr>) s)"
  have u: "unlock_manual E (proc_lockref i) s = Inr ?s1"
    using assms(3) by (intro spin_crate.proc_unlock_eq [OF assms(1)]) (simp add: switched_def)
  obtain s2 where "prepare_return E i ?s1 = Inr s2"
    using prepare_return_ok [OF assms(2), of ?s1 i] assms(3,6) by (auto simp: switched_def)
  moreover obtain v w where "sub_chk (fn_userret E) (sym_trampoline E) = Inr v" "add_chk TRAMPOLINE v = Inr w"
    using linker_ok_chk [OF assms(2)] by blast
  ultimately show ?thesis using u assms(4,5) by (simp add: resume_def forkret_def)
qed

lemma demo_dispatch:
  assumes "next_process ps i" "list_all (\<lambda>p. \<not> p_lock p \<and> p_cont p = In_forkret \<and> p_kstack p = 0xffffc000) ps"
    "p_quants (ps ! i) \<noteq> 0xffffffff"
  shows "\<exists>satp s'. kstep fl_env (Some i) (In_scheduler, demo_sys ps n None) (In_user satp, s')"
proof -
  let ?s = "demo_sys ps n None" and ?d = "dispatched i Context_zero (demo_sys ps n None)"
  have q: "quiet ?s" using assms(2) by (intro demo_quiet) (auto simp: list_all_iff)
  have i: "i < length ps" using assms(1) by (simp add: next_process_def runnable_def)
  have sched: "scheduler fl_env Context_zero ?s = Inr (Some i, ?d)"
    using fl_spin.scheduler_eq [OF q, of Context_zero] find_sched_order_eq [of ps i, THEN iffD2, OF assms(1)] assms(3)
    by simp
  have "switched i ?d" "current (cpu ?d) = Some i"
    using fl_spin.scheduler_refines(1,2) [OF q _ sched] by simp_all
  moreover have "linker_ok fl_env" by (simp add: linker_ok_def fl_env_def)
  moreover have "p_cont (ps ! i) = In_forkret" "p_kstack (ps ! i) = 0xffffc000"
    using assms(2) i by (auto simp: list_all_length)
  ultimately show ?thesis
    using forkret_ok [OF fl_spin.spin_crate_axioms, of i ?d Context_zero] i kstep.dispatch [OF sched]
    by (fastforce simp: dispatched_def)
qed

section \<open>Every reachable state\<close>

text \<open>
  C10. Bounded waiting. While process \<open>i\<close> is runnable and is not dispatched, the kernel dispatches
  other processes at most \<open>turns i\<close> times: every other process at most once for each quantum it
  has fewer than \<open>i\<close>, and once more. This holds from every state that satisfies the invariant
  of the kernel, whatever the processes do, forks and exits included.
\<close>

theorem bounded_waiting:
  assumes "spin_crate E" "sys_inv c" "i < length (k_table (snd c))" "overlooked E i n c c'"
  shows "n \<le> turns i (k_table (snd c))"
proof -
  obtain ls where "passed_over i ls (abs_sys (snd c)) (abs_sys (snd c'))" "dispatches ls = n"
    using overlooked_passed_over [OF assms(4,1,2)] by blast
  from passed_over_bound [OF this(1)] this(2) assms(3) show ?thesis
    by (simp add: turns_abs)
qed

theorem bounded_waiting_witness:
  "\<exists>c'. overlooked fl_env 0 1 (In_scheduler, demo_sys demo_two 2 None) c' \<and> 1 \<le> turns 0 demo_two"
proof -
  have "next_process demo_two 1" by (auto simp: next_process_def runnable_def less_Suc_eq)
  from demo_dispatch [OF this, of 2] obtain satp s' where
    "kstep fl_env (Some 1) (In_scheduler, demo_sys demo_two 2 None) (In_user satp, s')" by auto
  then have "overlooked fl_env 0 (Suc 0) (In_scheduler, demo_sys demo_two 2 None) (In_user satp, s')"
    by (rule overlooked.dispatch) (auto simp: runnable_def intro: overlooked.nil)
  then show ?thesis using bounded_waiting [OF fl_spin.spin_crate_axioms demo_two_inv] by fastforce
qed

text \<open>
  C14. The kernel never comes to rest: in every state of the scheduler that is reachable from
  start-up some process is runnable, and the next round dispatches it (or panics because the
  counter of its quanta overflows). In particular processes that wait for one another cannot block
  the system.
\<close>

theorem never_at_rest:
  assumes "spin_crate E" "sys_start c0" "reaches E c0 (In_scheduler, s)"
  shows "\<exists>i. next_process (k_table s) i \<and> scheduler E regs s =
    (if p_quants (k_table s ! i) = 0xffffffff then Inl Overflow else Inr (Some i, dispatched i regs s))"
proof -
  have inv: "ainv (abs_sys s)" "quiet s" "current (cpu s) = None"
    using reachable_ainv [OF assms] by (auto simp: sys_inv_def)
  obtain j where "j < length (k_table s)" "p_state (k_table s ! j) = Runnable"
    using ainv_not_at_rest [OF inv(1)] ainvD(7) [OF inv(1)] inv(3) by force
  then obtain i where i: "next_process (k_table s) i" using next_process_exists [of "k_table s" j] by (auto simp: runnable_def)
  then show ?thesis
    using spin_crate.scheduler_eq [OF assms(1) inv(2), of regs] find_sched_order_eq [of "k_table s" i] by auto
qed

theorem never_at_rest_witness:
  "\<exists>i. next_process demo_init i \<and> scheduler fl_env Context_zero (demo_sys demo_init 1 None) =
    (if p_quants (demo_init ! i) = 0xffffffff then Inl Overflow
     else Inr (Some i, dispatched i Context_zero (demo_sys demo_init 1 None)))"
  using never_at_rest [OF fl_spin.spin_crate_axioms demo_start, of "demo_sys demo_init 1 None" Context_zero] by simp

text \<open>A run of one step from start-up, at which the invariants are looked at below.\<close>

lemma demo_run:
  "\<exists>satp s. reaches fl_env (In_scheduler, demo_sys demo_init 1 None) (In_user satp, s)"
proof -
  have "next_process demo_init 0" by (auto simp: next_process_def runnable_def less_Suc_eq)
  from demo_dispatch [OF this, of 1] obtain satp s where
    "kstep fl_env (Some 0) (In_scheduler, demo_sys demo_init 1 None) (In_user satp, s)" by auto
  then show ?thesis by blast
qed



text \<open>
  C12. One process at a time. In every reachable state the kernel lock and all process locks are
  free and the interrupt level is 0; in the scheduler no process is running and none is current,
  in user mode the current process is the one that is running.
\<close>

theorem one_runner:
  assumes "spin_crate E" "sys_start c0" "reaches E c0 c"
  shows "\<not> kernel_lock (snd c) \<and> interrupt_off_stack (cpu (snd c)) = 0 \<and>
    list_all (\<lambda>p. \<not> p_lock p) (k_table (snd c)) \<and> (current (cpu (snd c)) = None \<longleftrightarrow> fst c = In_scheduler) \<and>
    (\<forall>j < length (k_table (snd c)). p_state (k_table (snd c) ! j) = Running \<longleftrightarrow> current (cpu (snd c)) = Some j)"
proof -
  note inv = reachable_ainv [OF assms]
  have "\<forall>j < length (k_table (snd c)). p_state (k_table (snd c) ! j) = Running \<longleftrightarrow> current (cpu (snd c)) = Some j"
    using ainvD(7) [OF inv(3)] by auto
  moreover have "current (cpu (snd c)) = None \<longleftrightarrow> fst c = In_scheduler"
    using inv(1) by (auto simp: sys_inv_def in_kernel_def split: kmode.splits)
  ultimately show ?thesis using inv(2) by (simp add: quiet_def locks_free_def)
qed

theorem one_runner_witness:
  "\<exists>c. reaches fl_env (In_scheduler, demo_sys demo_init 1 None) c \<and> (\<exists>satp. fst c = In_user satp) \<and>
    \<not> kernel_lock (snd c) \<and> interrupt_off_stack (cpu (snd c)) = 0 \<and> current (cpu (snd c)) \<noteq> None"
proof -
  obtain satp s where run: "reaches fl_env (In_scheduler, demo_sys demo_init 1 None) (In_user satp, s)"
    using demo_run by blast
  show ?thesis
    using one_runner [OF fl_spin.spin_crate_axioms demo_start run] run by (intro exI [of _ "(In_user satp, s)"]) auto
qed

text \<open>
  C13. The process tree. In every reachable state a slot is unused exactly if it has no pid, pids
  are distinct and smaller than the next one to be given out, every parent is a process that is
  neither unused nor a zombie and is older than its child, and the first process is alive.
\<close>

theorem process_tree:
  assumes "spin_crate E" "sys_start c0" "reaches E c0 c"
  shows "let t = k_table (snd c); live = (\<lambda>p. p_state p \<in> {Runnable, Running, Sleeping}) in
    (\<forall>j < length t. (p_state (t ! j) = Unused) = (p_pid (t ! j) = None) \<and> (\<forall>q. p_pid (t ! j) = Some q \<longrightarrow> q < k_pid (snd c))) \<and>
    (\<forall>i < length t. \<forall>j < length t. p_pid (t ! i) = p_pid (t ! j) \<longrightarrow> p_pid (t ! i) \<noteq> None \<longrightarrow> i = j) \<and>
    (\<exists>k < length t. p_pid (t ! k) = Some 0 \<and> live (t ! k)) \<and>
    (\<forall>j < length t. \<forall>q. p_parent (t ! j) = Some q \<longrightarrow> (\<exists>r. p_pid (t ! j) = Some r \<and> q < r) \<and>
      (\<exists>k < length t. p_pid (t ! k) = Some q \<and> live (t ! k)))"
  using reachable_ainv(3) [OF assms]
  by (auto simp: ainv_def pid_ok_def parent_ok_def alive_def Let_def cong: conj_cong)

theorem process_tree_witness:
  "\<exists>c. reaches fl_env (In_scheduler, demo_sys demo_init 1 None) c \<and> (\<exists>satp. fst c = In_user satp) \<and>
    (\<exists>k < length (k_table (snd c)). p_pid (k_table (snd c) ! k) = Some 0)"
proof -
  obtain satp s where run: "reaches fl_env (In_scheduler, demo_sys demo_init 1 None) (In_user satp, s)"
    using demo_run by blast
  show ?thesis
    using process_tree [OF fl_spin.spin_crate_axioms demo_start run] run
    by (intro exI [of _ "(In_user satp, s)"]) (auto simp: Let_def)
qed







section \<open>Exit, wait and fork\<close>

text \<open>
  C15. \<open>kexit\<close> stops the first process with a panic. Any other process gives its children to the
  first process, which is woken if there are any, wakes its parent, and becomes a zombie with its
  exit status, locked and switched out, with interrupts off at level 1: this is the whole effect.
\<close>

theorem kexit_exact:
  assumes "spin_crate E" "in_kernel i s"
  shows "kexit E i x regs s = (if p_pid (k_table s ! i) = Some 0 then Inl (Panic ''init exit'')
    else Inr (upd_proc i (\<lambda>p. p\<lparr>p_lock := True, p_xstatus := x, p_state := Zombie, p_context := regs,
      p_cont := In_kexit, p_prev := interrupt_read (csrs s)\<rparr>) ((pushed s)\<lparr>k_table := left_by i (k_table s)\<rparr>)))"
  using spin_crate.kexit_eq [OF assms] by (simp add: kexit_def)

theorem kexit_exact_witness:
  "\<exists>s'. kexit fl_env 1 7 Context_zero (demo_sys [demo_proc Sleeping (Some 0) None 1, demo_proc Running (Some 1) (Some 0) 1,
      demo_proc Zombie (Some 2) (Some 1) 1] 3 (Some 1)) = Inr s' \<and>
    p_state (k_table s' ! 0) = Runnable \<and> p_state (k_table s' ! 1) = Zombie \<and> p_xstatus (k_table s' ! 1) = 7 \<and>
    p_parent (k_table s' ! 2) = Some 0"
proof -
  let ?t = "[demo_proc Sleeping (Some 0) None 1, demo_proc Running (Some 1) (Some 0) 1, demo_proc Zombie (Some 2) (Some 1) 1]"
  have "in_kernel 1 (demo_sys ?t 3 (Some 1))" by (simp add: in_kernel_def demo_quiet)
  from kexit_exact [OF fl_spin.spin_crate_axioms this, of 7 Context_zero] show ?thesis
    by (simp add: left_by_def reparented_def wake_def adopt_def Let_def)
qed

text \<open>
  C37. \<open>wakeup\<close> under the kernel lock makes every process that sleeps on the channel runnable and
  changes nothing else; \<open>reparent\<close> gives every child to the first process and, if there was one,
  wakes the first process.
\<close>

theorem wakeup_reparent_exact:
  assumes "spin_crate E" "critical s" "locks_free s"
  shows "wakeup E ch s = Inr (s\<lparr>k_table := map (wake ch) (k_table s)\<rparr>) \<and>
    reparent E pid s = Inr (s\<lparr>k_table := reparented pid (k_table s)\<rparr>)"
  using spin_crate.wakeup_eq [OF assms] spin_crate.reparent_eq [OF assms] by simp

theorem wakeup_reparent_exact_witness:
  "wakeup fl_env (Some 0) ((demo_sys [demo_proc Sleeping (Some 0) None 1] 1 None)\<lparr>cpu := Cpu_new\<lparr>interrupt_off_stack := 1\<rparr>\<rparr>) =
    Inr ((demo_sys [(demo_proc Sleeping (Some 0) None 1)\<lparr>p_state := Runnable\<rparr>] 1 None)\<lparr>cpu := Cpu_new\<lparr>interrupt_off_stack := 1\<rparr>\<rparr>)"
proof -
  let ?s = "(demo_sys [demo_proc Sleeping (Some 0) None 1] 1 None)\<lparr>cpu := Cpu_new\<lparr>interrupt_off_stack := 1\<rparr>\<rparr>"
  have "critical ?s" "locks_free ?s"
    by (auto simp: critical_def int_ok_def locks_free_def demo_sys_def interrupt_read_def read_csr_def)
  from wakeup_reparent_exact [OF fl_spin.spin_crate_axioms this, of "Some 0"] show ?thesis
    by (simp add: wake_def demo_sys_def)
qed



end
