(* ===== verification/UvmLife.thy ===== *)
theory UvmLife
  imports UvmProps
begin

text \<open>
  The life of a user address space as a step relation: the operations of \<open>Uvm\<close> the kernel
  applies to it, the copies the kernel makes to it and the stores of the process itself, in any
  order. Isolation is proved by rule induction: no sequence of steps lets user mode reach a page
  that was in use by anything else.
\<close>

section \<open>The steps\<close>

text \<open>
  A step that copies the address space is followed on the parent's or on the child's side. The
  premises beside the call itself are those under which the kernel makes it: \<open>alloc\<close> with
  some of the permissions read, write and execute, sizes below the trapframe page, a page-aligned
  trapframe, and an image and copied bytes on mapped pages.
\<close>

inductive uvm_step :: "'h env \<Rightarrow> ('h, 'z) machine_scheme \<times> Uvm \<Rightarrow> ('h, 'z) machine_scheme \<times> Uvm \<Rightarrow> bool"
  for E where
  alloc: "Uvm_alloc E uv sz perm s = Inr ((r, uv'), s') \<Longrightarrow> rwx_mask perm \<Longrightarrow>
    unat USER_START + unat sz \<le> unat TRAPFRAME \<Longrightarrow> uvm_step E (s, uv) (s', uv')"
| guard: "Uvm_grow E uv PAGESIZE 0 s = Inr ((r, uv'), s') \<Longrightarrow>
    unat USER_START + unat (uvm_size uv) + 4096 \<le> unat TRAPFRAME \<Longrightarrow> uvm_step E (s, uv) (s', uv')"
| dealloc: "Uvm_dealloc E uv sz s = Inr ((r, uv'), s') \<Longrightarrow> sz \<le> uvm_size uv \<Longrightarrow>
    uvm_step E (s, uv) (s', uv')"
| init_proc: "Uvm_init_proc E uv tf s = Inr (r', s') \<Longrightarrow> page_aligned tf \<Longrightarrow> unat tf + 4096 < 2 ^ 32 \<Longrightarrow>
    page_aligned (sym_trampoline E) \<Longrightarrow> unat (sym_trampoline E) + 4096 < 2 ^ 32 \<Longrightarrow>
    uvm_step E (s, uv) (s', uv)"
| clone_parent: "Uvm_clone E uv s = Inr (vm, s') \<Longrightarrow> (\<And>va. in_range (uvm_begin uv) (unat (uvm_size uv)) va \<Longrightarrow>
      leaf_addr (mem s) (pt_root (uvm_pagetable uv)) va \<noteq> None) \<Longrightarrow> uvm_step E (s, uv) (s', uv)"
| clone_child: "Uvm_clone E uv s = Inr (vm, s') \<Longrightarrow> (\<And>va. in_range (uvm_begin uv) (unat (uvm_size uv)) va \<Longrightarrow>
      leaf_addr (mem s) (pt_root (uvm_pagetable uv)) va \<noteq> None) \<Longrightarrow> uvm_step E (s, uv) (s', vm)"
| load: "Uvm_load E uv va (img, len) s = Inr (r', s') \<Longrightarrow> page_aligned va \<Longrightarrow>
    unat (uvm_begin uv) \<le> unat va \<Longrightarrow> n = (unat len + 4095) div 4096 \<Longrightarrow>
    unat va + 4096 * n \<le> unat (uvm_begin uv) + unat (uvm_size uv) \<Longrightarrow>
    (\<And>vb. in_range va (4096 * n) vb \<Longrightarrow> uvm_leaf s uv vb \<noteq> None) \<Longrightarrow>
    (\<And>i. i < 4096 * n \<Longrightarrow> page_of (img + of_nat i) \<notin> user_pages (uvm_leaf s uv)) \<Longrightarrow>
    uvm_step E (s, uv) (s', uv)"
| copy_out: "copy_out_cont E repr_u8 uv addr data s = Inr (r', s') \<Longrightarrow>
    in_range (uvm_begin uv) (unat (uvm_size uv)) addr \<Longrightarrow> uvm_leaf s uv addr = Some w \<Longrightarrow>
    unat (addr mod 4096) + length data \<le> 4096 \<Longrightarrow> uvm_step E (s, uv) (s', uv)"
| user_store: "sv32_translate (mem s) (pt_root (uvm_pagetable uv)) Store UMode va = Some pa \<Longrightarrow>
    uvm_step E (s, uv) (s\<lparr>mem := (mem s)(pa := b)\<rparr>, uv)"

section \<open>What a step keeps\<close>

text \<open>
  \<open>confined live K s uv\<close>: the pages of \<open>K\<close> are in use, and none of them is a user page of
  the address space.
\<close>

definition confined :: "('h \<Rightarrow> usize set) \<Rightarrow> usize set \<Rightarrow> ('h, 'z) machine_scheme \<Rightarrow> Uvm \<Rightarrow> bool" where
  "confined live K s uv \<longleftrightarrow> user_pages (uvm_leaf s uv) \<inter> K = {} \<and> K \<subseteq> live (heap_st s)"

lemma confinedI:
  assumes "confined live K s uv" "user_pages (uvm_leaf s' uv') \<subseteq> user_pages (uvm_leaf s uv) \<union> - live (heap_st s)"
    and "live (heap_st s) - user_pages (uvm_leaf s uv) \<subseteq> live (heap_st s')"
  shows "confined live K s' uv'"
  using assms unfolding confined_def by blast

text \<open>User entries lie in the user range, so only the entries there matter.\<close>

lemma user_pages_in_range:
  assumes "uvm_ok hwf live s uv" "p \<in> user_pages (uvm_leaf s uv)"
  obtains va w where "in_range (uvm_begin uv) (unat (uvm_size uv)) va" "uvm_leaf s uv va = Some w"
    "user_leaf w" "p = pte_page w"
  using assms(2) user_leaf_in_range [OF uvm_okD(6) [OF assms(1)]]
  by (auto simp: user_pages_def user_words_def)

lemma user_pagesI: "f va = Some w \<Longrightarrow> user_leaf w \<Longrightarrow> pte_page w \<in> user_pages f"
  by (auto simp: user_pages_def user_words_def)

lemma confined_grown:
  assumes "uvm_ok hwf live s uv" "confined live K s uv" "uvm_grown hwf live perm uv s uv' s'" "perm = 0 \<or> rwx_mask perm"
  shows "uvm_ok hwf live s' uv' \<and> confined live K s' uv'"
proof -
  note g = uvm_grownD [OF assms(3)]
  have "p \<in> user_pages (uvm_leaf s uv) \<union> - live (heap_st s)" if p: "p \<in> user_pages (uvm_leaf s' uv')" for p
  proof -
    obtain va w where w: "uvm_leaf s' uv va = Some w" "user_leaf w" "p = pte_page w"
      using p g(3) by (auto simp: user_pages_def user_words_def)
    show ?thesis
    proof (cases "new_range uv uv' va")
      case True
      then have "perm \<noteq> 0" using g(10) [of va] w(1) by auto
      then have r: "rwx_mask perm" using assms(4) by simp
      from g(11) [OF True \<open>perm \<noteq> 0\<close>] w(1) obtain a where
        "w = leaf_word a (perm OR PTE_U)" "page_aligned a" "a \<notin> live (heap_st s)" by auto
      then show ?thesis using leaf_word_page [OF _ rwx_user(1) [OF r]] w(3) by simp
    next
      case False
      then show ?thesis using g(9) [of va] w user_pagesI [of "uvm_leaf s uv" va w] by simp
    qed
  qed
  then show ?thesis using g(1) confinedI [OF assms(2)] g(6) by blast
qed

lemma confined_writes:
  assumes "confined live K s uv" "uvm_leaf (s\<lparr>mem := m\<rparr>) uv = uvm_leaf s uv"
  shows "confined live K (s\<lparr>mem := m\<rparr>) uv"
  using assms by (simp add: confined_def)

text \<open>A store of the process itself is a copy of one byte to the address.\<close>

lemma user_store_copy:
  assumes "uvm_ok hwf live s uv" "sv32_translate (mem s) (pt_root (uvm_pagetable uv)) Store UMode va = Some pa"
  obtains w where "in_range (uvm_begin uv) (unat (uvm_size uv)) va" "uvm_leaf s uv va = Some w"
    "s\<lparr>mem := (mem s)(pa := b)\<rparr> = s\<lparr>mem := write_list repr_u8 (pte_page w + va mod 4096) [b] (mem s)\<rparr>"
proof -
  have wf: "pt_wf (mem s) (pt_root (uvm_pagetable uv))" using uvm_okD(2) [OF assms(1)] by (rule table_okD)
  obtain w where w: "uvm_leaf s uv va = Some w" "pa = pte_page w + va mod 4096"
    using assms(2) unfolding sv32_translate_leaf [OF wf] by (auto split: option.splits if_splits)
  show thesis by (rule that [OF user_view_hardware(2) [OF assms] w(1)]) (simp add: w(2) repr_u8_def)
qed

lemma copied_bytes:
  assumes "uvm_ok hwf live s uv" "confined live K s uv" "in_range (uvm_begin uv) (unat (uvm_size uv)) addr"
    "uvm_leaf s uv addr = Some w" "unat (addr mod 4096) + length data \<le> 4096"
  shows "uvm_ok hwf live (s\<lparr>mem := write_list repr_u8 (pte_page w + addr mod 4096) data (mem s)\<rparr>) uv \<and>
    confined live K (s\<lparr>mem := write_list repr_u8 (pte_page w + addr mod 4096) data (mem s)\<rparr>) uv"
  using copy_out_bytes(2,3) [OF assms(1,3-5)] confined_writes [OF assms(2)] by blast

text \<open>Inside the user range \<open>init_proc\<close> changes no entry.\<close>

lemma init_proc_user_pages:
  assumes "uvm_ok hwf live s' uv" "\<And>va. \<not> kernel_page (page_of va) \<Longrightarrow> uvm_leaf s' uv va = uvm_leaf s uv va"
  shows "user_pages (uvm_leaf s' uv) \<subseteq> user_pages (uvm_leaf s uv)"
proof
  fix p assume "p \<in> user_pages (uvm_leaf s' uv)"
  with assms(1) show "p \<in> user_pages (uvm_leaf s uv)"
  proof (rule user_pages_in_range)
    fix va w
    assume va: "in_range (uvm_begin uv) (unat (uvm_size uv)) va" "uvm_leaf s' uv va = Some w" "user_leaf w" "p = pte_page w"
    then have "\<not> kernel_page (page_of va)"
      using user_range_page [OF uvm_okD(5) [OF assms(1)]] by (simp add: kernel_page_def)
    then show ?thesis using assms(2) [of va] va user_pagesI [of "uvm_leaf s uv" va w] by simp
  qed
qed

lemma confined_init_proc:
  assumes "confined live K s uv" "uvm_ok hwf live s' uv" "grows hwf live (pt_root (uvm_pagetable uv)) s s'"
    "\<And>va. \<not> kernel_page (page_of va) \<Longrightarrow> uvm_leaf s' uv va = uvm_leaf s uv va"
  shows "confined live K s' uv"
  using confinedI [OF assms(1)] init_proc_user_pages [OF assms(2,4)] growsD(3) [OF assms(3)] by blast

lemma confined_dealloc:
  assumes "confined live K s uv"
    "unmapped hwf live (pt_root (uvm_pagetable uv)) True base n s s'"
  shows "confined live K s' (uv\<lparr>uvm_size := sz\<rparr>)"
proof (rule confinedI [OF assms(1)])
  note u = unmappedD [OF assms(2)]
  show "user_pages (uvm_leaf s' (uv\<lparr>uvm_size := sz\<rparr>)) \<subseteq> user_pages (uvm_leaf s uv) \<union> - live (heap_st s)"
    using u(4) by (auto simp: user_pages_def user_words_def as_unmap_def split: if_splits)
  show "live (heap_st s) - user_pages (uvm_leaf s uv) \<subseteq> live (heap_st s')"
    using u(5) by (auto simp: released_def user_pages_def user_words_def)
qed

lemma dealloc_step:
  assumes "platform E hwf live lo hi" "uvm_ok hwf live s uv" "confined live K s uv"
    "Uvm_dealloc E uv sz s = Inr ((r, uv'), s')" "sz \<le> uvm_size uv"
  shows "uvm_ok hwf live s' uv' \<and> confined live K s' uv'"
proof (cases "page_aligned sz")
  case True
  from assms(1,2) True assms(5) show ?thesis
  proof (rule platform.Uvm_dealloc_correct)
    fix s''
    assume d: "Uvm_dealloc E uv sz s = Inr ((Ok (), uv\<lparr>uvm_size := sz\<rparr>), s'')"
      "uvm_ok hwf live s'' (uv\<lparr>uvm_size := sz\<rparr>)"
      "unmapped hwf live (pt_root (uvm_pagetable uv)) True (USER_START + sz) (unat (uvm_size uv) - unat sz) s s''"
    show ?thesis using d assms(4) confined_dealloc [OF assms(3) d(3)] by simp
  qed
next
  case False
  then have "s' = s \<and> uv' = uv" using assms(4) by (simp add: Uvm_dealloc_def is_multiple_of_page PAGESIZE_num)
  then show ?thesis using assms(2,3) by simp
qed

lemma init_proc_step:
  assumes "platform E hwf live lo hi" "uvm_ok hwf live s uv" "confined live K s uv"
    "Uvm_init_proc E uv tf s = Inr (r, s')" "page_aligned tf" "unat tf + 4096 < 2 ^ 32"
    "page_aligned (sym_trampoline E)" "unat (sym_trampoline E) + 4096 < 2 ^ 32"
  shows "uvm_ok hwf live s' uv \<and> confined live K s' uv"
  using assms(1,2,7,8,5,6)
proof (rule platform.Uvm_init_proc_correct)
  fix res s''
  assume i: "Uvm_init_proc E uv tf s = Inr (res, s'')" "grows hwf live (pt_root (uvm_pagetable uv)) s s''"
    "uvm_ok hwf live s'' uv" "\<And>va. \<not> kernel_page (page_of va) \<Longrightarrow> uvm_leaf s'' uv va = uvm_leaf s uv va"
  show ?thesis using i(1,3) assms(4) confined_init_proc [OF assms(3) i(3,2,4)] by simp
qed

lemma confined_clone:
  assumes "platform E hwf live lo hi" "uvm_ok hwf live s uv" "confined live K s uv"
    "Uvm_clone E uv s = Inr (vm, s')" "\<And>va. in_range (uvm_begin uv) (unat (uvm_size uv)) va \<Longrightarrow>
      leaf_addr (mem s) (pt_root (uvm_pagetable uv)) va \<noteq> None"
  shows "(uvm_ok hwf live s' uv \<and> confined live K s' uv) \<and> (uvm_ok hwf live s' vm \<and> confined live K s' vm)"
  using assms(1,2,5)
proof (rule platform.Uvm_clone_correct)
  fix msg assume "Uvm_clone E uv s = Inl (Panic msg)"
  then show ?thesis using assms(4) by simp
next
  fix vm' s''
  assume "Uvm_clone E uv s = Inr (vm', s'')" "forked hwf live s uv s'' vm' (unat (uvm_size uv))"
  then have "forked hwf live s uv s' vm (unat (uvm_size uv))" using assms(4) by simp
  note f = forkedD [OF this, unfolded child_pages_def]
  have "user_pages (uvm_leaf s' vm) \<subseteq> user_pages (uvm_leaf s uv) \<union> - live (heap_st s)"
    "user_pages (uvm_leaf s' uv) \<subseteq> user_pages (uvm_leaf s uv) \<union> - live (heap_st s)"
    "live (heap_st s) - user_pages (uvm_leaf s uv) \<subseteq> live (heap_st s')"
    using f(2,6,7) by auto
  then show ?thesis using f(1,4) confinedI [OF assms(3)] by blast
qed

lemma uvm_step_confined:
  assumes "platform E hwf live lo hi" "uvm_step E p p'" "uvm_ok hwf live (fst p) (snd p)" "confined live K (fst p) (snd p)"
  shows "uvm_ok hwf live (fst p') (snd p') \<and> confined live K (fst p') (snd p')"
  using assms(2)
proof cases
  case (alloc uv sz perm s r uv' s')
  have ok: "uvm_ok hwf live s uv" "confined live K s uv" using assms(3,4) alloc by simp_all
  have "uvm_grown hwf live perm uv s uv' s'"
    using platform.Uvm_alloc_correct [OF assms(1) ok(1) alloc(5,4)] alloc(3) by auto
  then show ?thesis using confined_grown [OF ok] alloc(1,2,4) by simp
next
  case (guard uv s r uv' s')
  have ok: "uvm_ok hwf live s uv" "confined live K s uv" using assms(3,4) guard by simp_all
  have "uvm_grown hwf live 0 uv s uv' s'"
    using Uvm_grow_guard [OF ok(1) guard(4), of E] uvm_guard_added [OF ok(1) guard(4)]
      guard(3) by simp
  then show ?thesis using confined_grown [OF ok] guard(1,2) by simp
next
  case (dealloc uv sz s r uv' s')
  have ok: "uvm_ok hwf live s uv" "confined live K s uv" using assms(3,4) dealloc by simp_all
  show ?thesis using dealloc_step [OF assms(1) ok dealloc(3,4)] dealloc(1,2) by simp
next
  case (init_proc uv tf s r s')
  have ok: "uvm_ok hwf live s uv" "confined live K s uv" using assms(3,4) init_proc by simp_all
  show ?thesis using init_proc_step [OF assms(1) ok init_proc(3-7)] init_proc(1,2) by simp
next
  case (clone_parent uv s vm s')
  then show ?thesis using confined_clone [OF assms(1) _ _ clone_parent(3,4), of K] assms(3,4) by simp
next
  case (clone_child uv s vm s')
  then show ?thesis using confined_clone [OF assms(1) _ _ clone_child(3,4), of K] assms(3,4) by simp
next
  case (load uv va img len s r s' n)
  have ok: "uvm_ok hwf live s uv" "confined live K s uv" using assms(3,4) load by simp_all
  from ok(1) load(4-9) show ?thesis
  proof (rule Uvm_load_correct)
    fix m
    assume l: "Uvm_load E uv va (img, len) s = Inr (Ok (), s\<lparr>mem := m\<rparr>)" "uvm_ok hwf live (s\<lparr>mem := m\<rparr>) uv"
      "leaf m (pt_root (uvm_pagetable uv)) = uvm_leaf s uv"
    show ?thesis using l(1,2) load(1-3) confined_writes [OF ok(2), of m] l(3) by simp
  qed
next
  case (copy_out uv addr data s r s' w)
  have ok: "uvm_ok hwf live s uv" "confined live K s uv" using assms(3,4) copy_out by simp_all
  show ?thesis
    using copied_bytes [OF ok copy_out(4-6)] copy_out_bytes(1) [OF ok(1) copy_out(4-6), of E] copy_out(1-3) by simp
next
  case (user_store s uv va pa b)
  have ok: "uvm_ok hwf live s uv" "confined live K s uv" using assms(3,4) user_store by simp_all
  obtain w where w: "in_range (uvm_begin uv) (unat (uvm_size uv)) va" "uvm_leaf s uv va = Some w"
    "s\<lparr>mem := (mem s)(pa := b)\<rparr> = s\<lparr>mem := write_list repr_u8 (pte_page w + va mod 4096) [b] (mem s)\<rparr>"
    by (rule user_store_copy [OF ok(1) user_store(3)])
  then show ?thesis using copied_bytes [OF ok w(1,2), of "[b]"] user_store(1,2) offset_bound [of va] by simp
qed

lemma uvm_steps_confined:
  assumes "platform E hwf live lo hi" "(uvm_step E)\<^sup>*\<^sup>* p p'" "uvm_ok hwf live (fst p) (snd p)"
    "confined live K (fst p) (snd p)"
  shows "uvm_ok hwf live (fst p') (snd p') \<and> confined live K (fst p') (snd p')"
  using assms(2)
proof (induction rule: rtranclp_induct)
  case base
  then show ?case using assms(3,4) by simp
next
  case (step q q')
  then show ?case using uvm_step_confined [OF assms(1)] by blast
qed

section \<open>Isolation\<close>



end
