(* ===== verification/ProcMem.thy ===== *)
theory ProcMem
  imports System UvmLife
begin

text \<open>
  The memory of the processes. Every slot of the process table owns the pages of its page table,
  its user pages and the page of its trapframe; \<open>procs_ok\<close> says that these are in use and that no
  page belongs to two slots. \<open>touches\<close> bounds what an operation does to pages in use, so that the
  slots it does not work on are framed at once.
\<close>

section \<open>Fields of a trapframe\<close>

lemma index_of_inj: "x \<in> set xs \<Longrightarrow> index_of x xs = index_of y xs \<Longrightarrow> x = y"
  by (induction xs) (auto split: if_splits)

lemma index_of_less: "x \<in> set xs \<Longrightarrow> index_of x xs < length xs"
  by (induction xs) auto

lemma tf_field_in: "f \<in> set tf_fields"
  by (cases f) (simp_all add: tf_fields_def)

lemma tf_index: "index_of f tf_fields < 36"
  using index_of_less [OF tf_field_in [of f]] by (simp add: tf_fields_def)

lemma tf_offset_inj: "tf_offset f = tf_offset g \<longleftrightarrow> f = g"
proof
  assume "tf_offset f = tf_offset g"
  then have "index_of f tf_fields = index_of g tf_fields"
    using tf_index [of f] tf_index [of g] by (simp add: tf_offset_def word_unat_eq_iff unat_word_ariths unat_of_nat)
  then show "f = g" by (rule index_of_inj [OF tf_field_in])
qed simp

lemma word_aligned_field: "word_aligned tf \<Longrightarrow> word_aligned (tf + tf_offset h)"
  using tf_offs_aligned [of "tf_offset h"] tf_field_in by (intro word_aligned_plus) (auto simp: tf_offs_def)

lemma tf_get_set:
  assumes "word_aligned tf"
  shows "tf_get (tf_set m tf g v) tf f = (if f = g then v else tf_get m tf f)"
  using word_aligned_field [OF assms]
  by (simp add: tf_get_def tf_set_def load32_store32_same load32_store32_other tf_offset_inj)

text \<open>A field lies on the page of the trapframe.\<close>

lemma tf_offset_bound: "unat (tf_offset f) < 4096"
  using tf_index [of f] by (simp add: tf_offset_def unat_word_ariths unat_of_nat)

lemma tf_set_same_page: "page_aligned tf \<Longrightarrow> q \<noteq> tf \<Longrightarrow> same_page m (tf_set m tf f v) q"
  unfolding tf_set_def
  using word_aligned_field [OF page_aligned_imp_word_aligned] page_of_plus [OF _ tf_offset_bound]
  by (intro same_page_store32) auto

lemma tf_get_same_page: "page_aligned tf \<Longrightarrow> same_page m m' tf \<Longrightarrow> tf_get m' tf f = tf_get m tf f"
  unfolding tf_get_def
  using word_aligned_field [OF page_aligned_imp_word_aligned] page_of_plus [OF _ tf_offset_bound]
  by (intro load32_same_page) auto

text \<open>Writing a whole trapframe.\<close>

lemma fold_tf_set:
  assumes "page_aligned tf"
  shows "tf_get (fold (\<lambda>f m. tf_set m tf f (v f)) fs m) tf g = (if g \<in> set fs then v g else tf_get m tf g)"
    "q \<noteq> tf \<Longrightarrow> same_page m (fold (\<lambda>f m. tf_set m tf f (v f)) fs m) q"
proof (induction fs arbitrary: m)
  case (Cons f fs)
  {
    case 1
    then show ?case using Cons.IH(1) by (simp add: tf_get_set [OF page_aligned_imp_word_aligned [OF assms]])
  next
    case 2
    then show ?case using same_page_trans [OF tf_set_same_page [OF assms] Cons.IH(2)] by simp
  }
qed simp_all

lemma Trapframe_write:
  assumes "page_aligned tf"
  shows "tf_get (Trapframe_write m tf v) tf f = v f" "q \<noteq> tf \<Longrightarrow> same_page m (Trapframe_write m tf v) q"
  using fold_tf_set [OF assms] tf_field_in [of f] unfolding Trapframe_write_def by simp_all

section \<open>What an operation touches\<close>

text \<open>Pages in use outside \<open>P\<close> stay in use and keep their contents.\<close>

definition touches :: "('h \<Rightarrow> usize set) \<Rightarrow> usize set \<Rightarrow> ('h, 'z) machine_scheme \<Rightarrow> ('h, 'z) machine_scheme \<Rightarrow> bool" where
  "touches live P s s' \<longleftrightarrow> (\<forall>q \<in> live (heap_st s) - P. q \<in> live (heap_st s') \<and> same_page (mem s) (mem s') q)"

lemma touches_refl [simp]: "touches live P s s"
  by (simp add: touches_def)

lemma touches_eq: "mem s' = mem s \<Longrightarrow> heap_st s' = heap_st s \<Longrightarrow> touches live P s s'"
  by (simp add: touches_def)

lemma touches_mono: "touches live P s s' \<Longrightarrow> P \<inter> live (heap_st s) \<subseteq> Q \<Longrightarrow> touches live Q s s'"
  by (auto simp: touches_def)

lemma touches_trans:
  assumes "touches live P s s'" "touches live Q s' s''" "Q \<inter> live (heap_st s) \<subseteq> P"
  shows "touches live P s s''"
  using assms same_page_trans unfolding touches_def by blast

lemma touchesD:
  assumes "touches live P s s'" "A \<subseteq> live (heap_st s)" "A \<inter> P = {}"
  shows "A \<subseteq> live (heap_st s')" "q \<in> A \<Longrightarrow> same_page (mem s) (mem s') q"
  using assms unfolding touches_def by blast+

section \<open>Slots\<close>

abbreviation uvm_pages :: "('h, 'z) machine_scheme \<Rightarrow> Uvm \<Rightarrow> usize set" where
  "uvm_pages s uv \<equiv> child_pages s uv"

lemma uvm_ok_cong:
  assumes "uvm_ok hwf live s uv" "mem s' = mem s" "heap_st s' = heap_st s" "heap_ready s'"
  shows "uvm_ok hwf live s' uv"
  using assms by (simp add: uvm_ok_def owned_def table_ok_def)

text \<open>An address space is framed by what touches none of its pages.\<close>

lemma uvm_frame:
  assumes "uvm_ok hwf live s uv" "touches live P s s'" "uvm_pages s uv \<inter> P = {}" "heap_ready s'" "hwf (heap_st s')"
  shows "uvm_ok hwf live s' uv" "uvm_leaf s' uv = uvm_leaf s uv" "uvm_pages s' uv = uvm_pages s uv"
    "in_range (uvm_begin uv) (unat (uvm_size uv)) va \<Longrightarrow> user_view s' uv va = user_view s uv va"
proof -
  let ?t = "s\<lparr>mem := mem s', heap_st := heap_st s'\<rparr>"
  have used: "uvm_pages s uv \<subseteq> live (heap_st s)"
    using uvm_pages_live(1,2) [OF assms(1)] by (simp add: child_pages_def)
  note t = touchesD [OF assms(2) used assms(3)]
  have sp: "same_page (mem s) (mem ?t) q" if "q \<in> uvm_frames s uv" for q
    using that t(2) by (simp add: child_pages_def)
  have lv: "uvm_frames s uv \<union> user_pages (uvm_leaf s uv) \<subseteq> live (heap_st ?t)"
    using t(1) by (simp add: child_pages_def)
  have "same_rest s ?t" "hwf (heap_st ?t)" using assms(5) by (simp_all add: same_rest_def)
  note u = uvm_ok_transfer [OF assms(1) this sp lv]
  show "uvm_ok hwf live s' uv" by (rule uvm_ok_cong [OF u(1)]) (simp_all add: assms(4))
  show lf: "uvm_leaf s' uv = uvm_leaf s uv" using u(2) by simp
  show "uvm_pages s' uv = uvm_pages s uv" using u(2,3) by (simp add: child_pages_def)
  show "user_view s' uv va = user_view s uv va" if "in_range (uvm_begin uv) (unat (uvm_size uv)) va"
  proof (cases "uvm_leaf s uv va")
    case (Some w)
    have "pte_page w \<in> uvm_pages s uv" using parent_leaf_user(4) [OF assms(1) that Some] by (simp add: child_pages_def)
    then have "same_page (mem s) (mem s') (pte_page w)" by (rule t(2))
    then show ?thesis
      using page_of_plus [OF page_aligned_pte_page offset_bound, of w va] lf Some by (simp add: user_view_def same_page_def)
  qed (simp add: user_view_def lf)
qed

text \<open>The pages of a slot.\<close>

definition slot_pages :: "('h, 'z) machine_scheme \<Rightarrow> Process \<Rightarrow> usize set" where
  "slot_pages s p = insert (p_trapframe p) (uvm_pages s (p_pagetable p))"

definition slot_ok :: "('h \<Rightarrow> bool) \<Rightarrow> ('h \<Rightarrow> usize set) \<Rightarrow> ('h, 'z) machine_scheme \<Rightarrow> Process \<Rightarrow> bool" where
  "slot_ok hwf live s p \<longleftrightarrow> uvm_ok hwf live s (p_pagetable p) \<and> p_trapframe p \<in> live (heap_st s) \<and>
     p_trapframe p \<notin> uvm_pages s (p_pagetable p) \<and> unat (p_kstack p) + 8192 < 2 ^ 32"

definition procs_ok :: "('h \<Rightarrow> bool) \<Rightarrow> ('h \<Rightarrow> usize set) \<Rightarrow> ('h, 'z) kstate_scheme \<Rightarrow> bool" where
  "procs_ok hwf live s \<longleftrightarrow> heap_ready s \<and> hwf (heap_st s) \<and>
     (\<forall>j < length (k_table s). slot_ok hwf live s (k_table s ! j)) \<and>
     (\<forall>j < length (k_table s). \<forall>k < length (k_table s). j \<noteq> k \<longrightarrow>
       slot_pages s (k_table s ! j) \<inter> slot_pages s (k_table s ! k) = {})"

lemma slot_okD:
  assumes "slot_ok hwf live s p"
  shows "uvm_ok hwf live s (p_pagetable p)" "p_trapframe p \<in> live (heap_st s)"
    "p_trapframe p \<notin> uvm_pages s (p_pagetable p)" "slot_pages s p \<subseteq> live (heap_st s)"
    "unat (p_kstack p) + 8192 < 2 ^ 32"
  using assms uvm_pages_live(1,2) [of hwf live s "p_pagetable p"]
  by (auto simp: slot_ok_def slot_pages_def child_pages_def)

lemma procs_okD:
  assumes "procs_ok hwf live s"
  shows "heap_ready s" "hwf (heap_st s)" "j < length (k_table s) \<Longrightarrow> slot_ok hwf live s (k_table s ! j)"
    "j < length (k_table s) \<Longrightarrow> k < length (k_table s) \<Longrightarrow> j \<noteq> k \<Longrightarrow>
      slot_pages s (k_table s ! j) \<inter> slot_pages s (k_table s ! k) = {}"
  using assms by (auto simp: procs_ok_def)

lemma slot_frame:
  assumes "slot_ok hwf live s p" "touches live P s s'" "slot_pages s p \<inter> P = {}" "heap_ready s'" "hwf (heap_st s')"
  shows "slot_ok hwf live s' p" "slot_pages s' p = slot_pages s p"
proof -
  note p = slot_okD [OF assms(1)]
  have "uvm_pages s (p_pagetable p) \<inter> P = {}" "p_trapframe p \<notin> P" using assms(3) by (auto simp: slot_pages_def)
  note u = uvm_frame [OF p(1) assms(2) this(1) assms(4,5)]
  show "slot_ok hwf live s' p" "slot_pages s' p = slot_pages s p"
    using u p touchesD(1) [OF assms(2) p(4) assms(3)] by (auto simp: slot_ok_def slot_pages_def)
qed

text \<open>Nothing but memory, the heap and three fields of each process matters.\<close>

definition core_fields :: "Process \<Rightarrow> Uvm \<times> usize \<times> usize" where
  "core_fields p = (p_pagetable p, p_trapframe p, p_kstack p)"

lemma slot_core:
  assumes "core_fields q = core_fields p" "mem s' = mem s" "heap_st s' = heap_st s" "heap_ready s'"
  shows "slot_ok hwf live s p \<Longrightarrow> slot_ok hwf live s' q" "slot_pages s' q = slot_pages s p"
proof -
  show p: "slot_pages s' q = slot_pages s p"
    using assms(1,2) by (simp add: core_fields_def slot_pages_def child_pages_def)
  show "slot_ok hwf live s' q" if "slot_ok hwf live s p"
    using that assms uvm_ok_cong [OF slot_okD(1) [OF that] assms(2-4)]
    by (simp add: slot_ok_def core_fields_def child_pages_def)
qed

lemma procs_ok_cong:
  assumes "procs_ok hwf live s" "map core_fields (k_table s') = map core_fields (k_table s)"
    "mem s' = mem s" "heap_st s' = heap_st s" "heap_ready s'"
  shows "procs_ok hwf live s'"
proof -
  have len: "length (k_table s') = length (k_table s)" using map_eq_imp_length_eq [OF assms(2)] .
  have core: "core_fields (k_table s' ! j) = core_fields (k_table s ! j)" if "j < length (k_table s)" for j
    using arg_cong [OF assms(2), of "\<lambda>xs. xs ! j"] that len by simp
  show ?thesis
    using procs_okD [OF assms(1)] slot_core [OF core assms(3-5)] len assms(4,5) by (auto simp: procs_ok_def)
qed

text \<open>An operation on one slot, which uses only pages of that slot and free ones.\<close>

lemma procs_ok_replace:
  assumes "procs_ok hwf live s" "c < length (k_table s)" "touches live (slot_pages s (k_table s ! c)) s s'"
    "k_table s' = (k_table s)[c := q]" "slot_ok hwf live s' q"
    "slot_pages s' q \<inter> live (heap_st s) \<subseteq> slot_pages s (k_table s ! c)" "heap_ready s'" "hwf (heap_st s')"
  shows "procs_ok hwf live s'"
proof -
  note P = procs_okD [OF assms(1)]
  have other: "slot_ok hwf live s' (k_table s ! j)" "slot_pages s' (k_table s ! j) = slot_pages s (k_table s ! j)"
    if "j < length (k_table s)" "j \<noteq> c" for j
    using slot_frame [OF P(3) [OF that(1)] assms(3) P(4) [OF that(1) assms(2) that(2)] assms(7,8)] by simp_all
  have dis: "slot_pages s' q \<inter> slot_pages s (k_table s ! j) = {}" if "j < length (k_table s)" "j \<noteq> c" for j
    using assms(6) slot_okD(4) [OF P(3) [OF that(1)]] P(4) [OF that(1) assms(2) that(2)] by blast
  have "slot_pages s' (k_table s' ! j) \<inter> slot_pages s' (k_table s' ! k) = {}"
    if jk: "j < length (k_table s)" "k < length (k_table s)" "j \<noteq> k" for j k
    using jk other(2) [OF jk(1)] other(2) [OF jk(2)] dis [OF jk(1)] dis [OF jk(2)] P(4) [OF jk] assms(2)
    by (cases "j = c"; cases "k = c") (auto simp: assms(4))
  moreover have "slot_ok hwf live s' (k_table s' ! j)" if "j < length (k_table s)" for j
    using that other(1) assms(2,5) by (cases "j = c") (auto simp: assms(4))
  ultimately show ?thesis using assms(7,8) by (simp add: procs_ok_def assms(4))
qed

text \<open>Writing a field of a trapframe.\<close>

lemma procs_ok_trapframe_set:
  assumes "procs_ok hwf live s" "j < length (k_table s)" "page_aligned (p_trapframe (k_table s ! j))"
  shows "procs_ok hwf live (trapframe_set j f v s)"
proof -
  let ?tf = "p_trapframe (k_table s ! j)" and ?s = "trapframe_set j f v s"
  note P = procs_okD [OF assms(1)]
  have t: "touches live {?tf} s ?s"
    using tf_set_same_page [OF assms(3)] by (auto simp: touches_def trapframe_set_def)
  have r: "heap_ready ?s" "hwf (heap_st ?s)" using P(1,2) by (simp_all add: trapframe_set_def)
  have "uvm_pages s (p_pagetable (k_table s ! k)) \<inter> {?tf} = {}" if "k < length (k_table s)" for k
    using slot_okD(3) [OF P(3) [OF assms(2)]] P(4) [OF assms(2) that] by (cases "j = k") (auto simp: slot_pages_def)
  note u = uvm_frame [OF slot_okD(1) [OF P(3)] t this r]
  have "slot_pages ?s (k_table s ! k) = slot_pages s (k_table s ! k)" "slot_ok hwf live ?s (k_table s ! k)" if "k < length (k_table s)" for k
    using u(1,3) [OF that that] slot_okD [OF P(3) [OF that]] by (simp_all add: slot_pages_def slot_ok_def trapframe_set_def)
  then show ?thesis using P r by (simp add: procs_ok_def) (simp add: trapframe_set_def)
qed

section \<open>Page supply\<close>

text \<open>A page that is given back leaves at least as many pages to take.\<close>

locale page_supply = platform E hwf live lo hi
  for E :: "'h env" and hwf :: "'h \<Rightarrow> bool" and live :: "'h \<Rightarrow> usize set" and lo :: usize and hi :: usize +
  assumes dealloc_takes: "hwf h \<Longrightarrow> a \<in> live h \<Longrightarrow> takes E n h \<noteq> None \<Longrightarrow>
      takes E n (bh_dealloc E h a PAGE_LAYOUT) \<noteq> None"

lemma fl_dealloc: "bh_dealloc fl_env h a l = a # h"
  by (simp add: fl_env_def)

interpretation fl_supply: page_supply fl_env fl_wf fl_live "0x80300000" RAMEND
  by unfold_locales (simp add: fl_takes fl_dealloc split: if_splits)

lemma takes_served:
  assumes "served E m h True h'" "takes E (m + n) h \<noteq> None"
  shows "takes E n h' \<noteq> None"
  using served_trans [OF assms(1), of n False h'] assms(2) by (auto simp: served_def)

section \<open>Trapframes\<close>

context page_supply
begin

lemma Box_new_in_ok:
  assumes "heap_ready s" "hwf (heap_st s)" "takes E (Suc n) (heap_st s) \<noteq> None"
  obtains p s' where "Box_new_in E tf s = Inr (p, s')" "p \<notin> live (heap_st s)" "live (heap_st s') = insert p (live (heap_st s))"
    "page_aligned p" "hwf (heap_st s')" "same_rest s s'" "\<forall>f. tf_get (mem s') p f = tf f" "touches live {} s s'"
    "takes E n (heap_st s') \<noteq> None"
  using assms(1,2)
proof (cases rule: page_alloc_cases)
  case (oom h)
  then show ?thesis using assms(3) by simp
next
  case (page a h)
  let ?s = "(refresh_prev s)\<lparr>heap_st := h, mem := Trapframe_write (mem s) a tf\<rparr>"
  have t: "takes E n h \<noteq> None" using assms(3) page(2) by simp
  have "Box_new_in E tf s = Inr (a, ?s)"
    using page(1,3) by (simp add: Box_new_in_def FrameAllocator_allocate_def TF_LAYOUT_def PAGESIZE_num)
  moreover have "touches live {} s ?s"
    unfolding touches_def
  proof
    fix q assume "q \<in> live (heap_st s) - {}"
    then have "q \<noteq> a" "q \<in> live h" using page(7,8) by auto
    then show "q \<in> live (heap_st ?s) \<and> same_page (mem s) (mem ?s) q" using Trapframe_write(2) [OF page(4)] by simp
  qed
  ultimately show ?thesis
    using page t Trapframe_write(1) [OF page(4)] by (intro that [of a ?s]) (simp_all add: same_rest_def)
qed

lemma Box_drop_ok:
  assumes "heap_ready s" "hwf (heap_st s)" "p \<in> live (heap_st s)"
  obtains s' where "Box_drop E p s = Inr ((), s')" "live (heap_st s') = live (heap_st s) - {p}" "hwf (heap_st s')"
    "same_rest s s'" "mem s' = mem s" "\<And>n. takes E n (heap_st s) \<noteq> None \<Longrightarrow> takes E n (heap_st s') \<noteq> None"
proof -
  let ?s = "(refresh_prev s)\<lparr>heap_st := bh_dealloc E (heap_st s) p PAGE_LAYOUT\<rparr>"
  have "Box_drop E p s = Inr ((), ?s)"
    using LockedHeap_dealloc_eq [OF spin assms(1)] live_pages [OF assms(2,3)]
    by (simp add: Box_drop_def FrameAllocator_deallocate_def)
  then show thesis
    using dealloc_live [OF assms(2,3)] dealloc_takes [OF assms(2,3)] by (intro that [of ?s]) (simp_all add: same_rest_def)
qed

lemma set_trapframe_ok:
  assumes "heap_ready s" "hwf (heap_st s)" "takes E (Suc n) (heap_st s) \<noteq> None" "c < length (k_table s)"
    "p_trapframe (k_table s ! c) \<in> live (heap_st s)"
  obtains p s' where "set_trapframe E c tf s = Inr s'" "p \<notin> live (heap_st s)"
    "live (heap_st s') = insert p (live (heap_st s)) - {p_trapframe (k_table s ! c)}" "page_aligned p" "hwf (heap_st s')"
    "same_rest (upd_proc c (\<lambda>q. q\<lparr>p_trapframe := p\<rparr>) s) s'" "heap_ready s'" "\<forall>f. tf_get (mem s') p f = tf f"
    "touches live {p_trapframe (k_table s ! c)} s s'" "takes E n (heap_st s') \<noteq> None"
proof -
  let ?old = "p_trapframe (k_table s ! c)"
  obtain p s1 where b: "Box_new_in E tf s = Inr (p, s1)" "p \<notin> live (heap_st s)" "live (heap_st s1) = insert p (live (heap_st s))"
    "page_aligned p" "hwf (heap_st s1)" "same_rest s s1" "\<forall>f. tf_get (mem s1) p f = tf f" "touches live {} s s1"
    "takes E n (heap_st s1) \<noteq> None" by (rule Box_new_in_ok [OF assms(1-3), of tf])
  have tab: "k_table s1 = k_table s" using same_rest_kernel [OF b(6)] by simp
  have r1: "heap_ready s1" by (rule heap_ready_same_rest [OF assms(1) b(6)])
  obtain s2 where d: "Box_drop E ?old s1 = Inr ((), s2)" "live (heap_st s2) = live (heap_st s1) - {?old}" "hwf (heap_st s2)"
    "same_rest s1 s2" "mem s2 = mem s1" "takes E n (heap_st s2) \<noteq> None"
    using Box_drop_ok [OF r1 b(5), of ?old] b(3,9) assms(5) by (metis insertI2)
  let ?s = "upd_proc c (\<lambda>q. q\<lparr>p_trapframe := p\<rparr>) s2"
  have "set_trapframe E c tf s = Inr ?s" using b(1) d(1) tab by (simp add: set_trapframe_def)
  moreover have "same_rest (upd_proc c (\<lambda>q. q\<lparr>p_trapframe := p\<rparr>) s) ?s"
    using same_rest_upd_proc [OF same_rest_trans [OF b(6) d(4)]] by blast
  moreover have "heap_ready ?s" using heap_ready_same_rest [OF r1 d(4)] by (simp add: heap_ready_def)
  moreover have "touches live {?old} s ?s"
    using b(3,8) d(2,5) by (auto simp: touches_def)
  moreover have "\<forall>f. tf_get (mem ?s) p f = tf f" using b(7) d(5) by simp
  moreover have "live (heap_st ?s) = insert p (live (heap_st s)) - {?old}" "hwf (heap_st ?s)" "takes E n (heap_st ?s) \<noteq> None"
    using b(3) d(2,3,6) by simp_all
  ultimately show thesis using b(2,4) that [of ?s p] by blast
qed

lemma set_pagetable_ok:
  assumes "c < length (k_table s)" "uvm_ok hwf live s (p_pagetable (k_table s ! c))"
  obtains s' where "set_pagetable E c uvm s = Inr s'" "hwf (heap_st s')" "heap_ready s'"
    "same_rest (upd_proc c (\<lambda>q. q\<lparr>p_pagetable := uvm\<rparr>) s) s'"
    "touches live (uvm_pages s (p_pagetable (k_table s ! c))) s s'"
    "live (heap_st s') \<subseteq> live (heap_st s)"
proof -
  let ?uv = "p_pagetable (k_table s ! c)"
  obtain s1 where d: "Uvm_drop E ?uv s = Inr ((), s1)" "hwf (heap_st s1)" "same_rest s s1"
    "live (heap_st s1) = live (heap_st s) - user_pages (uvm_leaf s ?uv) - {pt_root (uvm_pagetable ?uv)}"
    "\<And>q. q \<notin> uvm_frames s ?uv \<Longrightarrow> same_page (mem s) (mem s1) q"
    using Uvm_drop_correct [OF assms(2)] by blast
  let ?s = "upd_proc c (\<lambda>q. q\<lparr>p_pagetable := uvm\<rparr>) s1"
  have "heap_ready ?s" using heap_ready_same_rest [OF uvm_okD(3) [OF assms(2)] d(3)] by (simp add: heap_ready_def)
  moreover have "touches live (uvm_pages s ?uv) s ?s"
    using d(4,5) root_in_frames [of "pt_root (uvm_pagetable ?uv)" "mem s"] by (auto simp: touches_def child_pages_def)
  ultimately show thesis
    using d same_rest_upd_proc [OF d(3)] by (intro that [of ?s]) (auto simp: set_pagetable_def)
qed

end

end
