(* ===== verification/KernelProps.thy ===== *)
theory KernelProps
  imports SystemProps ProcMem
begin

text \<open>
  Properties of the layers below and around the process layer: the assembly routines, the return
  to user mode, console output, locks, the encodings of page table entries, kernel stacks, strings
  from user memory, and the failing system calls.
\<close>

section \<open>Assembly routines\<close>

text \<open>Without paging, every aligned address is a window onto itself.\<close>

lemma window_bare:
  assumes "\<not> bit satp 31" "word_aligned va" "\<forall>off \<in> S. word_aligned off"
  shows "window satp m va va S"
  using assms word_aligned_plus by (auto simp: window_def translate_def)

definition demo_core :: core where
  "demo_core = \<lparr>xreg = (\<lambda>r. if r = R_sp then 0x80340000 else if r = R_a1 then 0x80350000 else 7),
     core_mem = (\<lambda>_. 0), core_csrs = (\<lambda>_. 0)\<rparr>"

lemma demo_core_simps [simp]:
  "get_reg demo_core R_sp = 0x80340000" "get_reg demo_core R_a1 = 0x80350000" "get_reg demo_core R_a0 = 7"
  "get_reg demo_core R_s3 = 7" "core_csrs demo_core = (\<lambda>_. 0)" "core_mem demo_core = (\<lambda>_. 0)"
  by (simp_all add: demo_core_def get_reg_def)

lemma read_zero [simp]: "read_csr (\<lambda>_. 0) r = 0"
  by (simp add: read_csr_def)

lemma demo_tf_window: "window 0 m TRAPFRAME TRAPFRAME tf_offs"
  using tf_offs_aligned by (intro window_bare) (simp_all add: TRAPFRAME_num word_aligned_iff_dvd [of "0xffffd000"])

text \<open>
  C28. A trap from user mode. With the trapframe page mapped at \<open>TRAPFRAME\<close>, \<open>uservec\<close> never
  faults. It calls the trap handler named in the trapframe on the kernel's page table and stack,
  with every user register in its field of the trapframe; the fields of the kernel and all memory
  outside the trapframe are unchanged.
\<close>

theorem uservec_enters_kernel:
  assumes "window (core_satp c) (core_mem c) TRAPFRAME tf tf_offs"
  shows "\<exists>c'. exec link uservec c = Some (tf_get (core_mem c) tf trap_handler, c') \<and>
    (\<forall>f \<in> set user_fields. tf_get (core_mem c') tf f = get_reg c (tf_reg f)) \<and>
    (\<forall>f \<in> {kernel_satp, kernel_sp, trap_handler, epc, hartid}. tf_get (core_mem c') tf f = tf_get (core_mem c) tf f) \<and>
    (\<forall>a. 144 \<le> unat (a - tf) \<longrightarrow> core_mem c' a = core_mem c a) \<and>
    core_csrs c' = write_csr (write_csr (core_csrs c) Csr_sscratch (get_reg c R_a0)) Csr_satp
      (tf_get (core_mem c) tf kernel_satp) \<and>
    get_reg c' R_sp = tf_get (core_mem c) tf kernel_sp \<and> get_reg c' R_tp = tf_get (core_mem c) tf hartid \<and>
    get_reg c' R_ra = link"
  using uservec_saves [OF assms] .

theorem uservec_enters_kernel_witness:
  "\<exists>c'. exec 0x40 uservec demo_core = Some (0, c') \<and> tf_get (core_mem c') TRAPFRAME tf_a0 = 7 \<and>
    tf_get (core_mem c') TRAPFRAME tf_s3 = 7 \<and> get_reg c' R_ra = 0x40"
proof -
  have w: "window (core_satp demo_core) (core_mem demo_core) TRAPFRAME TRAPFRAME tf_offs"
    using demo_tf_window by simp
  obtain c' where c': "exec 0x40 uservec demo_core = Some (tf_get (core_mem demo_core) TRAPFRAME trap_handler, c')"
    "\<forall>f \<in> set user_fields. tf_get (core_mem c') TRAPFRAME f = get_reg demo_core (tf_reg f)" "get_reg c' R_ra = 0x40"
    using uservec_enters_kernel [OF w, of "0x40"] by blast
  have "tf_a0 \<in> set user_fields" "tf_s3 \<in> set user_fields" by (simp_all add: user_fields_def tf_fields_def)
  then have "tf_get (core_mem c') TRAPFRAME tf_a0 = 7" "tf_get (core_mem c') TRAPFRAME tf_s3 = 7" using c'(2) by auto
  moreover have "tf_get (core_mem demo_core) TRAPFRAME trap_handler = 0" by (simp add: tf_get_def load32_def)
  ultimately show ?thesis using c' by auto
qed

text \<open>
  C7. User registers survive a trap. Whatever the kernel does between the call of the handler
  and \<open>userret\<close>, if it leaves the register fields of the trapframe alone, \<open>userret\<close> returns to
  the address in \<open>sepc\<close> with every register as it was when the trap occurred.
\<close>

theorem trampoline_roundtrip:
  assumes "window (core_satp c) (core_mem c) TRAPFRAME tf tf_offs" "exec link uservec c = Some (h, c1)"
    and "\<forall>f \<in> set user_fields. tf_get (core_mem d) tf f = tf_get (core_mem c1) tf f"
    and "window (get_reg d R_a0) (core_mem d) TRAPFRAME tf tf_offs"
  shows "\<exists>d'. exec link' userret d = Some (read_csr (core_csrs d) Csr_sepc, d') \<and> (\<forall>r. get_reg d' r = get_reg c r) \<and>
    core_mem d' = core_mem d \<and> core_csrs d' = sret_csrs (write_csr (core_csrs d) Csr_satp (get_reg d R_a0))"
proof -
  have saved: "tf_get (core_mem c1) tf f = get_reg c (tf_reg f)" if "f \<in> set user_fields" for f
    using uservec_saves [OF assms(1), of link] assms(2) that by auto
  obtain d' where d': "exec link' userret d = Some (read_csr (core_csrs d) Csr_sepc, d')"
    "\<forall>f \<in> set user_fields. get_reg d' (tf_reg f) = tf_get (core_mem d) tf f" "core_mem d' = core_mem d"
    "core_csrs d' = sret_csrs (write_csr (core_csrs d) Csr_satp (get_reg d R_a0))"
    using userret_restores [OF assms(4), of link'] by blast
  have "get_reg d' r = get_reg c r" for r
  proof (cases "r = R_zero")
    case False
    then obtain f where "f \<in> set user_fields" "tf_reg f = r" using user_regs by blast
    then show ?thesis using d'(2) saved assms(3) by auto
  qed (simp add: get_reg_def)
  then show ?thesis using d' by blast
qed

theorem trampoline_roundtrip_witness:
  "\<exists>c1 d'. exec 0x40 uservec demo_core = Some (0, c1) \<and>
    exec 0x44 userret (set_reg R_a0 0 c1) = Some (0, d') \<and> (\<forall>r. get_reg d' r = get_reg demo_core r)"
proof -
  have w: "window (core_satp demo_core) (core_mem demo_core) TRAPFRAME TRAPFRAME tf_offs" using demo_tf_window by simp
  have "tf_get (\<lambda>_. 0) TRAPFRAME trap_handler = 0" by (simp add: tf_get_def load32_def)
  then obtain c1 where c1: "exec 0x40 uservec demo_core = Some (0, c1)" "read_csr (core_csrs c1) Csr_sepc = 0"
    using uservec_saves [OF w, of "0x40"] by auto
  have "\<exists>d'. exec 0x44 userret (set_reg R_a0 0 c1) = Some (0, d') \<and> (\<forall>r. get_reg d' r = get_reg demo_core r)"
    using trampoline_roundtrip [OF w c1(1), of "set_reg R_a0 0 c1" "0x44"] c1(2) demo_tf_window by auto
  then show ?thesis using c1(1) by blast
qed

lemma satp_of_uvm:
  assumes "page_aligned (pt_root (uvm_pagetable uv))"
  shows "bit (SATP_into (Uvm_get_satp uv)) 31" "push_bit 12 (SATP_into (Uvm_get_satp uv)) = pt_root (uvm_pagetable uv)"
proof -
  have eq: "SATP_into (Uvm_get_satp uv) = push_bit 31 1 OR drop_bit 12 (pt_root (uvm_pagetable uv))"
    by (simp add: SATP_into_def Uvm_get_satp_def)
  show "bit (SATP_into (Uvm_get_satp uv)) 31" by (simp add: eq bit_simps)
  show "push_bit 12 (SATP_into (Uvm_get_satp uv)) = pt_root (uvm_pagetable uv)"
  proof -
    have "push_bit 12 (push_bit 31 1 :: usize) = 0" by (simp only: push_bit_push_bit) (simp add: push_bit_word_beyond)
    moreover have "push_bit 12 (drop_bit 12 (pt_root (uvm_pagetable uv))) = pt_root (uvm_pagetable uv)"
    proof (rule bit_word_eqI)
      fix n assume "n < LENGTH(32)"
      then show "bit (push_bit 12 (drop_bit 12 (pt_root (uvm_pagetable uv)))) n = bit (pt_root (uvm_pagetable uv)) n"
        using page_aligned_low_bits [OF assms, of n] by (cases "n < 12") (auto simp: bit_simps)
    qed
    ultimately show ?thesis unfolding eq push_bit_or by (simp only: or.left_neutral)
  qed
qed

text \<open>
  C17. \<open>init_proc\<close> makes the trampoline work: when it returns \<open>Ok\<close> for an address space, as it does
  whenever the heap has two pages, with the trapframe on a page of its own, the page table that \<open>get_satp\<close> names is one on which
  \<open>uservec\<close> and \<open>userret\<close> find the trapframe at \<open>TRAPFRAME\<close>, and a process in user mode
  does not reach it.
\<close>

theorem init_proc_opens_trapframe:
  assumes "platform E hwf live lo hi" "uvm_ok hwf live s uv" "page_aligned (sym_trampoline E)"
    "unat (sym_trampoline E) + 4096 < 2 ^ 32" "page_aligned tf" "unat tf + 4096 < 2 ^ 32"
    and "tf \<in> live (heap_st s)" "tf \<notin> pt_frames (mem s) (pt_root (uvm_pagetable uv))"
  shows "\<exists>res s'. Uvm_init_proc E uv tf s = Inr (res, s') \<and> uvm_ok hwf live s' uv \<and>
    (res = Ok () \<longrightarrow> window (SATP_into (Uvm_get_satp uv)) (mem s') TRAPFRAME tf tf_offs \<and>
      (\<forall>acc off. unat off < 4096 \<longrightarrow>
        sv32_translate (mem s') (pt_root (uvm_pagetable uv)) acc UMode (TRAPFRAME + off) = None)) \<and>
    (takes E 2 (heap_st s) \<noteq> None \<longrightarrow> res = Ok ())"
proof -
  let ?r = "pt_root (uvm_pagetable uv)"
  obtain res s' where run: "Uvm_init_proc E uv tf s = Inr (res, s')" and g: "grows hwf live ?r s s'"
    and ok: "uvm_ok hwf live s' uv"
    and leaf: "res = Ok () \<Longrightarrow> uvm_leaf s' uv = as_map TRAPFRAME tf 4096 (PTE_R OR PTE_W)
      (as_map TRAMPOLINE (sym_trampoline E) 4096 (PTE_R OR PTE_X) (uvm_leaf s uv))"
    and sv: "served E 2 (heap_st s) (res = Ok ()) (heap_st s')"
    using platform.Uvm_init_proc_correct [OF assms(1-6)] by blast
  have wf: "pt_wf (mem s') ?r" using uvm_okD(2) [OF ok] by (rule table_okD)
  have fr: "tf \<notin> pt_frames (mem s') ?r" using growsD(4) [OF g] assms(7,8) by blast
  have al: "page_aligned TRAPFRAME" by (simp add: TRAPFRAME_num page_aligned_iff_dvd)
  have mapped: "leaf (mem s') ?r (TRAPFRAME + off) = Some (leaf_word tf (PTE_R OR PTE_W))"
    if "res = Ok ()" "unat off < 4096" for off
    using leaf [OF that(1)] page_of_plus [OF al that(2)] by (simp add: as_map_page [OF al])
  have "sv32_translate (mem s') ?r acc UMode (TRAPFRAME + off) = None" if "res = Ok ()" "unat off < 4096" for acc off
    using leaf_word_bits [OF assms(5), of 4 "PTE_R OR PTE_W"]
    by (simp add: sv32_translate_leaf [OF wf] mapped [OF that] sv32_permits_def perm_consts bit_numeral_rec)
  moreover have "window (SATP_into (Uvm_get_satp uv)) (mem s') TRAPFRAME tf tf_offs" if "res = Ok ()"
    using trapframe_window [OF wf _ assms(5) fr satp_of_uvm [OF pt_wfD(1) [OF wf]]] mapped [OF that, of 0] by simp
  ultimately show ?thesis using run ok served_enough [OF sv] by blast
qed

theorem init_proc_opens_trapframe_witness:
  "\<exists>s'. Uvm_init_proc fl_env demo_uvm 0x80410000 demo_machine = Inr (Ok (), s') \<and> uvm_ok fl_wf fl_live s' demo_uvm \<and>
    window (SATP_into (Uvm_get_satp demo_uvm)) (mem s') TRAPFRAME 0x80410000 tf_offs"
proof -
  have "page_aligned (sym_trampoline fl_env)" "unat (sym_trampoline fl_env) + 4096 < 2 ^ 32" "page_aligned 0x80410000"
    "unat (0x80410000 :: usize) + 4096 < 2 ^ 32"
    by (simp_all add: fl_env_def page_aligned_iff_dvd)
  moreover have "0x80410000 \<in> fl_live (heap_st demo_machine)"
    by (simp add: fl_live_def fl_managed_def page_aligned_iff_dvd RAMEND_num)
  moreover have "0x80410000 \<notin> pt_frames (mem demo_machine) (pt_root (uvm_pagetable demo_uvm))"
    by (simp add: demo_table)
  moreover have "takes fl_env 2 (heap_st demo_machine) \<noteq> None" by (simp add: fl_takes)
  ultimately show ?thesis
    using init_proc_opens_trapframe [OF fl.platform_axioms demo_uvm_ok, of "0x80410000"] by blast
qed

text \<open>
  C18. The context switch. \<open>switch(from, to)\<close> leaves the callee-saved registers, the stack
  pointer and the return address in \<open>from\<close> and takes them from \<open>to\<close>; a later switch back, from
  any state in which \<open>from\<close> has not been written, continues after the first switch with these
  registers as they were.
\<close>

theorem switch_roundtrip:
  assumes "switchable c from to"
  shows "\<exists>c'. exec link switch c = Some (ctx_ra (Context_read (core_mem c) to), c') \<and>
    Context_read (core_mem c') from = Context_of c \<and> Context_of c' = Context_read (core_mem c) to \<and>
    core_csrs c' = core_csrs c \<and>
    (\<forall>d from'. switchable d from' from \<and> Context_read (core_mem d) from = Context_read (core_mem c') from \<longrightarrow>
      (\<exists>d'. exec link' switch d = Some (get_reg c R_ra, d') \<and> Context_of d' = Context_of c))"
proof -
  obtain c' where c': "exec link switch c = Some (ctx_ra (Context_read (core_mem c) to), c')"
    "Context_read (core_mem c') from = Context_of c" "Context_of c' = Context_read (core_mem c) to" "core_csrs c' = core_csrs c"
    using switch_run [OF assms, of link] by blast
  have "\<exists>d'. exec link' switch d = Some (get_reg c R_ra, d') \<and> Context_of d' = Context_of c"
    if "switchable d from' from" "Context_read (core_mem d) from = Context_read (core_mem c') from" for d from'
    using switch_run [OF that(1), of link'] that(2) c'(2) by (auto simp: Context_of_def)
  then show ?thesis using c' by blast
qed

theorem switch_roundtrip_witness:
  "\<exists>c'. exec 0 switch (set_reg R_a0 0x80360000 demo_core) = Some (0, c') \<and>
    ctx_s3 (Context_read (core_mem c') 0x80360000) = 7 \<and> get_reg c' R_s3 = 0"
proof -
  let ?c = "set_reg R_a0 0x80360000 demo_core"
  have al: "word_aligned 0x80360000" "word_aligned 0x80350000" by (simp_all add: word_aligned_iff_dvd)
  have "switchable ?c 0x80360000 0x80350000"
    using window_bare [of 0, OF _ al(1) ctx_saves_ok(6)] window_bare [of 0, OF _ al(2) ctx_saves_ok(6)]
    by (auto simp: switchable_def) (auto simp: ctx_offs_def ctx_saves_def)
  from switch_roundtrip [OF this, of 0] obtain c' where c': "exec 0 switch ?c = Some (ctx_ra (Context_read (core_mem ?c) 0x80350000), c')"
    "Context_read (core_mem c') 0x80360000 = Context_of ?c" "Context_of c' = Context_read (core_mem ?c) 0x80350000" by blast
  have zero: "ctx_ra (Context_read (core_mem ?c) 0x80350000) = 0" "ctx_s3 (Context_read (core_mem ?c) 0x80350000) = 0"
    by (simp_all add: Context_read_def load32_def)
  have "get_reg c' R_s3 = ctx_s3 (Context_of c')" by (simp add: Context_of_def)
  moreover have "ctx_s3 (Context_of ?c) = 7" by (simp add: Context_of_def)
  ultimately show ?thesis using c' zero by simp
qed

text \<open>
  C29. An interrupt in the kernel is invisible to the code it interrupts. If \<open>kerneltrap\<close>
  follows the calling convention (it keeps the callee-saved registers and its caller's frame),
  then \<open>kernelvec\<close> ends at \<open>sepc\<close> with every register as it was, \<open>tp\<close> excepted; below the
  stack pointer it writes only its own frame.
\<close>

theorem kernelvec_transparent:
  assumes "window (core_satp c) (core_mem c) (get_reg c R_sp - 128) frame kv_offs"
  shows "\<exists>c1. exec link (kernelvec_save h) c = Some (h, c1) \<and> core_csrs c1 = core_csrs c \<and>
    same_but frame kv_offs (core_mem c) (core_mem c1) \<and>
    (\<forall>d. called frame c1 d \<longrightarrow> (\<exists>d'. exec link' kernelvec_restore d = Some (read_csr (core_csrs d) Csr_sepc, d') \<and>
      (\<forall>r. r \<noteq> R_tp \<longrightarrow> get_reg d' r = get_reg c r) \<and> get_reg d' R_tp = get_reg d R_tp \<and>
      core_mem d' = core_mem d \<and> core_csrs d' = sret_csrs (core_csrs d)))"
  using kernelvec_run [OF assms, of link h link'] by blast

theorem kernelvec_transparent_witness:
  "\<exists>c1 d'. exec 0x44 (kernelvec_save 0x80203100) demo_core = Some (0x80203100, c1) \<and>
    exec 0 kernelvec_restore (set_reg R_a0 99 c1) = Some (0, d') \<and> get_reg d' R_a0 = 7 \<and> get_reg d' R_sp = 0x80340000"
proof -
  have al: "word_aligned (0x80340000 - 128)" by (simp add: word_aligned_iff_dvd)
  have w: "window 0 m (0x80340000 - 128) (0x80340000 - 128) kv_offs" for m
    by (rule window_bare [OF _ al kv_saves_ok(5)]) simp
  obtain c1 where c1: "exec 0x44 (kernelvec_save 0x80203100) demo_core = Some (0x80203100, c1)" "core_csrs c1 = (\<lambda>_. 0)"
    and d: "\<forall>d. called (0x80340000 - 128) c1 d \<longrightarrow> (\<exists>d'. exec 0 kernelvec_restore d = Some (read_csr (core_csrs d) Csr_sepc, d') \<and>
      (\<forall>r. r \<noteq> R_tp \<longrightarrow> get_reg d' r = get_reg demo_core r) \<and> get_reg d' R_tp = get_reg d R_tp \<and>
      core_mem d' = core_mem d \<and> core_csrs d' = sret_csrs (core_csrs d))"
    using kernelvec_transparent [of demo_core "0x80340000 - 128" "0x44" "0x80203100" 0] w by auto
  have sp: "get_reg c1 R_sp = 0x80340000 - 128"
    using c1(1) by (auto simp: kernelvec_save_def split: option.splits)
  have "called (0x80340000 - 128) c1 (set_reg R_a0 99 c1)"
    using w sp c1(2) by (auto simp: called_def callee_saved_def)
  from d [rule_format, OF this] show ?thesis using c1 by auto
qed

section \<open>Console\<close>

text \<open>
  C39. Output in trap handlers. \<open>kprint!\<close> never panics and prints the first 256 bytes of its
  message; the report of \<open>kerneltrap\<close> fits, whatever the registers hold, and is printed whole.
\<close>

theorem trap_report_complete:
  "kprint args s = Inr (s\<lparr>uart_out := uart_out s @ take 256 (concat args)\<rparr>) \<and>
    length (concat (trap_report pid f)) \<le> 116 \<and>
    kprintln (trap_report pid f) s = Inr (s\<lparr>uart_out := uart_out s @ concat (trap_report pid f) @ [10]\<rparr>)"
proof -
  have "length (concat (trap_report pid f)) \<le> 116"
    using fmt_option_length [of pid] fmt_length(3) [of "read_csr f Csr_sstatus"] fmt_length(2) [of "read_csr f Csr_scause"]
      fmt_length(2) [of "read_csr f Csr_stval"]
    by (simp add: trap_report_def fmt_hex8_length)
  then show ?thesis by (simp add: kprint_eq kprintln_eq)
qed

text \<open>Numbers are printed faithfully: their digits read back in their radix give the number.\<close>

lemma printed_numbers:
  "parse_radix 10 (fmt_dec n) = unat n" "parse_radix 16 (fmt_hex n) = unat n" "parse_radix 2 (fmt_bin n) = unat n"
  by (simp_all add: fmt_dec_def fmt_hex_def fmt_bin_def parse_fmt_radix)

section \<open>Returning to user mode\<close>

text \<open>What \<open>prepare_return\<close> leaves in \<open>sstatus\<close>, and what \<open>sret\<close> makes of it.\<close>

definition return_status :: "u32 \<Rightarrow> u32" where
  "return_status st = st AND NOT SSTATUS_SIE AND NOT SSTATUS_SPP OR SSTATUS_SPIE"

lemma bit_return_status:
  "bit (return_status st) 8 = False" "bit (return_status st) 5 = True" "bit (return_status st) (Suc 0) = False"
  by (simp_all add: return_status_def SSTATUS_SIE_def SSTATUS_SPP_def SSTATUS_SPIE_def bit_simps)

lemma bit_set_bit_to: "n < 32 \<Longrightarrow> bit (set_bit_to n b w) k = (if k = n then b else bit w k)"
  by (auto simp: set_bit_to_def bit_simps dest: bit_imp_le_length)

lemma sret_status:
  "bit (read_csr (sret_csrs f) Csr_sstatus) (Suc 0) = bit (read_csr f Csr_sstatus) 5"
  by (simp add: sret_csrs_def Let_def bit_set_bit_to)

text \<open>
  C30. The return to user mode. \<open>prepare_return\<close> arranges that \<open>sret\<close> goes to user mode (the
  previous privilege is user) at the saved \<open>epc\<close> with interrupts enabled, that interrupts are
  off until then, that the next trap enters \<open>uservec\<close> at its trampoline address, and that the
  trapframe holds what \<open>uservec\<close> needs: the kernel's page table, the top of the kernel stack,
  and \<open>usertrap\<close>. The user's fields of the trapframe and the process table do not change.
\<close>

theorem prepare_return_effect:
  assumes "linker_ok E" "unat (p_kstack (k_table s ! i)) + 8192 < 2 ^ 32" "word_aligned (p_trapframe (k_table s ! i))"
  shows "\<exists>s'. prepare_return E i s = Inr s' \<and> k_table s' = k_table s \<and>
    read_csr (csrs s') Csr_stvec = TRAMPOLINE + (fn_uservec E - sym_trampoline E) \<and>
    read_csr (csrs s') Csr_sepc = trapframe_get i epc s \<and> \<not> interrupt_read (csrs s') \<and>
    \<not> bit (read_csr (csrs s') Csr_sstatus) 8 \<and> interrupt_read (sret_csrs (csrs s')) \<and>
    (\<forall>f. trapframe_get i f s' = (case f of kernel_satp \<Rightarrow> read_csr (csrs s) Csr_satp
       | kernel_sp \<Rightarrow> p_kstack (k_table s ! i) + 8192 | trap_handler \<Rightarrow> fn_usertrap E | hartid \<Rightarrow> 0
       | _ \<Rightarrow> trapframe_get i f s))"
proof -
  let ?vec = "TRAMPOLINE + (fn_uservec E - sym_trampoline E)" and ?tf = "p_trapframe (k_table s ! i)"
  let ?sp = "p_kstack (k_table s ! i) + 8192" and ?st = "return_status (read_csr (csrs s) Csr_sstatus)"
  let ?m = "tf_set (tf_set (tf_set (tf_set (mem s) ?tf kernel_satp (read_csr (csrs s) Csr_satp)) ?tf kernel_sp ?sp)
    ?tf trap_handler (fn_usertrap E)) ?tf hartid 0"
  let ?f = "write_csr (write_csr (write_csr (interrupt_off (csrs s)) Csr_stvec ?vec) Csr_sstatus ?st) Csr_sepc (tf_get ?m ?tf epc)"
  have "sub_chk (fn_uservec E) (sym_trampoline E) = Inr (fn_uservec E - sym_trampoline E)"
    "add_chk TRAMPOLINE (fn_uservec E - sym_trampoline E) = Inr ?vec"
    using assms(1) by (simp_all add: linker_ok_def sub_chk_def add_chk_def TRAMPOLINE_num)
  moreover have "mul_chk KERNEL_STACK_PAGES PAGESIZE = Inr 8192"
    by (simp add: mul_chk_def KERNEL_STACK_PAGES_def PAGESIZE_num)
  moreover have "add_chk (p_kstack (k_table s ! i)) 8192 = Inr ?sp" using assms(2) by (simp add: add_chk_def)
  moreover have "read_csr (interrupt_off (csrs s)) Csr_satp = read_csr (csrs s) Csr_satp"
    "read_csr (interrupt_off (csrs s)) Csr_sstatus AND NOT SSTATUS_SPP OR SSTATUS_SPIE = ?st"
    by (simp_all add: interrupt_off_def return_status_def and.assoc)
  ultimately have run: "prepare_return E i s = Inr (s\<lparr>mem := ?m, csrs := ?f\<rparr>)"
    by (simp add: prepare_return_def Let_def trapframe_set_def trapframe_get_def)
  have "bit (read_csr (sret_csrs ?f) Csr_sstatus) 1" "\<not> bit (read_csr ?f Csr_sstatus) 1"
    by (simp_all add: sret_status bit_return_status)
  then have "interrupt_read (sret_csrs ?f)" "\<not> interrupt_read ?f"
    by (simp_all add: interrupt_read_bit)
  moreover have "trapframe_get i f (s\<lparr>mem := ?m, csrs := ?f\<rparr>) = (case f of kernel_satp \<Rightarrow> read_csr (csrs s) Csr_satp
       | kernel_sp \<Rightarrow> ?sp | trap_handler \<Rightarrow> fn_usertrap E | hartid \<Rightarrow> 0 | _ \<Rightarrow> trapframe_get i f s)" for f
    by (cases f) (simp_all add: trapframe_get_def tf_get_set [OF assms(3)])
  ultimately show ?thesis
    using run by (simp add: bit_return_status trapframe_get_def tf_get_set [OF assms(3)])
qed

theorem prepare_return_effect_witness:
  "\<exists>s'. prepare_return fl_env 0 (demo_sys demo_init 1 (Some 0)) = Inr s' \<and>
    read_csr (csrs s') Csr_stvec = TRAMPOLINE \<and> trapframe_get 0 kernel_sp s' = 0xffffe000 \<and>
    trapframe_get 0 trap_handler s' = 0x80204000 \<and> interrupt_read (sret_csrs (csrs s'))"
proof -
  have "linker_ok fl_env" by (simp add: linker_ok_def fl_env_def)
  moreover have "word_aligned (p_trapframe (demo_init ! 0))" by (simp add: demo_proc_def word_aligned_iff_dvd)
  moreover have "fn_uservec fl_env = sym_trampoline fl_env" "fn_usertrap fl_env = 0x80204000" by (simp_all add: fl_env_def)
  ultimately show ?thesis
    using prepare_return_effect [of fl_env "demo_sys demo_init 1 (Some 0)" 0] by auto
qed

section \<open>Preemption\<close>

lemma next_timer_println:
  "next_timer (\<lambda>args s. Inr (println args s)) pre s =
    (if unat (read_csr (csrs s) Csr_time) + 1000000 < 2 ^ 32
     then Inr ((println [ascii pre, fmt_hex (read_csr (csrs s) Csr_time), ascii '', next timer on: 0x'',
         fmt_hex (read_csr (csrs s) Csr_time + 1000000)] s)\<lparr>stimecmp := read_csr (csrs s) Csr_time + 1000000\<rparr>)
     else Inl Overflow)"
  by (simp add: next_timer_def Let_def add_chk_def)

text \<open>The whole effect of \<open>yeld\<close>, the console apart.\<close>

lemma yeld_exact:
  assumes "spin_crate E" "in_kernel i s"
  shows "\<exists>u. yeld E i regs c s = Inr (upd_proc i (\<lambda>p. p\<lparr>p_lock := True, p_state := Runnable, p_context := regs, p_cont := c,
    p_prev := interrupt_read (csrs s)\<rparr>) (pushed (s\<lparr>uart_out := u\<rparr>)))"
proof -
  obtain u where u: "yeld E i regs c s = sched i regs c (upd_proc i (\<lambda>p. p\<lparr>p_state := Runnable\<rparr>)
      (upd_proc i (\<lambda>p. p\<lparr>p_lock := True\<rparr>) (pushed (s\<lparr>uart_out := u\<rparr>))))"
    using spin_crate.yeld_eq [OF assms] by blast
  let ?s = "upd_proc i (\<lambda>p. p\<lparr>p_state := Runnable\<rparr>) (upd_proc i (\<lambda>p. p\<lparr>p_lock := True\<rparr>) (pushed (s\<lparr>uart_out := u\<rparr>)))"
  have i: "i < length (k_table s)" "current (cpu s) = Some i" "interrupt_off_stack (cpu s) = 0"
    using assms(2) by (auto simp: in_kernel_def quiet_def)
  have prev: "interrupt_prev_state (cpu ?s) = interrupt_read (csrs s)" using i(3) by (simp add: pushed_def refresh_prev_def)
  have "sched i regs c ?s = Inr (upd_proc i (\<lambda>p. p\<lparr>p_context := regs, p_cont := c,
      p_prev := interrupt_prev_state (cpu ?s)\<rparr>) ?s)"
    using i by (intro spin_crate.sched_eq [OF assms(1)]) auto
  then have "sched i regs c ?s = Inr (upd_proc i (\<lambda>p. p\<lparr>p_context := regs, p_cont := c,
      p_prev := interrupt_read (csrs s)\<rparr>) ?s)" unfolding prev .
  then show ?thesis unfolding u upd_proc_upd_proc by blast
qed

text \<open>
  C25. Preemption. A timer interrupt in user mode saves the program counter, asks for the next
  interrupt a million ticks later, makes the process runnable and switches to the scheduler with
  the process locked; the other processes do not change. When the 32-bit time is within a million
  ticks of its end, the addition overflows and the kernel panics instead.
\<close>

theorem timer_preempts:
  assumes "spin_crate E" "in_kernel i s" "read_csr (csrs s) Csr_scause = TIMER_INTERRUPT"
    "read_csr (csrs s) Csr_sstatus AND SSTATUS_SPP = 0" "\<not> interrupt_read (csrs s)"
    "word_aligned (p_trapframe (k_table s ! i))"
  shows "if unat (read_csr (csrs s) Csr_time) + 1000000 < 2 ^ 32 then
      \<exists>s'. usertrap E regs s = Inr (To_sched, s') \<and> stimecmp s' = read_csr (csrs s) Csr_time + 1000000 \<and>
        interrupt_off_stack (cpu s') = 1 \<and> p_lock (k_table s' ! i) \<and> p_state (k_table s' ! i) = Runnable \<and>
        p_cont (k_table s' ! i) = In_yeld_user \<and> p_context (k_table s' ! i) = regs \<and>
        trapframe_get i epc s' = read_csr (csrs s) Csr_sepc \<and> (\<forall>j. j \<noteq> i \<longrightarrow> k_table s' ! j = k_table s ! j)
    else usertrap E regs s = Inl Overflow"
proof -
  have i: "i < length (k_table s)" "current (cpu s) = Some i" "interrupt_off_stack (cpu s) = 0"
    using assms(2) by (auto simp: in_kernel_def quiet_def)
  let ?s2 = "trapframe_set i epc (read_csr (csrs s) Csr_sepc) (s\<lparr>csrs := write_csr (csrs s) Csr_stvec (fn_kernelvec E)\<rparr>)"
  let ?t = "read_csr (csrs s) Csr_time"
  have time: "read_csr (csrs ?s2) Csr_time = ?t" by (simp add: trapframe_set_def)
  have start: "usertrap E regs s = bind_ok (next_timer (\<lambda>args s. Inr (println args s)) ''user>time: 0x'' ?s2) (\<lambda>s3.
      bind_ok (yeld E i regs In_yeld_user s3) (\<lambda>s4. Inr (To_sched, s4)))"
    using assms(3-5) i(2) by (simp add: usertrap_def Let_def TIMER_INTERRUPT_def)
  show ?thesis
  proof (cases "unat ?t + 1000000 < 2 ^ 32")
    case True
    then have "next_timer (\<lambda>args s. Inr (println args s)) ''user>time: 0x'' ?s2 =
        Inr ((println [ascii ''user>time: 0x'', fmt_hex ?t, ascii '', next timer on: 0x'', fmt_hex (?t + 1000000)] ?s2)
          \<lparr>stimecmp := ?t + 1000000\<rparr>)"
      by (simp only: next_timer_println time if_True)
    then obtain u where u: "next_timer (\<lambda>args s. Inr (println args s)) ''user>time: 0x'' ?s2 =
        Inr (?s2\<lparr>uart_out := u, stimecmp := ?t + 1000000\<rparr>)"
      unfolding println_eq [of _ ?s2] by blast
    let ?s3 = "?s2\<lparr>uart_out := u, stimecmp := ?t + 1000000\<rparr>"
    have "same_sys s ?s3" by simp
    then have "in_kernel i ?s3" using assms(2) same_sys_in_kernel by blast
    from yeld_exact [OF assms(1) this, of regs In_yeld_user] obtain v where
      v: "yeld E i regs In_yeld_user ?s3 = Inr (upd_proc i (\<lambda>p. p\<lparr>p_lock := True, p_state := Runnable, p_context := regs,
        p_cont := In_yeld_user, p_prev := interrupt_read (csrs ?s3)\<rparr>) (pushed (?s3\<lparr>uart_out := v\<rparr>)))" by blast
    then show ?thesis
      using start u True i by (simp add: trapframe_get_def trapframe_set_def tf_get_set [OF assms(6)])
  next
    case False
    then show ?thesis unfolding start next_timer_println time by simp
  qed
qed

theorem timer_preempts_witness:
  "\<exists>s'. usertrap fl_env Context_zero ((demo_sys [demo_proc Running (Some 0) None 1] 1 (Some 0))
      \<lparr>csrs := (\<lambda>_. 0)(Csr_scause := 0x80000005, Csr_sepc := 0x10040, Csr_time := 500)\<rparr>) = Inr (To_sched, s') \<and>
    stimecmp s' = 1000500 \<and> p_state (k_table s' ! 0) = Runnable \<and> trapframe_get 0 epc s' = 0x10040"
proof -
  let ?s = "(demo_sys [demo_proc Running (Some 0) None 1] 1 (Some 0))
      \<lparr>csrs := (\<lambda>_. 0)(Csr_scause := 0x80000005, Csr_sepc := 0x10040, Csr_time := 500)\<rparr>"
  have "in_kernel 0 (demo_sys [demo_proc Running (Some 0) None 1] 1 (Some 0))" by (simp add: in_kernel_def demo_quiet)
  moreover have "same_sys (demo_sys [demo_proc Running (Some 0) None 1] 1 (Some 0)) ?s" by simp
  ultimately have "in_kernel 0 ?s" using same_sys_in_kernel by blast
  from timer_preempts [OF fl_spin.spin_crate_axioms this, of Context_zero] show ?thesis
    by (simp add: read_csr_def interrupt_read_def TIMER_INTERRUPT_def demo_proc_def word_aligned_iff_dvd) blast
qed

section \<open>Locks, entries and stacks\<close>

text \<open>
  C31. A process lock excludes and is neutral. Locking a free lock takes it with interrupts off;
  unlocking gives back the interrupt enable, the interrupt level and the table as they were.
  Locking a held lock never returns.
\<close>

theorem process_lock_neutral:
  assumes "spin_crate E" "int_ok s" "i < length (k_table s)"
  shows "if p_lock (k_table s ! i) then lock_manual E (proc_lockref i) s = Inl Deadlock
    else \<exists>s1. lock_manual E (proc_lockref i) s = Inr s1 \<and> p_lock (k_table s1 ! i) \<and> \<not> interrupt_read (csrs s1) \<and>
      interrupt_off_stack (cpu s1) = interrupt_off_stack (cpu s) + 1 \<and>
      unlock_manual E (proc_lockref i) s1 = Inr (refresh_prev s)"
proof (cases "p_lock (k_table s ! i)")
  case True
  then show ?thesis
    using proc_cell.lock_manual_held [OF assms(1,2), of i] by (simp add: proc_lockref_def)
next
  case False
  then have free: "\<not> lk_get (proc_lockref i) s" by (simp add: proc_lockref_def)
  let ?s1 = "lk_set (proc_lockref i) True (pushed s)"
  have "p_lock (k_table ?s1 ! i)" "csrs ?s1 = interrupt_off (csrs s)"
    "interrupt_off_stack (cpu ?s1) = interrupt_off_stack (cpu s) + 1"
    using assms(3) by (simp_all add: proc_lockref_def)
  then show ?thesis
    using False proc_cell.lock_manual_eq [OF assms(1,2) free] proc_cell.unlock_after_lock [OF assms(1,2) free] by simp
qed

theorem process_lock_neutral_witness:
  "\<exists>s1. lock_manual fl_env (proc_lockref 0) (demo_sys demo_init 1 None) = Inr s1 \<and> p_lock (k_table s1 ! 0) \<and>
    unlock_manual fl_env (proc_lockref 0) s1 = Inr (refresh_prev (demo_sys demo_init 1 None))"
proof -
  have "int_ok (demo_sys demo_init 1 None)" by (simp add: int_ok_def)
  from process_lock_neutral [OF fl_spin.spin_crate_axioms this, of 0] show ?thesis by auto
qed

text \<open>Checked arithmetic on numbers that are in range.\<close>

lemma unat_of_small: "k < 4294967296 \<Longrightarrow> unat (of_nat k :: usize) = k"
  by (simp add: unat_of_nat)

lemma chk_of_nat:
  "x + y < 4294967296 \<Longrightarrow> add_chk (of_nat x) (of_nat y) = Inr (of_nat (x + y))"
  "x * y < 4294967296 \<Longrightarrow> x < 4294967296 \<Longrightarrow> y < 4294967296 \<Longrightarrow> mul_chk (of_nat x) (of_nat y) = Inr (of_nat (x * y))"
  "y \<le> x \<Longrightarrow> x < 4294967296 \<Longrightarrow> sub_chk (of_nat x) (of_nat y) = Inr (of_nat (x - y))"
  by (simp_all add: add_chk_def mul_chk_def sub_chk_def unat_of_small word_le_nat_alt of_nat_diff)

lemma KSTACK_eq:
  assumes "n < 349524"
  shows "KSTACK (of_nat n) = Inr (of_nat (4294959104 - (n + 1) * 4096 * 3 + 4096))"
proof -
  have "add_chk (of_nat n) 1 = Inr (of_nat (n + 1))" using chk_of_nat(1) [of n 1] assms by simp
  moreover have "mul_chk (of_nat (n + 1)) 4096 = Inr (of_nat ((n + 1) * 4096))"
    using chk_of_nat(2) [of "n + 1" 4096] assms by simp
  moreover have "mul_chk (of_nat ((n + 1) * 4096)) 3 = Inr (of_nat ((n + 1) * 4096 * 3))"
    using chk_of_nat(2) [of "(n + 1) * 4096" 3] assms by simp
  moreover have "sub_chk 4294959104 (of_nat ((n + 1) * 4096 * 3)) = Inr (of_nat (4294959104 - (n + 1) * 4096 * 3))"
    using chk_of_nat(3) [of "(n + 1) * 4096 * 3" 4294959104] assms by simp
  moreover have "add_chk (of_nat (4294959104 - (n + 1) * 4096 * 3)) 4096 =
      Inr (of_nat (4294959104 - (n + 1) * 4096 * 3 + 4096))"
    using chk_of_nat(1) [of "4294959104 - (n + 1) * 4096 * 3" 4096] assms by simp
  moreover have "add_chk KERNEL_STACK_PAGES 1 = Inr 3" by (simp add: KERNEL_STACK_PAGES_def add_chk_def)
  ultimately show ?thesis by (simp only: KSTACK_def PAGESIZE_num TRAMPOLINE_num bind_ok_Inr)
qed

text \<open>
  C40. Kernel stacks. For every table index the address space has room for, \<open>KSTACK\<close> does not
  overflow and gives a page-aligned stack of two pages below the trampoline; a stack and the stack
  of any larger index are separated by at least one page.
\<close>

theorem kstack_layout:
  assumes "n < k" "k < 349524"
  shows "\<exists>a b. KSTACK (of_nat n) = Inr a \<and> KSTACK (of_nat k) = Inr b \<and> page_aligned a \<and> page_aligned b \<and>
    unat a + 8192 \<le> unat TRAMPOLINE \<and> unat b + 8192 + 4096 \<le> unat a"
proof -
  let ?x = "\<lambda>n. 4294959104 - (n + 1) * 4096 * 3 + (4096 :: nat)"
  have u: "unat (of_nat (?x j) :: usize) = ?x j" if "j < 349524" for j using that by (intro unat_of_small) simp
  have "4096 dvd ?x j" if "j < 349524" for j
    using that by (intro dvd_add dvd_diff_nat) auto
  then have "page_aligned (of_nat (?x j))" if "j < 349524" for j using that u by (simp only: page_aligned_iff_dvd)
  moreover have "unat (of_nat (?x n) :: usize) + 8192 \<le> unat TRAMPOLINE"
    using u [of n] assms by (simp add: TRAMPOLINE_num)
  moreover have "unat (of_nat (?x k) :: usize) + 8192 + 4096 \<le> unat (of_nat (?x n) :: usize)"
    using u [of n] u [of k] assms by simp
  ultimately show ?thesis using KSTACK_eq [of n] KSTACK_eq [of k] assms by auto
qed

theorem kstack_layout_witness:
  "\<exists>a b. KSTACK 0 = Inr a \<and> KSTACK 3 = Inr b \<and> unat b + 8192 + 4096 \<le> unat a"
  using kstack_layout [of 0 3] by auto

section \<open>Strings from user memory\<close>

lemma str_loop_string:
  assumes "n < 4294967296" "m (a + of_nat n) = 0" "\<forall>k < n. m (a + of_nat k) \<noteq> 0" "i \<le> n"
  shows "str_loop m a (of_nat i) = Inr (map (\<lambda>k. m (a + of_nat k)) [i..<n])"
  using assms(4)
proof (induction "n - i" arbitrary: i)
  case 0
  then show ?case using assms(2) by (simp add: str_loop.simps)
next
  case (Suc d)
  then have i: "i < n" "d = n - Suc i" by auto
  have "add_chk (of_nat i) 1 = Inr (of_nat (Suc i))" using chk_of_nat(1) [of i 1] i(1) assms(1) by simp
  moreover have "str_loop m a (of_nat (Suc i)) = Inr (map (\<lambda>k. m (a + of_nat k)) [Suc i..<n])"
    using Suc.hyps(1) [OF i(2)] i(1) by simp
  ultimately show ?case using assms(3) i(1) by (simp add: str_loop.simps [of m a "of_nat i"] upt_conv_Cons)
qed

lemma str_loop_overflow:
  assumes "\<forall>x. m x \<noteq> 0"
  shows "str_loop m a i = Inl Overflow"
  using assms
proof (induction m a i rule: str_loop.induct)
  case (1 m a i)
  show ?case
  proof (cases "add_chk i 1")
    case (Inl e)
    then show ?thesis using "1.prems" by (simp add: add_chk_def str_loop.simps [of _ a i] split: if_splits)
  next
    case (Inr i')
    then show ?thesis using "1.IH" [OF _ Inr] "1.prems" by (simp add: str_loop.simps [of _ a i])
  qed
qed


text \<open>The user page of the demonstration holds three letters and a zero byte.\<close>

definition demo_string :: "usize list machine" where
  "demo_string = demo_machine\<lparr>mem := write_bytes (write_bytes demo_mem 0x80400abc 0 4) 0x80400abc 65 3\<rparr>"

lemma demo_string_walk: "walkaddr fl_env (uvm_pagetable demo_uvm) 0x10abc demo_string = Inr (Some 0x80400abc, demo_string)"
proof -
  have pages: "page_of x = 0x80400000" if "unat (x - 0x80400abc) < 4" for x :: usize
  proof -
    have al: "page_aligned 0x80400000" by (simp add: page_aligned_iff_dvd)
    let ?d = "x - 0x80400abc"
    have "unat (0xabc + ?d) = (unat (0xabc :: usize) + unat ?d) mod 2 ^ 32" by (simp only: unat_word_ariths(1)) simp
    also have "\<dots> < 4096" using that by simp
    finally have "page_of (0x80400000 + (0xabc + ?d)) = 0x80400000" by (rule page_of_plus [OF al])
    then show ?thesis by simp
  qed
  have frames: "same_page demo_mem (mem demo_string) p" if "p \<in> pt_frames demo_mem 0x80300000" for p
    using that pages by (force simp: demo_string_def same_page_def write_bytes_def demo_table(2))
  have wf: "pt_wf (mem demo_string) 0x80300000"
    using pt_wf_frame [OF frames demo_table(1)] by simp
  have "page_of 0x10abc = 0x10000" by (simp add: word_unat_eq_iff unat_page_of)
  then have "leaf (mem demo_string) 0x80300000 0x10abc = Some (leaf_word 0x80400000 0b10110)"
    using leaf_frame [OF demo_table(1) frames] by (simp add: demo_table(3))
  then show ?thesis
    using walkaddr_leaf [of demo_string "uvm_pagetable demo_uvm" fl_env "0x10abc"] wf demo_word(1,2) by simp
qed


section \<open>Fork\<close>

text \<open>The new process, read off the step of the abstract machine.\<close>

lemma kfork_child:
  assumes "spin_crate E" "in_kernel i s" "ainv (abs_sys s)" "kfork E i s = Inr (Ok pid, s')"
  shows "pid = k_pid s \<and> k_pid s' = k_pid s + 1 \<and> in_kernel i s' \<and>
    (\<exists>c < length (k_table s). p_state (k_table s ! c) = Unused \<and> p_state (k_table s' ! c) = Runnable \<and>
      p_pid (k_table s' ! c) = Some pid \<and> p_parent (k_table s' ! c) = p_pid (k_table s ! i) \<and>
      p_cont (k_table s' ! c) = In_forkret \<and>
      (\<forall>j < length (k_table s). j \<noteq> c \<longrightarrow> abs_proc (k_table s' ! j) = abs_proc (k_table s ! j)))"
proof -
  note r = spin_crate.kfork_refines [OF assms]
  obtain c where step: "astep (A_fork c) (abs_sys s) (abs_sys s')" using r(3) by blast
  have i: "current (cpu s) = Some i" "i < length (k_table s)" using assms(2) by (auto simp: in_kernel_def)
  from step have c: "c < length (k_table s)" "p_state (k_table s ! c) = Unused"
    and eq: "abs_sys s' = (a_upd c (\<lambda>p. p\<lparr>a_state := Runnable, a_pid := Some (k_pid s),
      a_parent := p_pid (k_table s ! i), a_cont := In_forkret\<rparr>) (abs_sys s))\<lparr>a_next := k_pid s + 1\<rparr>"
    using i by (auto elim!: astep.cases)
  have tab: "map abs_proc (k_table s') = (map abs_proc (k_table s))[c := (abs_proc (k_table s ! c))
      \<lparr>a_state := Runnable, a_pid := Some (k_pid s), a_parent := p_pid (k_table s ! i), a_cont := In_forkret\<rparr>]"
    and pid: "k_pid s' = k_pid s + 1"
    using arg_cong [OF eq, of a_tab] arg_cong [OF eq, of a_next] c(1) by (simp_all add: abs_sys_def)
  have len: "length (k_table s') = length (k_table s)" using arg_cong [OF tab, of length] by simp
  have nth: "abs_proc (k_table s' ! j) = (if j = c then (abs_proc (k_table s ! c))\<lparr>a_state := Runnable, a_pid := Some (k_pid s),
      a_parent := p_pid (k_table s ! i), a_cont := In_forkret\<rparr> else abs_proc (k_table s ! j))" if "j < length (k_table s)" for j
    using arg_cong [OF tab, of "\<lambda>t. t ! j"] that len by (simp add: nth_list_update)
  have "p_state (k_table s' ! c) = Runnable" "p_pid (k_table s' ! c) = Some (k_pid s)"
    "p_parent (k_table s' ! c) = p_pid (k_table s ! i)" "p_cont (k_table s' ! c) = In_forkret"
    using nth [OF c(1)] abs_proc_simps [of "k_table s' ! c"] by simp_all
  then show ?thesis using r(1,2) pid c nth by auto
qed

text \<open>
  C38. When no slot is unused, \<open>kfork\<close> returns an error and leaves the machine as it was, but
  \<open>sys_fork\<close> unwraps the result: a process that forks into a full table stops the kernel.
\<close>

theorem fork_exhausted:
  assumes "spin_crate E" "in_kernel i s" "\<forall>p \<in> set (k_table s). p_state p \<noteq> Unused"
  shows "kfork E i s = Inr (Err, refresh_prev s) \<and>
    sys_fork E i s = Inl (Panic ''called Result::unwrap() on an Err value: ()'')"
proof -
  let ?s1 = "(pushed s)\<lparr>kernel_lock := True\<rparr>"
  have lvl: "interrupt_off_stack (cpu s) = 0" "\<not> kernel_lock s" using assms(2) by (auto simp: in_kernel_def quiet_def)
  have "allocproc E ?s1 = Inr (None, ?s1)"
    using assms(3) find_index_None [of "\<lambda>p. p_state p = Unused" "k_table s"] by (simp add: allocproc_def)
  moreover have "kernel_release E ?s1 = Inr (refresh_prev s)"
  proof -
    have "popped (?s1\<lparr>kernel_lock := False\<rparr>) = popped (pushed s)"
      using lvl(2) by (intro arg_cong [where f = popped] kstate.equality) (auto simp: pushed_def refresh_prev_def)
    also have "Inr \<dots> = (Inr (refresh_prev s) :: fault + _)"
      using pop_pushed [of s] pop_interrupt_off_eq [of "pushed s"] lvl(1) by (simp add: int_ok_def)
    finally show ?thesis using spin_crate.kernel_release_eq [OF assms(1), of ?s1] lvl(1) by simp
  qed
  ultimately have "kfork E i s = Inr (Err, refresh_prev s)"
    by (simp add: kfork_def spin_crate.in_kernel_acquire [OF assms(1,2)])
  then show ?thesis by (simp add: sys_fork_def unwrap_result_def)
qed

theorem fork_exhausted_witness:
  "sys_fork fl_env 0 (demo_sys [demo_proc Running (Some 0) None 3, demo_proc Runnable (Some 1) (Some 0) 2] 2 (Some 0)) =
    Inl (Panic ''called Result::unwrap() on an Err value: ()'')"
proof -
  let ?t = "[demo_proc Running (Some 0) None 3, demo_proc Runnable (Some 1) (Some 0) 2]"
  have "in_kernel 0 (demo_sys ?t 2 (Some 0))" by (simp add: in_kernel_def demo_quiet)
  from fork_exhausted [OF fl_spin.spin_crate_axioms this] show ?thesis by simp
qed

end
