(* ===== verification/ForkMem.thy ===== *)
theory ForkMem
  imports ProcMem
begin

text \<open>
  \<open>kfork\<close> as a whole: with a free slot, a next pid and enough pages it returns the pid of a child
  whose memory and registers are those of the caller, and no page belongs to two processes
  afterwards.
\<close>

section \<open>allocproc\<close>

context page_supply
begin

lemma allocproc_ok:
  assumes "heap_ready s" "hwf (heap_st s)" "locks_free s" "int_ok (pushed s)"
    "find_index (\<lambda>p. p_state p = Unused) (k_table s) = Some c" "k_pid s \<noteq> 0xffffffff"
    "slot_ok hwf live s (k_table s ! c)" "takes E (Suc n) (heap_st s) \<noteq> None"
  obtains a s' where "allocproc E s = Inr (Some c, s')"
    "same_rest ((pushed s)\<lparr>k_pid := k_pid s + 1, k_table := (k_table s)[c := (k_table s ! c)\<lparr>p_pid := Some (k_pid s),
       p_state := Used, p_trapframe := a, p_lock := True, p_context := Context_zero\<lparr>ctx_ra := fn_forkret E,
       ctx_sp := p_kstack (k_table s ! c) + 8192\<rparr>, p_cont := In_forkret\<rparr>]\<rparr>) s'"
    "a \<notin> live (heap_st s)" "live (heap_st s') = insert a (live (heap_st s)) - {p_trapframe (k_table s ! c)}"
    "hwf (heap_st s')" "heap_ready s'" "touches live {p_trapframe (k_table s ! c)} s s'" "takes E n (heap_st s') \<noteq> None"
proof -
  have c: "c < length (k_table s)" using find_index_Some [OF assms(5)] by simp
  let ?s2 = "upd_proc c (\<lambda>p. p\<lparr>p_state := Used\<rparr>) ((upd_proc c (\<lambda>p. p\<lparr>p_pid := Some (k_pid s)\<rparr>) s)\<lparr>k_pid := k_pid s + 1\<rparr>)"
  have tab: "p_trapframe (k_table ?s2 ! c) = p_trapframe (k_table s ! c)" using c by simp
  have hr: "heap_ready ?s2" "hwf (heap_st ?s2)" "takes E (Suc n) (heap_st ?s2) \<noteq> None" "c < length (k_table ?s2)"
    "p_trapframe (k_table ?s2 ! c) \<in> live (heap_st ?s2)"
    using assms(1,2,8) c slot_okD(2) [OF assms(7)] by (simp_all add: heap_ready_def int_ok_def)
  obtain a s3 where t: "set_trapframe E c Trapframe_default ?s2 = Inr s3" "a \<notin> live (heap_st ?s2)"
    "live (heap_st s3) = insert a (live (heap_st ?s2)) - {p_trapframe (k_table ?s2 ! c)}" "page_aligned a" "hwf (heap_st s3)"
    "same_rest (upd_proc c (\<lambda>q. q\<lparr>p_trapframe := a\<rparr>) ?s2) s3" "heap_ready s3"
    "\<forall>f. tf_get (mem s3) a f = Trapframe_default f" "touches live {p_trapframe (k_table ?s2 ! c)} ?s2 s3"
    "takes E n (heap_st s3) \<noteq> None"
    by (rule set_trapframe_ok [OF hr])
  note k3 = same_rest_kernel [OF t(6)]
  have free: "\<not> p_lock (k_table s3 ! c)" "p_kstack (k_table s3 ! c) = p_kstack (k_table s ! c)"
    using k3(1) c locks_free_nth [OF assms(3) c] by simp_all
  have int3: "int_ok s3" using t(7) by (simp add: heap_ready_def)
  let ?f = "\<lambda>p. p\<lparr>p_context := Context_zero\<lparr>ctx_ra := fn_forkret E, ctx_sp := p_kstack (k_table s ! c) + 8192\<rparr>, p_cont := In_forkret\<rparr>"
  let ?s4 = "upd_proc c (\<lambda>p. p\<lparr>p_lock := True\<rparr>) (pushed s3)"
  let ?s = "upd_proc c ?f ?s4"
  have st: "mul_chk KERNEL_STACK_PAGES PAGESIZE = Inr 8192" "add_chk (p_kstack (k_table ?s4 ! c)) 8192 = Inr (p_kstack (k_table s ! c) + 8192)"
    using slot_okD(5) [OF assms(7)] free(2) c k3(1) by (simp_all add: mul_chk_def KERNEL_STACK_PAGES_def PAGESIZE_num add_chk_def)
  have run: "allocproc E s = Inr (Some c, ?s)"
    using t(1) proc_lock_eq [OF int3 free(1)] st assms(6) by (simp add: allocproc_def assms(5) Let_def add_chk_one_cases)
  have "same_rest (upd_proc c ?f (upd_proc c (\<lambda>p. p\<lparr>p_lock := True\<rparr>) (pushed (upd_proc c (\<lambda>q. q\<lparr>p_trapframe := a\<rparr>) ?s2)))) ?s"
    by (intro same_rest_upd_proc same_rest_pushed t(6))
  moreover have "upd_proc c ?f (upd_proc c (\<lambda>p. p\<lparr>p_lock := True\<rparr>) (pushed (upd_proc c (\<lambda>q. q\<lparr>p_trapframe := a\<rparr>) ?s2))) =
      (pushed s)\<lparr>k_pid := k_pid s + 1, k_table := (k_table s)[c := (k_table s ! c)\<lparr>p_pid := Some (k_pid s),
       p_state := Used, p_trapframe := a, p_lock := True, p_context := Context_zero\<lparr>ctx_ra := fn_forkret E,
       ctx_sp := p_kstack (k_table s ! c) + 8192\<rparr>, p_cont := In_forkret\<rparr>]\<rparr>"
    using c by (intro kstate.equality) (auto simp: upd_proc_def pushed_def refresh_prev_def)
  ultimately have sr: "same_rest \<dots> ?s" by simp
  have "interrupt_off_stack (cpu s3) = interrupt_off_stack (cpu s)" "csrs s3 = csrs s" using k3(7,8) by simp_all
  then have "int_ok (pushed s3)" using assms(4) by (simp add: int_ok_def pushed_def refresh_prev_def)
  then have hr': "heap_ready ?s" using t(7) by (simp add: heap_ready_def)
  have "touches live {p_trapframe (k_table s ! c)} s ?s" using t(9) tab by (simp add: touches_def)
  then show thesis
    using that [OF run sr] t(2,3,5,10) hr' tab by simp
qed

section \<open>The child's address space\<close>

lemma clone_ok:
  assumes "uvm_ok hwf live s uv" "takes E (Suc (2 * (unat (uvm_size uv) div 4096)) + n) (heap_st s) \<noteq> None"
    "\<And>va. in_range (uvm_begin uv) (unat (uvm_size uv)) va \<Longrightarrow>
      leaf_addr (mem s) (pt_root (uvm_pagetable uv)) va \<noteq> None"
  obtains vm s' where "Uvm_clone E uv s = Inr (vm, s')" "uvm_begin vm = uvm_begin uv" "uvm_size vm = uvm_size uv"
    "uvm_ok hwf live s' vm" "same_rest s s'" "touches live {} s s'" "uvm_pages s' vm \<inter> live (heap_st s) = {}"
    "\<forall>va. in_range (uvm_begin uv) (unat (uvm_size uv)) va \<longrightarrow> user_view s' vm va = user_view s uv va"
    "takes E n (heap_st s') \<noteq> None"
  using assms(1,3)
proof (rule Uvm_clone_correct)
  fix msg assume "takes E (1 + 2 * (unat (uvm_size uv) div 4096)) (heap_st s) = None"
  then have "takes E (Suc (2 * (unat (uvm_size uv) div 4096)) + n) (heap_st s) = None"
    by (rule takes_None_mono) simp
  then show thesis using assms(2) by blast
next
  fix vm s'
  assume cloned: "Uvm_clone E uv s = Inr (vm, s')" "uvm_begin vm = uvm_begin uv" "uvm_size vm = uvm_size uv"
    "forked hwf live s uv s' vm (unat (uvm_size uv))"
    "served E (1 + 2 * (unat (uvm_size uv) div 4096)) (heap_st s) True (heap_st s')"
  note f = forkedD [OF cloned(4)]
  have b: "uvm_begin uv = USER_START" using uvm_dimsD(1) [OF uvm_okD(5) [OF assms(1)]] .
  have "touches live {} s s'" unfolding touches_def using f(6,7,8) by blast
  moreover have "takes E n (heap_st s') \<noteq> None" using takes_served [OF cloned(5), of n] assms(2) by (simp only: plus_1_eq_Suc not_False_eq_True)
  ultimately show thesis
    using that [OF cloned(1-3) f(4,5) _ f(7)] forked_view [OF cloned(4)] b by simp
qed

lemma init_proc_ok:
  assumes "uvm_ok hwf live s uv" "page_aligned (sym_trampoline E)" "unat (sym_trampoline E) + 4096 < 2 ^ 32"
    "page_aligned tf" "unat tf + 4096 < 2 ^ 32" "takes E (2 + n) (heap_st s) \<noteq> None"
  obtains s' where "Uvm_init_proc E uv tf s = Inr (Ok (), s')" "uvm_ok hwf live s' uv" "same_rest s s'"
    "touches live (uvm_frames s uv) s s'" "uvm_pages s' uv \<inter> live (heap_st s) \<subseteq> uvm_pages s uv"
    "live (heap_st s) \<subseteq> live (heap_st s')"
    "\<forall>va. in_range (uvm_begin uv) (unat (uvm_size uv)) va \<longrightarrow> user_view s' uv va = user_view s uv va"
    "takes E n (heap_st s') \<noteq> None" "\<forall>q. q \<notin> live (heap_st s') \<longrightarrow> same_page (mem s) (mem s') q"
  using assms(1-5)
proof (rule Uvm_init_proc_correct)
  fix res s'
  assume run: "Uvm_init_proc E uv tf s = Inr (res, s')" and g: "grows hwf live (pt_root (uvm_pagetable uv)) s s'"
    and ok: "uvm_ok hwf live s' uv"
    and lf: "\<And>va. \<not> kernel_page (page_of va) \<Longrightarrow> uvm_leaf s' uv va = uvm_leaf s uv va"
    and sv: "served E 2 (heap_st s) (res = Ok ()) (heap_st s')"
  have "takes E 2 (heap_st s) \<noteq> None" using assms(6) takes_None_mono [of E 2 "heap_st s" "2 + n"] le_add1 [of 2 n] by metis
  then have res: "res = Ok ()" using served_enough [OF sv] by blast
  then have "served E 2 (heap_st s) True (heap_st s')" using sv by simp
  then have sup: "takes E n (heap_st s') \<noteq> None" using assms(6) by (rule takes_served)
  note G = growsD [OF g]
  have t: "touches live (uvm_frames s uv) s s'" unfolding touches_def using G(3,4,5) by blast
  have pages: "uvm_pages s' uv \<inter> live (heap_st s) \<subseteq> uvm_pages s uv"
    using init_proc_user_pages [OF ok lf] G(4) by (auto simp: child_pages_def)
  have view: "user_view s' uv va = user_view s uv va" if va: "in_range (uvm_begin uv) (unat (uvm_size uv)) va" for va
  proof (cases "uvm_leaf s' uv va")
    case (Some w)
    have nk: "\<not> kernel_page (page_of va)"
      using user_range_page [OF uvm_okD(5) [OF assms(1)] va] by (simp add: kernel_page_def)
    have "pte_page w \<notin> uvm_frames s' uv"
      using parent_leaf_user(4) [OF ok va Some] uvm_pages_live(3) [OF ok] by blast
    then have "same_page (mem s) (mem s') (pte_page w)" by (rule G(5))
    moreover have "uvm_leaf s uv va = Some w" using lf [OF nk] Some by simp
    ultimately show ?thesis
      using Some page_of_plus [OF page_aligned_pte_page offset_bound, of w va]
      by (simp add: user_view_def same_page_def)
  next
    case None
    then show ?thesis
      using lf [of va] user_range_page [OF uvm_okD(5) [OF assms(1)] va] by (simp add: user_view_def kernel_page_def)
  qed
  have "\<forall>q. q \<notin> live (heap_st s') \<longrightarrow> same_page (mem s) (mem s') q" using G(3,5) by blast
  then show thesis
    using that [OF _ ok G(2) t pages _ _ sup] run res view G(3) by blast
qed

text \<open>
  The middle part of \<open>kfork\<close>: the child in slot \<open>c\<close> gets a copy of the trapframe and of the
  address space of process \<open>i\<close>. First the copies are made.
\<close>

lemma fork_copy:
  assumes ok: "heap_ready s" "hwf (heap_st s)" "slot_ok hwf live s (k_table s ! i)" "slot_ok hwf live s (k_table s ! c)"
    and idx: "c < length (k_table s)" "i \<noteq> c" and dis: "slot_pages s (k_table s ! i) \<inter> slot_pages s (k_table s ! c) = {}"
    and uv: "uv = p_pagetable (k_table s ! i)"
    and l2: "\<And>va. in_range (uvm_begin uv) (unat (uvm_size uv)) va \<Longrightarrow> leaf_addr (mem s) (pt_root (uvm_pagetable uv)) va \<noteq> None"
    and sup: "takes E (4 + 2 * (unat (uvm_size uv) div 4096)) (heap_st s) \<noteq> None"
  obtains s3 s4 a vm where
    "set_trapframe E c (Trapframe_read (mem s) (p_trapframe (k_table s ! i))) s = Inr s3"
    "Uvm_clone E (p_pagetable (k_table s3 ! i)) s3 = Inr (vm, s4)"
    "same_rest (upd_proc c (\<lambda>p. p\<lparr>p_trapframe := a\<rparr>) s) s4" "touches live {p_trapframe (k_table s ! c)} s s4"
    "uvm_ok hwf live s4 vm" "page_aligned a" "a \<in> live (heap_st s4) - uvm_pages s4 vm"
    "insert a (uvm_pages s4 vm) \<inter> live (heap_st s) \<subseteq> {p_trapframe (k_table s ! c)}"
    "uvm_begin vm = uvm_begin uv" "uvm_size vm = uvm_size uv"
    "\<forall>va. in_range (uvm_begin vm) (unat (uvm_size vm)) va \<longrightarrow> user_view s4 vm va = user_view s uv va"
    "\<forall>f. tf_get (mem s4) a f = tf_get (mem s) (p_trapframe (k_table s ! i)) f" "takes E 2 (heap_st s4) \<noteq> None"
proof -
  let ?old = "p_trapframe (k_table s ! c)" and ?N = "2 * (unat (uvm_size uv) div 4096)"
  note ki = slot_okD [OF ok(3), folded uv] and kc = slot_okD [OF ok(4)]
  have d: "uvm_pages s uv \<inter> {?old} = {}" using dis by (auto simp: slot_pages_def uv)
  have n: "4 + ?N = Suc (Suc ?N + 2)" by simp
  have sup1: "takes E (Suc (Suc ?N + 2)) (heap_st s) \<noteq> None" using sup unfolding n .
  obtain a s3 where t: "set_trapframe E c (Trapframe_read (mem s) (p_trapframe (k_table s ! i))) s = Inr s3" "a \<notin> live (heap_st s)"
    "live (heap_st s3) = insert a (live (heap_st s)) - {?old}" "page_aligned a" "hwf (heap_st s3)"
    "same_rest (upd_proc c (\<lambda>q. q\<lparr>p_trapframe := a\<rparr>) s) s3" "heap_ready s3"
    "\<forall>f. tf_get (mem s3) a f = Trapframe_read (mem s) (p_trapframe (k_table s ! i)) f" "touches live {?old} s s3"
    "takes E (Suc ?N + 2) (heap_st s3) \<noteq> None"
    by (rule set_trapframe_ok [OF ok(1,2) sup1 idx(1) kc(2)])
  have i3: "k_table s3 ! i = k_table s ! i" using same_rest_kernel(1) [OF t(6)] idx(2) by simp
  have a3: "a \<in> live (heap_st s3)" using t(2,3) kc(2) by auto
  note u3 = uvm_frame [OF ki(1) t(9) d t(7,5)]
  have "same_page (mem s) (mem s3) (pt_root (uvm_pagetable uv))"
    using touchesD(2) [OF t(9), of "uvm_pages s uv"] ki(4) d by (auto simp: slot_pages_def child_pages_def uv)
  then have l3: "leaf_addr (mem s3) (pt_root (uvm_pagetable uv)) va = leaf_addr (mem s) (pt_root (uvm_pagetable uv)) va" for va
    using leaf_addr_frame pt_wfD(1) [OF table_okD(3) [OF uvm_okD(2) [OF ki(1)]]] by blast
  obtain vm s4 where c4: "Uvm_clone E uv s3 = Inr (vm, s4)" "uvm_begin vm = uvm_begin uv" "uvm_size vm = uvm_size uv"
    "uvm_ok hwf live s4 vm" "same_rest s3 s4" "touches live {} s3 s4" "uvm_pages s4 vm \<inter> live (heap_st s3) = {}"
    "\<forall>va. in_range (uvm_begin uv) (unat (uvm_size uv)) va \<longrightarrow> user_view s4 vm va = user_view s3 uv va"
    "takes E 2 (heap_st s4) \<noteq> None"
    by (rule clone_ok [OF u3(1) t(10)]) (use l2 l3 in auto)
  have a4: "a \<in> live (heap_st s4)" "same_page (mem s3) (mem s4) a" using a3 c4(6) by (auto simp: touches_def)
  show thesis
  proof (rule that [OF t(1) _ same_rest_trans [OF t(6) c4(5)] _ c4(4) t(4) _ _ c4(2,3) _ _ c4(9)])
    show "Uvm_clone E (p_pagetable (k_table s3 ! i)) s3 = Inr (vm, s4)" using c4(1) i3 uv by simp
    show "touches live {?old} s s4" by (rule touches_trans [OF t(9) c4(6)]) simp
    show "a \<in> live (heap_st s4) - uvm_pages s4 vm" using a4(1) a3 c4(7) by blast
    show "insert a (uvm_pages s4 vm) \<inter> live (heap_st s) \<subseteq> {?old}" using t(2,3) c4(7) by blast
    show "\<forall>va. in_range (uvm_begin vm) (unat (uvm_size vm)) va \<longrightarrow> user_view s4 vm va = user_view s uv va"
      using c4(2,3,8) u3(4) by simp
    show "\<forall>f. tf_get (mem s4) a f = tf_get (mem s) (p_trapframe (k_table s ! i)) f"
      using tf_get_same_page [OF t(4) a4(2)] t(8) by (simp add: Trapframe_read_def)
  qed
qed

text \<open>Then the child's address space is prepared and replaces the one of its slot.\<close>

lemma fork_install:
  assumes vm: "uvm_ok hwf live s vm" and c: "c < length (k_table s)" "p_trapframe (k_table s ! c) = a"
    and old: "uvm_ok hwf live s (p_pagetable (k_table s ! c))" "uvm_pages s (p_pagetable (k_table s ! c)) \<inter> insert a (uvm_pages s vm) = {}"
    and a: "page_aligned a" "a \<in> live (heap_st s) - uvm_pages s vm"
    and tr: "page_aligned (sym_trampoline E)" "unat (sym_trampoline E) + 4096 < 2 ^ 32"
    and sup: "takes E 2 (heap_st s) \<noteq> None"
  obtains s1 s2 where "Uvm_init_proc E vm (p_trapframe (k_table s ! c)) s = Inr (Ok (), s1)" "set_pagetable E c vm s1 = Inr s2"
    "same_rest (upd_proc c (\<lambda>p. p\<lparr>p_pagetable := vm\<rparr>) s) s2" "heap_ready s2" "hwf (heap_st s2)"
    "touches live (uvm_frames s vm \<union> uvm_pages s (p_pagetable (k_table s ! c))) s s2"
    "uvm_ok hwf live s2 vm" "a \<in> live (heap_st s2) - uvm_pages s2 vm" "uvm_pages s2 vm \<inter> live (heap_st s) \<subseteq> uvm_pages s vm"
    "\<forall>va. in_range (uvm_begin vm) (unat (uvm_size vm)) va \<longrightarrow> user_view s2 vm va = user_view s vm va"
    "\<forall>f. tf_get (mem s2) a f = tf_get (mem s) a f"
proof -
  let ?pt = "p_pagetable (k_table s ! c)"
  have r: "heap_ready s" "hwf (heap_st s)" using uvm_okD(3,4) [OF vm] by simp_all
  have ab: "unat a + 4096 < 2 ^ 32" using live_bound [OF r(2)] a(2) by simp
  have fr: "uvm_frames s vm \<subseteq> uvm_pages s vm" by (simp add: child_pages_def)
  obtain s1 where i: "Uvm_init_proc E vm a s = Inr (Ok (), s1)" "uvm_ok hwf live s1 vm" "same_rest s s1"
    "touches live (uvm_frames s vm) s s1" "uvm_pages s1 vm \<inter> live (heap_st s) \<subseteq> uvm_pages s vm"
    "live (heap_st s) \<subseteq> live (heap_st s1)"
    "\<forall>va. in_range (uvm_begin vm) (unat (uvm_size vm)) va \<longrightarrow> user_view s1 vm va = user_view s vm va"
    "takes E 0 (heap_st s1) \<noteq> None" "\<forall>q. q \<notin> live (heap_st s1) \<longrightarrow> same_page (mem s) (mem s1) q"
    by (rule init_proc_ok [OF vm tr a(1) ab, of 0]) (use sup in simp_all)
  have r1: "heap_ready s1" "hwf (heap_st s1)" using uvm_okD(3,4) [OF i(2)] by simp_all
  have "uvm_pages s ?pt \<inter> uvm_frames s vm = {}" using old(2) fr by blast
  note p1 = uvm_frame [OF old(1) i(4) this r1]
  have a1: "a \<in> live (heap_st s1)" "same_page (mem s) (mem s1) a" "a \<notin> uvm_pages s1 vm"
    using i(4,5) a(2) fr by (auto simp: touches_def)
  have tab: "k_table s1 = k_table s" using same_rest_kernel(1) [OF i(3)] .
  obtain s2 where b: "set_pagetable E c vm s1 = Inr s2" "hwf (heap_st s2)" "heap_ready s2"
    "same_rest (upd_proc c (\<lambda>q. q\<lparr>p_pagetable := vm\<rparr>) s1) s2" "touches live (uvm_pages s ?pt) s1 s2"
    using set_pagetable_ok [of c s1 vm] c(1) p1(1,3) unfolding tab by metis
  have used: "uvm_pages s ?pt \<subseteq> live (heap_st s)" using uvm_pages_live(1,2) [OF old(1)] by (simp add: child_pages_def)
  then have "uvm_pages s1 vm \<inter> uvm_pages s ?pt = {}" using i(5) old(2) by blast
  note v2 = uvm_frame [OF i(2) b(5) this b(3,2)]
  have a2: "a \<in> live (heap_st s2)" "same_page (mem s1) (mem s2) a" using b(5) a1(1) old(2) by (auto simp: touches_def)
  show thesis
  proof (rule that [OF _ b(1) _ b(3,2) _ v2(1)])
    show "Uvm_init_proc E vm (p_trapframe (k_table s ! c)) s = Inr (Ok (), s1)" using i(1) c(2) by simp
    show "same_rest (upd_proc c (\<lambda>p. p\<lparr>p_pagetable := vm\<rparr>) s) s2" using same_rest_trans [OF same_rest_upd_proc [OF i(3)] b(4)] .
    show "touches live (uvm_frames s vm \<union> uvm_pages s ?pt) s s2"
      by (rule touches_trans [OF touches_mono [OF i(4)] b(5)]) auto
    show "a \<in> live (heap_st s2) - uvm_pages s2 vm" using a2(1) a1(3) v2(3) by simp
    show "uvm_pages s2 vm \<inter> live (heap_st s) \<subseteq> uvm_pages s vm" using v2(3) i(5) by simp
    show "\<forall>va. in_range (uvm_begin vm) (unat (uvm_size vm)) va \<longrightarrow> user_view s2 vm va = user_view s vm va"
      using v2(4) i(7) by simp
    show "\<forall>f. tf_get (mem s2) a f = tf_get (mem s) a f"
      using tf_get_same_page [OF a(1) a2(2)] tf_get_same_page [OF a(1) a1(2)] by simp
  qed
qed

text \<open>Both together touch only pages of the child's slot.\<close>

lemma fork_build:
  assumes ok: "heap_ready s" "hwf (heap_st s)" "slot_ok hwf live s (k_table s ! i)" "slot_ok hwf live s (k_table s ! c)"
    and idx: "c < length (k_table s)" "i \<noteq> c" and dis: "slot_pages s (k_table s ! i) \<inter> slot_pages s (k_table s ! c) = {}"
    and uv: "uv = p_pagetable (k_table s ! i)"
    and l2: "\<And>va. in_range (uvm_begin uv) (unat (uvm_size uv)) va \<Longrightarrow> leaf_addr (mem s) (pt_root (uvm_pagetable uv)) va \<noteq> None"
    and tr: "page_aligned (sym_trampoline E)" "unat (sym_trampoline E) + 4096 < 2 ^ 32"
    and sup: "takes E (4 + 2 * (unat (uvm_size uv) div 4096)) (heap_st s) \<noteq> None"
  obtains s3 s4 s5 s6 a vm where
    "set_trapframe E c (Trapframe_read (mem s) (p_trapframe (k_table s ! i))) s = Inr s3"
    "Uvm_clone E (p_pagetable (k_table s3 ! i)) s3 = Inr (vm, s4)"
    "Uvm_init_proc E vm (p_trapframe (k_table s4 ! c)) s4 = Inr (Ok (), s5)" "set_pagetable E c vm s5 = Inr s6"
    "same_rest (upd_proc c (\<lambda>p. p\<lparr>p_trapframe := a, p_pagetable := vm\<rparr>) s) s6" "heap_ready s6" "hwf (heap_st s6)"
    "touches live (slot_pages s (k_table s ! c)) s s6" "uvm_ok hwf live s6 vm" "a \<in> live (heap_st s6) - uvm_pages s6 vm"
    "insert a (uvm_pages s6 vm) \<inter> live (heap_st s) \<subseteq> slot_pages s (k_table s ! c)"
    "uvm_begin vm = uvm_begin uv" "uvm_size vm = uvm_size uv"
    "\<forall>va. in_range (uvm_begin vm) (unat (uvm_size vm)) va \<longrightarrow> user_view s6 vm va = user_view s uv va"
    "\<forall>f. tf_get (mem s6) a f = tf_get (mem s) (p_trapframe (k_table s ! i)) f"
proof -
  let ?old = "p_trapframe (k_table s ! c)" and ?pt = "p_pagetable (k_table s ! c)"
  note kc = slot_okD [OF ok(4)]
  have d: "uvm_pages s ?pt \<inter> {?old} = {}" "uvm_pages s ?pt \<subseteq> live (heap_st s)" using kc(3,4) by (auto simp: slot_pages_def)
  obtain s3 s4 a vm where f: "set_trapframe E c (Trapframe_read (mem s) (p_trapframe (k_table s ! i))) s = Inr s3"
    "Uvm_clone E (p_pagetable (k_table s3 ! i)) s3 = Inr (vm, s4)"
    "same_rest (upd_proc c (\<lambda>p. p\<lparr>p_trapframe := a\<rparr>) s) s4" "touches live {?old} s s4"
    "uvm_ok hwf live s4 vm" "page_aligned a" "a \<in> live (heap_st s4) - uvm_pages s4 vm"
    "insert a (uvm_pages s4 vm) \<inter> live (heap_st s) \<subseteq> {?old}" "uvm_begin vm = uvm_begin uv" "uvm_size vm = uvm_size uv"
    "\<forall>va. in_range (uvm_begin vm) (unat (uvm_size vm)) va \<longrightarrow> user_view s4 vm va = user_view s uv va"
    "\<forall>f. tf_get (mem s4) a f = tf_get (mem s) (p_trapframe (k_table s ! i)) f" "takes E 2 (heap_st s4) \<noteq> None"
    by (rule fork_copy [OF ok idx dis uv l2 sup])
  have r4: "heap_ready s4" "hwf (heap_st s4)" using uvm_okD(3,4) [OF f(5)] by simp_all
  have tab: "k_table s4 = (k_table s)[c := (k_table s ! c)\<lparr>p_trapframe := a\<rparr>]" using same_rest_kernel(1) [OF f(3)] by simp
  then have c4: "c < length (k_table s4)" "p_trapframe (k_table s4 ! c) = a" "p_pagetable (k_table s4 ! c) = ?pt" using idx(1) by simp_all
  note p4 = uvm_frame [OF kc(1) f(4) d(1) r4]
  have "uvm_pages s4 ?pt \<inter> insert a (uvm_pages s4 vm) = {}" using p4(3) f(8) d by blast
  from fork_install [OF f(5) c4(1,2) _ _ f(6,7) tr f(13), unfolded c4(3), OF p4(1) this]
  obtain s5 s6 where g: "Uvm_init_proc E vm (p_trapframe (k_table s4 ! c)) s4 = Inr (Ok (), s5)" "set_pagetable E c vm s5 = Inr s6"
    "same_rest (upd_proc c (\<lambda>p. p\<lparr>p_pagetable := vm\<rparr>) s4) s6" "heap_ready s6" "hwf (heap_st s6)"
    "touches live (uvm_frames s4 vm \<union> uvm_pages s4 ?pt) s4 s6"
    "uvm_ok hwf live s6 vm" "a \<in> live (heap_st s6) - uvm_pages s6 vm" "uvm_pages s6 vm \<inter> live (heap_st s4) \<subseteq> uvm_pages s4 vm"
    "\<forall>va. in_range (uvm_begin vm) (unat (uvm_size vm)) va \<longrightarrow> user_view s6 vm va = user_view s4 vm va"
    "\<forall>f. tf_get (mem s6) a f = tf_get (mem s4) a f" by blast
  have 4: "touches live (slot_pages s (k_table s ! c)) s s4" by (rule touches_mono [OF f(4)]) (auto simp: slot_pages_def)
  show thesis
  proof (rule that [OF f(1,2) g(1,2) _ g(4,5) _ g(7,8) _ f(9,10)])
    show "same_rest (upd_proc c (\<lambda>p. p\<lparr>p_trapframe := a, p_pagetable := vm\<rparr>) s) s6"
      using same_rest_trans [OF same_rest_upd_proc [OF f(3)] g(3)] by (simp add: upd_proc_upd_proc)
    show "touches live (slot_pages s (k_table s ! c)) s s6"
      using f(8) p4(3) by (intro touches_trans [OF 4 g(6)]) (auto simp: slot_pages_def child_pages_def)
    have "live (heap_st s) - {?old} \<subseteq> live (heap_st s4)" using f(4) by (auto simp: touches_def)
    then show "insert a (uvm_pages s6 vm) \<inter> live (heap_st s) \<subseteq> slot_pages s (k_table s ! c)"
      using f(8) g(9) by (auto simp: slot_pages_def)
  qed (use f(11,12) g(10,11) in auto)
qed

section \<open>kfork\<close>

text \<open>\<open>allocproc\<close> keeps the slots apart.\<close>

lemma allocproc_procs:
  assumes P: "procs_ok hwf live s" and lk: "locks_free s" "int_ok (pushed s)"
    and c: "find_index (\<lambda>p. p_state p = Unused) (k_table s) = Some c" and pid: "k_pid s \<noteq> 0xffffffff"
    and sup: "takes E (Suc n) (heap_st s) \<noteq> None"
  obtains s' q where "allocproc E s = Inr (Some c, s')" "procs_ok hwf live s'" "k_table s' = (k_table s)[c := q]"
    "p_pid q = Some (k_pid s)"
    "same_rest ((pushed s)\<lparr>k_pid := k_pid s + 1, k_table := (k_table s)[c := q]\<rparr>) s'"
    "touches live (slot_pages s (k_table s ! c)) s s'" "slot_pages s' q \<inter> live (heap_st s) \<subseteq> slot_pages s (k_table s ! c)"
    "takes E n (heap_st s') \<noteq> None"
proof -
  note D = procs_okD [OF P]
  have len: "c < length (k_table s)" using find_index_Some [OF c] by simp
  note kc = slot_okD [OF D(3) [OF len]]
  let ?q = "\<lambda>a. (k_table s ! c)\<lparr>p_pid := Some (k_pid s), p_state := Used, p_trapframe := a, p_lock := True,
    p_context := Context_zero\<lparr>ctx_ra := fn_forkret E, ctx_sp := p_kstack (k_table s ! c) + 8192\<rparr>, p_cont := In_forkret\<rparr>"
  obtain a s' where r: "allocproc E s = Inr (Some c, s')"
    "same_rest ((pushed s)\<lparr>k_pid := k_pid s + 1, k_table := (k_table s)[c := ?q a]\<rparr>) s'" "a \<notin> live (heap_st s)"
    "live (heap_st s') = insert a (live (heap_st s)) - {p_trapframe (k_table s ! c)}" "hwf (heap_st s')" "heap_ready s'"
    "touches live {p_trapframe (k_table s ! c)} s s'" "takes E n (heap_st s') \<noteq> None"
    by (rule allocproc_ok [OF D(1,2) lk c pid D(3) [OF len] sup])
  have tab: "k_table s' = (k_table s)[c := ?q a]" using same_rest_kernel(1) [OF r(2)] by simp
  have t: "touches live (slot_pages s (k_table s ! c)) s s'" by (rule touches_mono [OF r(7)]) (auto simp: slot_pages_def)
  have "uvm_pages s (p_pagetable (k_table s ! c)) \<inter> {p_trapframe (k_table s ! c)} = {}" using kc(3) by simp
  note u = uvm_frame [OF kc(1) r(7) this r(6,5)]
  have used: "a \<notin> uvm_pages s (p_pagetable (k_table s ! c))" using r(3) kc(4) by (auto simp: slot_pages_def)
  have ok: "slot_ok hwf live s' (?q a)" using u(1,3) used r(3,4) kc by (auto simp: slot_ok_def)
  have pages: "slot_pages s' (?q a) \<inter> live (heap_st s) \<subseteq> slot_pages s (k_table s ! c)"
    using u(3) r(3) by (auto simp: slot_pages_def)
  have "procs_ok hwf live s'" by (rule procs_ok_replace [OF P len t tab ok pages r(6,5)])
  from that [OF r(1) this tab _ r(2) t pages r(8)] show thesis by simp
qed

text \<open>The state after the child has been published and the kernel lock released.\<close>

lemma fork_end:
  assumes "heap_ready s" "i \<noteq> c" "c < length (k_table s)" "p_pid (k_table s ! c) = Some pid" "interrupt_off_stack (cpu s) = 2"
  obtains s' where "bind_ok (unlock_manual E (proc_lockref c) s) (\<lambda>s9.
      let s10 = upd_proc c (\<lambda>p. p\<lparr>p_parent := p_pid (k_table s9 ! i)\<rparr>) s9 in
      bind_ok (lock_manual E (proc_lockref c) s10) (\<lambda>s11.
      let s12 = upd_proc c (\<lambda>p. p\<lparr>p_state := Runnable\<rparr>) s11 in
      bind_ok (unlock_manual E (proc_lockref c) s12) (\<lambda>s13.
      let res = (case p_pid (k_table s13 ! c) of None \<Rightarrow> Err | Some pid \<Rightarrow> Ok pid) in
      bind_ok (kernel_release E s13) (\<lambda>s14. Inr (res, s14))))) = Inr (Ok pid, s')"
    "k_table s' = (k_table s)[c := (k_table s ! c)\<lparr>p_parent := p_pid (k_table s ! i), p_state := Runnable, p_lock := False\<rparr>]"
    "mem s' = mem s" "heap_st s' = heap_st s" "heap_ready s'"
proof -
  let ?s9 = "popped (upd_proc c (\<lambda>p. p\<lparr>p_lock := False\<rparr>) s)"
  let ?s10 = "upd_proc c (\<lambda>p. p\<lparr>p_parent := p_pid (k_table ?s9 ! i)\<rparr>) ?s9"
  let ?s12 = "upd_proc c (\<lambda>p. p\<lparr>p_state := Runnable\<rparr>) (upd_proc c (\<lambda>p. p\<lparr>p_lock := True\<rparr>) (pushed ?s10))"
  let ?s13 = "popped (upd_proc c (\<lambda>p. p\<lparr>p_lock := False\<rparr>) ?s12)"
  let ?s14 = "popped (?s13\<lparr>kernel_lock := False\<rparr>)"
  have off: "\<not> interrupt_read (csrs s)" using assms(1,5) by (simp add: heap_ready_def int_ok_def)
  have 9: "unlock_manual E (proc_lockref c) s = Inr ?s9" using assms(5) by (intro proc_unlock_eq) simp
  have "int_ok ?s10" using assms(5) off by (simp add: int_ok_def popped_def)
  then have 11: "lock_manual E (proc_lockref c) ?s10 = Inr (upd_proc c (\<lambda>p. p\<lparr>p_lock := True\<rparr>) (pushed ?s10))"
    using assms(3) by (intro proc_lock_eq) simp_all
  have 13: "unlock_manual E (proc_lockref c) ?s12 = Inr ?s13" using assms(5) by (intro proc_unlock_eq) simp
  have 14: "kernel_release E ?s13 = Inr ?s14" using assms(5) by (intro kernel_release_eq) simp
  have pid: "p_pid (k_table ?s13 ! c) = Some pid" using assms(3,4) by simp
  have "heap_ready ?s14" using assms(1,5) by (simp add: heap_ready_def int_ok_def)
  moreover have "k_table ?s14 = (k_table s)[c := (k_table s ! c)\<lparr>p_parent := p_pid (k_table s ! i), p_state := Runnable, p_lock := False\<rparr>]"
    using assms(2,3) by simp
  ultimately show thesis
    using that [of ?s14] 9 11 13 14 pid by (simp add: Let_def)
qed

lemma fork_finish:
  assumes P: "procs_ok hwf live s" and idx: "i \<noteq> c" "i < length (k_table s)" "c < length (k_table s)"
    and pid: "p_pid (k_table s ! c) = Some pid" and lvl: "interrupt_off_stack (cpu s) = 2"
  obtains s' where "(let s7 = trapframe_set c tf_a0 0 s in
      bind_ok (unwrap ''called Option::unwrap() on a None value'' (p_pid (k_table s7 ! c))) (\<lambda>cpid.
      let s8 = trapframe_set i tf_a0 cpid s7 in
      bind_ok (unlock_manual E (proc_lockref c) s8) (\<lambda>s9.
      let s10 = upd_proc c (\<lambda>p. p\<lparr>p_parent := p_pid (k_table s9 ! i)\<rparr>) s9 in
      bind_ok (lock_manual E (proc_lockref c) s10) (\<lambda>s11.
      let s12 = upd_proc c (\<lambda>p. p\<lparr>p_state := Runnable\<rparr>) s11 in
      bind_ok (unlock_manual E (proc_lockref c) s12) (\<lambda>s13.
      let res = (case p_pid (k_table s13 ! c) of None \<Rightarrow> Err | Some pid \<Rightarrow> Ok pid) in
      bind_ok (kernel_release E s13) (\<lambda>s14. Inr (res, s14))))))) = Inr (Ok pid, s')"
    "procs_ok hwf live s'"
    "k_table s' = (k_table s)[c := (k_table s ! c)\<lparr>p_parent := p_pid (k_table s ! i), p_state := Runnable, p_lock := False\<rparr>]"
    "touches live {p_trapframe (k_table s ! c), p_trapframe (k_table s ! i)} s s'"
    "\<forall>f. trapframe_get c f s' = (if f = tf_a0 then 0 else trapframe_get c f s)"
    "\<forall>f. trapframe_get i f s' = (if f = tf_a0 then pid else trapframe_get i f s)"
proof -
  let ?a = "p_trapframe (k_table s ! c)" and ?tf = "p_trapframe (k_table s ! i)"
  let ?s7 = "trapframe_set c tf_a0 0 s"
  let ?s8 = "trapframe_set i tf_a0 pid ?s7"
  note D = procs_okD [OF P]
  have tab: "k_table ?s7 = k_table s" "k_table ?s8 = k_table s" "cpu ?s8 = cpu s" "heap_st ?s8 = heap_st s"
    by (simp_all add: trapframe_set_def)
  have al: "page_aligned ?a" "page_aligned ?tf"
    using live_pages [OF D(2)] slot_okD(2) [OF D(3) [OF idx(3)]] slot_okD(2) [OF D(3) [OF idx(2)]] by simp_all
  have ne: "?a \<noteq> ?tf" using D(4) [OF idx(3,2)] idx(1) by (auto simp: slot_pages_def)
  have P7: "procs_ok hwf live ?s7" by (rule procs_ok_trapframe_set [OF P idx(3) al(1)])
  have P8: "procs_ok hwf live ?s8" by (rule procs_ok_trapframe_set [OF P7]) (use idx al tab in simp_all)
  obtain s' where e: "bind_ok (unlock_manual E (proc_lockref c) ?s8) (\<lambda>s9.
      let s10 = upd_proc c (\<lambda>p. p\<lparr>p_parent := p_pid (k_table s9 ! i)\<rparr>) s9 in
      bind_ok (lock_manual E (proc_lockref c) s10) (\<lambda>s11.
      let s12 = upd_proc c (\<lambda>p. p\<lparr>p_state := Runnable\<rparr>) s11 in
      bind_ok (unlock_manual E (proc_lockref c) s12) (\<lambda>s13.
      let res = (case p_pid (k_table s13 ! c) of None \<Rightarrow> Err | Some pid \<Rightarrow> Ok pid) in
      bind_ok (kernel_release E s13) (\<lambda>s14. Inr (res, s14))))) = Inr (Ok pid, s')"
    "k_table s' = (k_table ?s8)[c := (k_table ?s8 ! c)\<lparr>p_parent := p_pid (k_table ?s8 ! i), p_state := Runnable, p_lock := False\<rparr>]"
    "mem s' = mem ?s8" "heap_st s' = heap_st ?s8" "heap_ready s'"
    by (rule fork_end [OF procs_okD(1) [OF P8] idx(1)]) (use idx pid lvl tab in simp_all)
  have P': "procs_ok hwf live s'"
    using e(2) idx(3) tab by (intro procs_ok_cong [OF P8 _ e(3-5)])
      (auto simp: core_fields_def map_update intro!: list_update_same_conv [THEN iffD2])
  have m: "mem s' = tf_set (tf_set (mem s) ?a tf_a0 0) ?tf tf_a0 pid" using e(3) tab by (simp add: trapframe_set_def)
  have "same_page (mem s) (mem s') q" if "q \<noteq> ?a" "q \<noteq> ?tf" for q
    unfolding m using same_page_trans [OF tf_set_same_page [OF al(1)] tf_set_same_page [OF al(2)]] that by blast
  then have "touches live {?a, ?tf} s s'" using e(4) tab by (auto simp: touches_def)
  moreover have "p_trapframe (k_table s' ! c) = ?a" "p_trapframe (k_table s' ! i) = ?tf" using e(2) tab idx by simp_all
  moreover have "tf_get (mem s') ?a f = (if f = tf_a0 then 0 else tf_get (mem s) ?a f)" for f
    unfolding m using tf_get_same_page [OF al(1) tf_set_same_page [OF al(2) ne]] by (simp add: tf_get_set [OF page_aligned_imp_word_aligned [OF al(1)]])
  moreover have "tf_get (mem s') ?tf f = (if f = tf_a0 then pid else tf_get (mem s) ?tf f)" for f
    unfolding m using tf_get_same_page [OF al(2) tf_set_same_page [OF al(1) ne [symmetric]]]
    by (simp add: tf_get_set [OF page_aligned_imp_word_aligned [OF al(2)]])
  ultimately show thesis
    using that [of s'] e(1,2) P' tab pid by (simp add: Let_def trapframe_get_def)
qed

lemma pages_trans:
  assumes "X \<inter> live (heap_st s') \<subseteq> Q" "Q \<inter> live (heap_st s) \<subseteq> P" "touches live P s s'"
  shows "X \<inter> live (heap_st s) \<subseteq> P"
  using assms unfolding touches_def by blast

text \<open>From the entry of \<open>kfork\<close> to the point where the child owns its memory.\<close>

lemma fork_child:
  assumes lvl: "interrupt_off_stack (cpu s) = 1" and P: "procs_ok hwf live s" and lk: "locks_free s" and pid: "k_pid s \<noteq> 0xffffffff"
    and c: "find_index (\<lambda>p. p_state p = Unused) (k_table s) = Some c" and i: "i < length (k_table s)" "i \<noteq> c"
    and uv: "uv = p_pagetable (k_table s ! i)"
    and l2: "\<And>va. in_range (uvm_begin uv) (unat (uvm_size uv)) va \<Longrightarrow> leaf_addr (mem s) (pt_root (uvm_pagetable uv)) va \<noteq> None"
    and tr: "page_aligned (sym_trampoline E)" "unat (sym_trampoline E) + 4096 < 2 ^ 32"
    and sup: "takes E (5 + 2 * (unat (uvm_size uv) div 4096)) (heap_st s) \<noteq> None"
  obtains s2 s3 s4 s5 s6 q where "allocproc E s = Inr (Some c, s2)"
    "set_trapframe E c (Trapframe_read (mem s2) (p_trapframe (k_table s2 ! i))) s2 = Inr s3"
    "Uvm_clone E (p_pagetable (k_table s3 ! i)) s3 = Inr (p_pagetable q, s4)"
    "Uvm_init_proc E (p_pagetable q) (p_trapframe (k_table s4 ! c)) s4 = Inr (Ok (), s5)" "set_pagetable E c (p_pagetable q) s5 = Inr s6"
    "procs_ok hwf live s6" "k_table s6 = (k_table s)[c := q]" "p_pid q = Some (k_pid s)" "interrupt_off_stack (cpu s6) = 2"
    "touches live (slot_pages s (k_table s ! c)) s s6" "slot_pages s6 q \<inter> live (heap_st s) \<subseteq> slot_pages s (k_table s ! c)"
    "uvm_begin (p_pagetable q) = uvm_begin uv" "uvm_size (p_pagetable q) = uvm_size uv"
    "\<forall>va. in_range (uvm_begin uv) (unat (uvm_size uv)) va \<longrightarrow> user_view s6 (p_pagetable q) va = user_view s uv va"
    "\<forall>f. tf_get (mem s6) (p_trapframe q) f = trapframe_get i f s"
proof -
  note D = procs_okD [OF P]
  have len: "c < length (k_table s)" using find_index_Some [OF c] by simp
  have int: "int_ok (pushed s)" using D(1) lvl by (simp add: heap_ready_def int_ok_def)
  have n: "5 + 2 * (unat (uvm_size uv) div 4096) = Suc (4 + 2 * (unat (uvm_size uv) div 4096))" by simp
  obtain s2 q2 where a: "allocproc E s = Inr (Some c, s2)" "procs_ok hwf live s2" "k_table s2 = (k_table s)[c := q2]"
    "p_pid q2 = Some (k_pid s)" "same_rest ((pushed s)\<lparr>k_pid := k_pid s + 1, k_table := (k_table s)[c := q2]\<rparr>) s2"
    "touches live (slot_pages s (k_table s ! c)) s s2" "slot_pages s2 q2 \<inter> live (heap_st s) \<subseteq> slot_pages s (k_table s ! c)"
    "takes E (4 + 2 * (unat (uvm_size uv) div 4096)) (heap_st s2) \<noteq> None"
    by (rule allocproc_procs [OF P lk int c pid sup [unfolded n]])
  note D2 = procs_okD [OF a(2)]
  have i2: "k_table s2 ! i = k_table s ! i" "k_table s2 ! c = q2" "i < length (k_table s2)" "c < length (k_table s2)"
    using a(3) i len by simp_all
  have dis: "slot_pages s (k_table s ! i) \<inter> slot_pages s (k_table s ! c) = {}" by (rule D(4) [OF i(1) len i(2)])
  then have "uvm_pages s uv \<inter> slot_pages s (k_table s ! c) = {}" by (auto simp: slot_pages_def uv)
  note u2 = uvm_frame [OF slot_okD(1) [OF D(3) [OF i(1)], folded uv] a(6) this D2(1,2)]
  have sp: "same_page (mem s) (mem s2) p" if "p \<in> slot_pages s (k_table s ! i)" for p
    using touchesD(2) [OF a(6) slot_okD(4) [OF D(3) [OF i(1)]] dis] that by blast
  have "leaf_addr (mem s2) (pt_root (uvm_pagetable uv)) va = leaf_addr (mem s) (pt_root (uvm_pagetable uv)) va" for va
    using pt_wfD(1) [OF table_okD(3) [OF uvm_okD(2) [OF slot_okD(1) [OF D(3) [OF i(1)]]]]]
    by (intro leaf_addr_frame sp) (simp_all add: slot_pages_def child_pages_def uv)
  then have l2': "leaf_addr (mem s2) (pt_root (uvm_pagetable uv)) va \<noteq> None"
    if "in_range (uvm_begin uv) (unat (uvm_size uv)) va" for va using l2 [OF that] by simp
  have uv2: "uv = p_pagetable (k_table s2 ! i)" using i2(1) uv by simp
  obtain s3 s4 s5 s6 b vm where f:
    "set_trapframe E c (Trapframe_read (mem s2) (p_trapframe (k_table s2 ! i))) s2 = Inr s3"
    "Uvm_clone E (p_pagetable (k_table s3 ! i)) s3 = Inr (vm, s4)"
    "Uvm_init_proc E vm (p_trapframe (k_table s4 ! c)) s4 = Inr (Ok (), s5)" "set_pagetable E c vm s5 = Inr s6"
    "same_rest (upd_proc c (\<lambda>p. p\<lparr>p_trapframe := b, p_pagetable := vm\<rparr>) s2) s6" "heap_ready s6" "hwf (heap_st s6)"
    "touches live (slot_pages s2 (k_table s2 ! c)) s2 s6" "uvm_ok hwf live s6 vm" "b \<in> live (heap_st s6) - uvm_pages s6 vm"
    "insert b (uvm_pages s6 vm) \<inter> live (heap_st s2) \<subseteq> slot_pages s2 (k_table s2 ! c)"
    "uvm_begin vm = uvm_begin uv" "uvm_size vm = uvm_size uv"
    "\<forall>va. in_range (uvm_begin vm) (unat (uvm_size vm)) va \<longrightarrow> user_view s6 vm va = user_view s2 uv va"
    "\<forall>f. tf_get (mem s6) b f = tf_get (mem s2) (p_trapframe (k_table s2 ! i)) f"
    by (rule fork_build [OF D2(1,2) D2(3) [OF i2(3)] D2(3) [OF i2(4)] i2(4) i(2) D2(4) [OF i2(3,4) i(2)] uv2 l2' tr a(8)])
  let ?q = "q2\<lparr>p_trapframe := b, p_pagetable := vm\<rparr>"
  have tab: "k_table s6 = (k_table s2)[c := ?q]" using same_rest_kernel(1) [OF f(5)] i2(2) by simp
  have ok6: "slot_ok hwf live s6 ?q" using f(9,10) slot_okD(5) [OF D2(3) [OF i2(4)]] i2(2) by (simp add: slot_ok_def)
  have pg: "slot_pages s6 ?q \<inter> live (heap_st s2) \<subseteq> slot_pages s2 (k_table s2 ! c)" using f(11) by (simp add: slot_pages_def)
  have al: "page_aligned (p_trapframe (k_table s ! i))" using live_pages [OF D(2)] slot_okD(2) [OF D(3) [OF i(1)]] by simp
  have tf: "tf_get (mem s2) (p_trapframe (k_table s ! i)) f = trapframe_get i f s" for f
    using tf_get_same_page [OF al sp] by (simp add: slot_pages_def trapframe_get_def)
  show thesis
  proof (rule that [of s2 s3 ?q s4 s5 s6])
    show "procs_ok hwf live s6" by (rule procs_ok_replace [OF a(2) i2(4) f(8) tab ok6 pg f(6,7)])
    show "interrupt_off_stack (cpu s6) = 2" using same_rest_kernel(7) [OF f(5)] same_rest_kernel(7) [OF a(5)] lvl by simp
    show "touches live (slot_pages s (k_table s ! c)) s s6"
      by (rule touches_trans [OF a(6) f(8)]) (use a(7) i2(2) in simp)
    show "slot_pages s6 ?q \<inter> live (heap_st s) \<subseteq> slot_pages s (k_table s ! c)"
      by (rule pages_trans [OF pg _ a(6)]) (use a(7) i2(2) in simp)
    show "\<forall>va. in_range (uvm_begin uv) (unat (uvm_size uv)) va \<longrightarrow> user_view s6 (p_pagetable ?q) va = user_view s uv va"
      using f(12-14) u2(4) by simp
    show "\<forall>f. tf_get (mem s6) (p_trapframe ?q) f = trapframe_get i f s" using f(15) i2(1) tf by simp
    show "k_table s6 = (k_table s)[c := ?q]" using tab a(3) by simp
  qed (use a f in simp_all)
qed

lemma kfork_ok:
  assumes own: "in_kernel i s" and P: "procs_ok hwf live s" and pid: "k_pid s \<noteq> 0xffffffff"
    and c: "find_index (\<lambda>p. p_state p = Unused) (k_table s) = Some c" and ic: "i \<noteq> c"
    and uv: "uv = p_pagetable (k_table s ! i)"
    and l2: "\<And>va. in_range (uvm_begin uv) (unat (uvm_size uv)) va \<Longrightarrow> leaf_addr (mem s) (pt_root (uvm_pagetable uv)) va \<noteq> None"
    and tr: "page_aligned (sym_trampoline E)" "unat (sym_trampoline E) + 4096 < 2 ^ 32"
    and sup: "takes E (5 + 2 * (unat (uvm_size uv) div 4096)) (heap_st s) \<noteq> None"
  obtains s' q where "kfork E i s = Inr (Ok (k_pid s), s')" "procs_ok hwf live s'" "k_table s' = (k_table s)[c := q]"
    "touches live (insert (p_trapframe (k_table s ! i)) (slot_pages s (k_table s ! c))) s s'"
    "slot_pages s' q \<inter> live (heap_st s) \<subseteq> slot_pages s (k_table s ! c)"
    "uvm_begin (p_pagetable q) = uvm_begin uv" "uvm_size (p_pagetable q) = uvm_size uv"
    "\<forall>va. in_range (uvm_begin uv) (unat (uvm_size uv)) va \<longrightarrow> user_view s' (p_pagetable q) va = user_view s uv va"
    "\<forall>f. trapframe_get c f s' = (if f = tf_a0 then 0 else trapframe_get i f s)"
    "\<forall>f. trapframe_get i f s' = (if f = tf_a0 then k_pid s else trapframe_get i f s)"
proof -
  let ?s1 = "(pushed s)\<lparr>kernel_lock := True\<rparr>" and ?tf = "p_trapframe (k_table s ! i)"
  note D = procs_okD [OF P]
  have q: "interrupt_off_stack (cpu s) = 0" "locks_free s" "i < length (k_table s)" using own by (auto simp: in_kernel_def quiet_def)
  have len: "c < length (k_table s)" using find_index_Some [OF c] by simp
  have r1: "heap_ready ?s1" using D(1) q(1) by (simp add: heap_ready_def int_ok_def)
  have P1: "procs_ok hwf live ?s1" by (rule procs_ok_cong [OF P]) (use r1 in simp_all)
  have pg: "slot_pages ?s1 p = slot_pages s p" for p by (simp add: slot_pages_def child_pages_def)
  have h: "interrupt_off_stack (cpu ?s1) = 1" "locks_free ?s1" "k_pid ?s1 \<noteq> 0xffffffff"
    "find_index (\<lambda>p. p_state p = Unused) (k_table ?s1) = Some c" "i < length (k_table ?s1)" "uv = p_pagetable (k_table ?s1 ! i)"
    "takes E (5 + 2 * (unat (uvm_size uv) div 4096)) (heap_st ?s1) \<noteq> None"
    using q c pid uv sup by (simp_all add: locks_free_def)
  have l2': "leaf_addr (mem ?s1) (pt_root (uvm_pagetable uv)) va \<noteq> None"
    if "in_range (uvm_begin uv) (unat (uvm_size uv)) va" for va using l2 [OF that] by simp
  obtain s2 s3 s4 s5 s6 p where f: "allocproc E ?s1 = Inr (Some c, s2)"
    "set_trapframe E c (Trapframe_read (mem s2) (p_trapframe (k_table s2 ! i))) s2 = Inr s3"
    "Uvm_clone E (p_pagetable (k_table s3 ! i)) s3 = Inr (p_pagetable p, s4)"
    "Uvm_init_proc E (p_pagetable p) (p_trapframe (k_table s4 ! c)) s4 = Inr (Ok (), s5)" "set_pagetable E c (p_pagetable p) s5 = Inr s6"
    "procs_ok hwf live s6" "k_table s6 = (k_table ?s1)[c := p]" "p_pid p = Some (k_pid ?s1)" "interrupt_off_stack (cpu s6) = 2"
    "touches live (slot_pages ?s1 (k_table ?s1 ! c)) ?s1 s6" "slot_pages s6 p \<inter> live (heap_st ?s1) \<subseteq> slot_pages ?s1 (k_table ?s1 ! c)"
    "uvm_begin (p_pagetable p) = uvm_begin uv" "uvm_size (p_pagetable p) = uvm_size uv"
    "\<forall>va. in_range (uvm_begin uv) (unat (uvm_size uv)) va \<longrightarrow> user_view s6 (p_pagetable p) va = user_view ?s1 uv va"
    "\<forall>f. tf_get (mem s6) (p_trapframe p) f = trapframe_get i f ?s1"
    by (rule fork_child [OF h(1) P1 h(2-5) ic h(6) l2' tr h(7)])
  have i6: "k_table s6 ! i = k_table s ! i" "k_table s6 ! c = p" "i < length (k_table s6)" "c < length (k_table s6)"
    "p_pid (k_table s6 ! c) = Some (k_pid s)"
    using f(7,8) ic len q(3) by simp_all
  note g = fork_finish [OF f(6) ic i6(3-5) f(9), unfolded i6(1,2)]
  let ?q = "p\<lparr>p_parent := p_pid (k_table s ! i), p_state := Runnable, p_lock := False\<rparr>"
  obtain s' where e: "kfork E i s = Inr (Ok (k_pid s), s')"
    "procs_ok hwf live s'" "k_table s' = (k_table s6)[c := ?q]" "touches live {p_trapframe p, ?tf} s6 s'"
    "\<forall>f. trapframe_get c f s' = (if f = tf_a0 then 0 else trapframe_get c f s6)"
    "\<forall>f. trapframe_get i f s' = (if f = tf_a0 then k_pid s else trapframe_get i f s6)"
    by (rule g) (use f(1-5) in \<open>simp add: kfork_def in_kernel_acquire [OF own]\<close>)
  note D6 = procs_okD [OF f(6)]
  have pi: "slot_pages s (k_table s ! i) \<inter> slot_pages s (k_table s ! c) = {}" by (rule D(4) [OF q(3) len ic])
  have t6: "touches live (slot_pages s (k_table s ! c)) s s6" "slot_pages s6 p \<inter> live (heap_st s) \<subseteq> slot_pages s (k_table s ! c)"
    using f(10,11) by (simp_all add: pg) (simp add: touches_def)
  have ok: "slot_ok hwf live s6 p" "slot_pages s6 (k_table s ! i) \<inter> slot_pages s6 p = {}"
    using D6(3) [OF i6(4)] D6(4) [OF i6(3,4) ic] i6(1,2) by simp_all
  then have "uvm_pages s6 (p_pagetable p) \<inter> {p_trapframe p, ?tf} = {}" using slot_okD(3) [OF ok(1)] by (auto simp: slot_pages_def)
  note v = uvm_frame [OF slot_okD(1) [OF ok(1)] e(4) this procs_okD(1,2) [OF e(2)]]
  have "page_aligned ?tf" "?tf \<in> slot_pages s (k_table s ! i)"
    using live_pages [OF D(2)] slot_okD(2) [OF D(3) [OF q(3)]] by (simp_all add: slot_pages_def)
  then have tf: "tf_get (mem s6) ?tf f = tf_get (mem s) ?tf f" for f
    using tf_get_same_page touchesD(2) [OF t6(1) slot_okD(4) [OF D(3) [OF q(3)]] pi] by blast
  show thesis
  proof (rule that [OF e(1,2), of ?q])
    show "k_table s' = (k_table s)[c := ?q]" using e(3) f(7) by simp
    show "touches live (insert ?tf (slot_pages s (k_table s ! c))) s s'"
      using t6(2) by (intro touches_trans [OF touches_mono [OF t6(1)] e(4)]) (auto simp: slot_pages_def)
    show "slot_pages s' ?q \<inter> live (heap_st s) \<subseteq> slot_pages s (k_table s ! c)" using t6(2) v(3) by (simp add: slot_pages_def)
    show "\<forall>va. in_range (uvm_begin uv) (unat (uvm_size uv)) va \<longrightarrow> user_view s' (p_pagetable ?q) va = user_view s uv va"
      using f(12-14) v(4) by (simp add: user_view_def)
    show "\<forall>f. trapframe_get c f s' = (if f = tf_a0 then 0 else trapframe_get i f s)"
      using e(5) f(15) i6(2) by (simp add: trapframe_get_def)
    show "\<forall>f. trapframe_get i f s' = (if f = tf_a0 then k_pid s else trapframe_get i f s)"
      using e(6) i6(1) tf by (simp add: trapframe_get_def)
  qed (use f(12,13) in simp_all)
qed

end

end
