(* ===== verification/ForkProps.thy ===== *)
theory ForkProps
  imports KernelProps ForkMem
begin

text \<open>
  The property of \<open>kfork\<close> that spans the process table, the page tables and the trapframes, and
  the concrete system on which it is evaluated.
\<close>

section \<open>A system with two slots\<close>

text \<open>
  Process 0 runs on the one-page address space \<open>demo_uvm\<close>; slot 1 is unused, with an empty page
  table. Nine pages are free.
\<close>

definition fork_parent :: Process where
  "fork_parent = (demo_proc Running (Some 0) None 3)\<lparr>p_pagetable := demo_uvm, p_trapframe := 0x80410000\<rparr>"

definition fork_spare :: Process where
  "fork_spare = (demo_proc Unused None None 0)\<lparr>p_pagetable := \<lparr>uvm_begin = USER_START, uvm_size = 0,
     uvm_pagetable = \<lparr>pt_root = 0x80308000\<rparr>\<rparr>, p_trapframe := 0x80411000\<rparr>"

definition fork_free :: "usize list" where
  "fork_free = [0x80320000, 0x80321000, 0x80322000, 0x80323000, 0x80324000, 0x80325000, 0x80326000, 0x80327000, 0x80328000]"

definition fork_demo :: "usize list kstate" where
  "fork_demo = (demo_sys [fork_parent, fork_spare] 1 (Some 0))\<lparr>mem := demo_mem, heap_st := fork_free\<rparr>"

lemma fork_demo_simps [simp]:
  "mem fork_demo = demo_mem" "heap_st fork_demo = fork_free" "k_table fork_demo = [fork_parent, fork_spare]" "k_pid fork_demo = 1"
  "p_pagetable fork_parent = demo_uvm" "p_trapframe fork_parent = 0x80410000" "p_trapframe fork_spare = 0x80411000"
  "p_pagetable fork_spare = \<lparr>uvm_begin = USER_START, uvm_size = 0, uvm_pagetable = \<lparr>pt_root = 0x80308000\<rparr>\<rparr>"
  "p_state fork_spare = Unused" "p_state fork_parent = Running" "p_kstack fork_parent = 0xffffc000" "p_kstack fork_spare = 0xffffc000"
  by (simp_all add: fork_demo_def fork_parent_def fork_spare_def)

lemma fork_demo_ready: "heap_ready fork_demo" "fl_wf (heap_st fork_demo)"
  by (simp_all add: fork_demo_def heap_ready_def int_ok_def demo_sys_def Cpu_new_def interrupt_read_def read_csr_def
    fork_free_def fl_wf_def fl_managed_def page_aligned_iff_dvd RAMEND_num)

lemma fork_demo_live: "a \<in> {0x80300000, 0x80303000, 0x80308000, 0x80400000, 0x80410000, 0x80411000} \<Longrightarrow> a \<in> fl_live (heap_st fork_demo)"
  by (auto simp: fl_live_def fork_free_def fl_managed_def page_aligned_iff_dvd RAMEND_num)

text \<open>Outside the two pages of the table the memory is zero, so that the spare table is empty.\<close>

lemma demo_mem_zero:
  assumes "q \<noteq> 0x80300000" "q \<noteq> 0x80303000"
  shows "same_page (\<lambda>_. 0) demo_mem q"
proof -
  have al: "page_aligned 0x80300000" "page_aligned 0x80303000" by (simp_all add: page_aligned_iff_dvd)
  let ?m = "add_table (\<lambda>_. 0) 0x80300000 (vpn1 (VA_from 0x10000)) 0x80303000"
  have "same_page (\<lambda>_. 0) ?m q" by (rule add_table_same_page [OF al vpn1_bound assms(2,1)])
  moreover have "same_page ?m demo_mem q"
    unfolding demo_mem_def one_page_mem_def
    using assms(2) al(2) by (intro same_page_store32) simp_all
  ultimately show ?thesis by (rule same_page_trans)
qed

lemma spare_table: "pt_wf demo_mem 0x80308000" "pt_frames demo_mem 0x80308000 = {0x80308000}"
  "leaf demo_mem 0x80308000 = (\<lambda>_. None)"
proof -
  have al: "page_aligned 0x80308000" "(0x80308000 :: usize) \<noteq> 0" by (simp_all add: page_aligned_iff_dvd)
  note z = zero_memory_table [OF al]
  have sp: "same_page (\<lambda>_. 0) demo_mem 0x80308000" by (rule demo_mem_zero) simp_all
  show "pt_wf demo_mem 0x80308000" by (rule pt_wf_frame [OF sp z(1)])
  show "pt_frames demo_mem 0x80308000 = {0x80308000}" using pt_frames_frame [OF sp al(1)] z(2) by simp
  show "leaf demo_mem 0x80308000 = (\<lambda>_. None)"
    using leaf_frame [OF z(1)] sp z(2,3) by (intro ext) (metis singletonD)
qed

lemma fork_demo_uvms:
  "uvm_ok fl_wf fl_live fork_demo demo_uvm" "uvm_ok fl_wf fl_live fork_demo (p_pagetable fork_spare)"
  "uvm_pages fork_demo demo_uvm = {0x80300000, 0x80303000, 0x80400000}" "uvm_pages fork_demo (p_pagetable fork_spare) = {0x80308000}"
proof -
  show "uvm_ok fl_wf fl_live fork_demo (p_pagetable fork_spare)"
    using fork_demo_ready fork_demo_live spare_table
    by (simp add: uvm_ok_def owned_def table_ok_def user_inj_def user_pages_def user_words_def uvm_dims_def uvm_leaf_ok_def
      USER_START_def TRAPFRAME_num page_aligned_iff_dvd)
  show "uvm_pages fork_demo demo_uvm = {0x80300000, 0x80303000, 0x80400000}"
    by (auto simp: child_pages_def demo_table demo_pages)
  show "uvm_pages fork_demo (p_pagetable fork_spare) = {0x80308000}"
    by (simp add: child_pages_def spare_table user_pages_def user_words_def)
  show "uvm_ok fl_wf fl_live fork_demo demo_uvm"
    using demo_uvm_ok fork_demo_ready fork_demo_live
    by (simp add: uvm_ok_def owned_def table_ok_def demo_table demo_pages)
qed

lemma fork_demo_procs: "procs_ok fl_wf fl_live fork_demo"
proof -
  have "slot_ok fl_wf fl_live fork_demo fork_parent" "slot_ok fl_wf fl_live fork_demo fork_spare"
    using fork_demo_uvms fork_demo_live by (simp_all add: slot_ok_def)
  moreover have "slot_pages fork_demo fork_parent \<inter> slot_pages fork_demo fork_spare = {}"
    using fork_demo_uvms(3,4) by (simp add: slot_pages_def)
  ultimately show ?thesis
    using fork_demo_ready by (auto simp: procs_ok_def less_Suc_eq)
qed

section \<open>kfork\<close>

text \<open>The processes whose pages an operation does not touch.\<close>

lemma untouched_view:
  assumes "procs_ok hwf live s" "procs_ok hwf live s'" "j < length (k_table s)" "touches live P s s'"
    "uvm_pages s (p_pagetable (k_table s ! j)) \<inter> P = {}"
    "in_range (uvm_begin (p_pagetable (k_table s ! j))) (unat (uvm_size (p_pagetable (k_table s ! j)))) va"
  shows "user_view s' (p_pagetable (k_table s ! j)) va = user_view s (p_pagetable (k_table s ! j)) va"
  using uvm_frame(4) [OF slot_okD(1) [OF procs_okD(3) [OF assms(1,3)]] assms(4,5) procs_okD(1,2) [OF assms(2)] assms(6)] .

lemma untouched_trapframe:
  assumes "platform E hwf live lo hi" "procs_ok hwf live s" "j < length (k_table s)" "touches live P s s'"
    "p_trapframe (k_table s ! j) \<notin> P" "k_table s' ! j = k_table s ! j"
  shows "trapframe_get j f s' = trapframe_get j f s"
proof -
  note D = procs_okD [OF assms(2)]
  let ?tf = "p_trapframe (k_table s ! j)"
  have "page_aligned ?tf"
    using buddy_crate.live_pages [OF platform.axioms(2) [OF assms(1)] D(2)] slot_okD(2) [OF D(3) [OF assms(3)]] by blast
  moreover have "same_page (mem s) (mem s') ?tf"
    using assms(4,5) slot_okD(2) [OF D(3) [OF assms(3)]] by (auto simp: touches_def)
  ultimately show ?thesis using tf_get_same_page assms(6) by (simp add: trapframe_get_def)
qed

text \<open>
  C4. \<open>kfork\<close> copies the running process. With an unused slot, a next pid and enough free pages,
  it returns the next pid. The child is runnable in a slot that was unused, with the caller as its
  parent; it sees the same bytes at the same addresses and has the same registers, but for the
  result \<open>a0\<close>, which is 0 in the child and the pid in the caller. The memory and the registers of
  all other processes are as before, and no page belongs to two processes.
\<close>

theorem kfork_copies:
  assumes "page_supply E hwf live lo hi" "in_kernel i s" "ainv (abs_sys s)" "procs_ok hwf live s"
    and "k_pid s \<noteq> 0xffffffff" "\<exists>p \<in> set (k_table s). p_state p = Unused"
    and "uv = p_pagetable (k_table s ! i)" "takes E (5 + 2 * (unat (uvm_size uv) div 4096)) (heap_st s) \<noteq> None"
    and "\<And>va. in_range (uvm_begin uv) (unat (uvm_size uv)) va \<Longrightarrow> leaf_addr (mem s) (pt_root (uvm_pagetable uv)) va \<noteq> None"
    and "page_aligned (sym_trampoline E)" "unat (sym_trampoline E) + 4096 < 2 ^ 32"
  shows "\<exists>s' c vm. kfork E i s = Inr (Ok (k_pid s), s') \<and> in_kernel i s' \<and> procs_ok hwf live s' \<and>
    c < length (k_table s) \<and> p_state (k_table s ! c) = Unused \<and> p_state (k_table s' ! c) = Runnable \<and>
    p_pid (k_table s' ! c) = Some (k_pid s) \<and> p_parent (k_table s' ! c) = p_pid (k_table s ! i) \<and>
    vm = p_pagetable (k_table s' ! c) \<and> uvm_begin vm = uvm_begin uv \<and> uvm_size vm = uvm_size uv \<and>
    (\<forall>va. in_range (uvm_begin uv) (unat (uvm_size uv)) va \<longrightarrow> user_view s' vm va = user_view s uv va) \<and>
    (\<forall>f. trapframe_get c f s' = (if f = tf_a0 then 0 else trapframe_get i f s)) \<and>
    (\<forall>f. trapframe_get i f s' = (if f = tf_a0 then k_pid s else trapframe_get i f s)) \<and>
    (\<forall>j < length (k_table s). j \<noteq> c \<longrightarrow> k_table s' ! j = k_table s ! j \<and>
      (\<forall>va. in_range (uvm_begin (p_pagetable (k_table s ! j))) (unat (uvm_size (p_pagetable (k_table s ! j)))) va \<longrightarrow>
        user_view s' (p_pagetable (k_table s ! j)) va = user_view s (p_pagetable (k_table s ! j)) va) \<and>
      (j \<noteq> i \<longrightarrow> (\<forall>f. trapframe_get j f s' = trapframe_get j f s)))"
proof -
  have spin: "spin_crate E" and plat: "platform E hwf live lo hi"
    using assms(1) by (simp_all add: page_supply_def platform_def)
  have i: "i < length (k_table s)" "current (cpu s) = Some i" using assms(2) by (auto simp: in_kernel_def)
  obtain c where c: "find_index (\<lambda>p. p_state p = Unused) (k_table s) = Some c"
    using assms(6) find_index_None [of "\<lambda>p. p_state p = Unused" "k_table s"] by (cases "find_index (\<lambda>p. p_state p = Unused) (k_table s)") auto
  note cs = find_index_Some [OF c]
  have ic: "i \<noteq> c" using ainv_run(2) [OF assms(3), of i] i cs by auto
  obtain s' q where f: "kfork E i s = Inr (Ok (k_pid s), s')" "procs_ok hwf live s'" "k_table s' = (k_table s)[c := q]"
    "touches live (insert (p_trapframe (k_table s ! i)) (slot_pages s (k_table s ! c))) s s'"
    "slot_pages s' q \<inter> live (heap_st s) \<subseteq> slot_pages s (k_table s ! c)"
    "uvm_begin (p_pagetable q) = uvm_begin uv" "uvm_size (p_pagetable q) = uvm_size uv"
    "\<forall>va. in_range (uvm_begin uv) (unat (uvm_size uv)) va \<longrightarrow> user_view s' (p_pagetable q) va = user_view s uv va"
    "\<forall>f. trapframe_get c f s' = (if f = tf_a0 then 0 else trapframe_get i f s)"
    "\<forall>f. trapframe_get i f s' = (if f = tf_a0 then k_pid s else trapframe_get i f s)"
    by (rule page_supply.kfork_ok [OF assms(1,2,4,5) c ic assms(7) assms(9-11,8)])
  from kfork_child [OF spin assms(2,3) f(1)] obtain d where own: "in_kernel i s'"
    and d: "d < length (k_table s)" "p_state (k_table s ! d) = Unused" "p_state (k_table s' ! d) = Runnable"
      "p_pid (k_table s' ! d) = Some (k_pid s)" "p_parent (k_table s' ! d) = p_pid (k_table s ! i)" by blast
  have dc: "d = c" using d(2,3) f(3) by (cases "d = c") simp_all
  have "k_table s' ! c = q" using f(3) cs by simp
  moreover have "k_table s' ! j = k_table s ! j" if "j \<noteq> c" for j using f(3) that by simp
  moreover have "uvm_pages s (p_pagetable (k_table s ! j)) \<inter> insert (p_trapframe (k_table s ! i)) (slot_pages s (k_table s ! c)) = {}"
    if "j < length (k_table s)" "j \<noteq> c" for j
    using procs_okD(4) [OF assms(4) that(1) _ that(2)] procs_okD(4) [OF assms(4) that(1) i(1)]
      slot_okD(3) [OF procs_okD(3) [OF assms(4) i(1)]] cs by (cases "j = i") (auto simp: slot_pages_def)
  moreover have "p_trapframe (k_table s ! j) \<notin> insert (p_trapframe (k_table s ! i)) (slot_pages s (k_table s ! c))"
    if "j < length (k_table s)" "j \<noteq> c" "j \<noteq> i" for j
    using procs_okD(4) [OF assms(4) that(1) _ that(2)] procs_okD(4) [OF assms(4) that(1) i(1) that(3)] cs
    by (auto simp: slot_pages_def)
  ultimately show ?thesis
    using f own d [unfolded dc] untouched_view [OF assms(4) f(2) _ f(4)] untouched_trapframe [OF plat assms(4) _ f(4)]
    by (intro exI [of _ s'] exI [of _ c] exI [of _ "p_pagetable q"]) simp
qed

theorem kfork_copies_witness:
  "\<exists>s' c. kfork fl_env 0 fork_demo = Inr (Ok 1, s') \<and> p_pid (k_table s' ! c) = Some 1 \<and> procs_ok fl_wf fl_live s' \<and>
    user_view s' (p_pagetable (k_table s' ! c)) 0x10abc = user_view fork_demo demo_uvm 0x10abc \<and>
    trapframe_get c tf_a0 s' = 0 \<and> trapframe_get 0 tf_a0 s' = 1"
proof -
  have own: "in_kernel 0 fork_demo"
    by (simp add: in_kernel_def quiet_def locks_free_def fork_demo_def fork_parent_def fork_spare_def)
  have inv: "ainv (abs_sys fork_demo)"
  proof -
    let ?t = "[demo_proc Running (Some 0) None 3, demo_proc Unused None None 0]"
    have "run_ok (abs_sys (demo_sys ?t 1 (Some 0)))" "pid_ok (abs_sys (demo_sys ?t 1 (Some 0)))"
      "parent_ok (abs_sys (demo_sys ?t 1 (Some 0)))" "sleep_ok (abs_sys (demo_sys ?t 1 (Some 0)))" "cont_ok (abs_sys (demo_sys ?t 1 (Some 0)))"
      by (simp_all add: run_ok_def pid_ok_def parent_ok_def sleep_ok_def cont_ok_def cont_fits_def alive_def
        All_less_Suc Ex_less_Suc)
    moreover have "abs_sys fork_demo = abs_sys (demo_sys ?t 1 (Some 0))"
      by (simp add: abs_sys_def fork_demo_def fork_parent_def fork_spare_def abs_proc_def)
    ultimately show ?thesis by (simp add: ainv_def)
  qed
  have mapped: "leaf_addr (mem fork_demo) (pt_root (uvm_pagetable demo_uvm)) va \<noteq> None"
    if "in_range (uvm_begin demo_uvm) (unat (uvm_size demo_uvm)) va" for va
  proof -
    have "page_of va = 0x10000" using that page_range [of "0x10000" va] by (simp add: page_aligned_iff_dvd)
    then have "leaf demo_mem 0x80300000 va \<noteq> None" by (simp add: demo_table(3))
    then show ?thesis by (auto simp: leaf_def split: option.splits)
  qed
  have room: "takes fl_env (5 + 2 * (unat (uvm_size demo_uvm) div 4096)) (heap_st fork_demo) \<noteq> None"
    by (simp add: fl_takes fork_free_def)
  have tr: "page_aligned (sym_trampoline fl_env)" "unat (sym_trampoline fl_env) + 4096 < 2 ^ 32"
    by (simp_all add: fl_env_def page_aligned_iff_dvd)
  have rest: "k_pid fork_demo \<noteq> 0xffffffff" "\<exists>p \<in> set (k_table fork_demo). p_state p = Unused"
    "demo_uvm = p_pagetable (k_table fork_demo ! 0)" by simp_all
  from kfork_copies [OF fl_supply.page_supply_axioms own inv fork_demo_procs rest room mapped tr]
  obtain s' c where "kfork fl_env 0 fork_demo = Inr (Ok (k_pid fork_demo), s')" "procs_ok fl_wf fl_live s'"
    "p_pid (k_table s' ! c) = Some (k_pid fork_demo)"
    "\<forall>va. in_range (uvm_begin demo_uvm) (unat (uvm_size demo_uvm)) va \<longrightarrow>
      user_view s' (p_pagetable (k_table s' ! c)) va = user_view fork_demo demo_uvm va"
    "\<forall>f. trapframe_get c f s' = (if f = tf_a0 then 0 else trapframe_get 0 f fork_demo)"
    "\<forall>f. trapframe_get 0 f s' = (if f = tf_a0 then k_pid fork_demo else trapframe_get 0 f fork_demo)" by blast
  then show ?thesis using demo_range by (intro exI [of _ s'] exI [of _ c]) simp
qed

end
