(* ===== verification/ExecMem.thy ===== *)
theory ExecMem
  imports ForkMem
begin

text \<open>
  \<open>kexec\<close> as a whole: the new address space with image, guard page and stack, the arguments on
  the stack, and the exchange of the process's address space. \<open>fresh_uvm\<close> says that an address
  space has been built from free pages only, so that nothing in use and nothing outside the heap
  has been touched.
\<close>

section \<open>Fresh address spaces\<close>

definition fresh_uvm :: "('h \<Rightarrow> bool) \<Rightarrow> ('h \<Rightarrow> usize set) \<Rightarrow> ('h, 'z) machine_scheme \<Rightarrow> Uvm \<Rightarrow> ('h, 'z) machine_scheme \<Rightarrow> bool" where
  "fresh_uvm hwf live s uv s' \<longleftrightarrow> uvm_ok hwf live s' uv \<and> same_rest s s' \<and> touches live {} s s' \<and>
     uvm_pages s' uv \<inter> live (heap_st s) = {} \<and> (\<forall>q. (\<forall>h. hwf h \<longrightarrow> q \<notin> live h) \<longrightarrow> same_page (mem s) (mem s') q)"

lemma fresh_uvmD:
  assumes "fresh_uvm hwf live s uv s'"
  shows "uvm_ok hwf live s' uv" "same_rest s s'" "touches live {} s s'" "uvm_pages s' uv \<inter> live (heap_st s) = {}"
    "live (heap_st s) \<subseteq> live (heap_st s')" "(\<And>h. hwf h \<Longrightarrow> q \<notin> live h) \<Longrightarrow> same_page (mem s) (mem s') q"
  using assms by (auto simp: fresh_uvm_def touches_def)

lemma fresh_step:
  assumes "fresh_uvm hwf live s uv s1" "uvm_ok hwf live s2 uv'" "same_rest s1 s2" "touches live (uvm_pages s1 uv) s1 s2"
    "uvm_pages s2 uv' \<inter> live (heap_st s1) \<subseteq> uvm_pages s1 uv"
    "\<forall>q. q \<notin> live (heap_st s2) \<longrightarrow> same_page (mem s1) (mem s2) q"
  shows "fresh_uvm hwf live s uv' s2"
proof -
  note f = fresh_uvmD [OF assms(1)]
  have "touches live {} s s2" by (rule touches_trans [OF f(3) assms(4)]) (use f(4) in auto)
  moreover have "uvm_pages s2 uv' \<inter> live (heap_st s) = {}" using assms(5) f(4,5) by blast
  moreover have "same_page (mem s) (mem s2) q" if "\<forall>h. hwf h \<longrightarrow> q \<notin> live h" for q
    using same_page_trans [OF f(6)] assms(6) that uvm_okD(4) [OF assms(2)] by blast
  ultimately show ?thesis using assms(2) same_rest_trans [OF f(2) assms(3)] by (simp add: fresh_uvm_def)
qed

section \<open>The steps\<close>

context page_supply
begin

lemma new_ok:
  assumes "heap_ready s" "hwf (heap_st s)" "takes E (Suc n) (heap_st s) \<noteq> None"
  obtains uv s' where "Uvm_new E s = Inr (Ok uv, s')" "fresh_uvm hwf live s uv s'" "uvm_begin uv = USER_START" "uvm_size uv = 0"
    "takes E n (heap_st s') \<noteq> None"
  using assms(1,2)
proof (cases rule: Uvm_new_cases)
  case oom
  have "takes E (Suc n) (heap_st s) = None" by (rule takes_None_mono [OF oom(2)]) simp
  then show ?thesis using assms(3) by blast
next
  case (created uv s')
  have "touches live {} s s'" unfolding touches_def using created(7,8,10) by (metis DiffD1 insertI2)
  moreover have "uvm_pages s' uv \<inter> live (heap_st s) = {}"
    using created(3,6,7) by (simp add: child_pages_def user_pages_def user_words_def)
  moreover have "same_page (mem s) (mem s') q" if "\<forall>h. hwf h \<longrightarrow> q \<notin> live h" for q
    using created(8,10) that uvm_okD(4) [OF created(2)] by (metis insertI1)
  ultimately have "fresh_uvm hwf live s uv s'" using created(2,9) by (simp add: fresh_uvm_def)
  moreover have "takes E n (heap_st s') \<noteq> None" using takes_served [OF created(11), of n] assms(3) by simp
  ultimately show ?thesis using that created(1,4,5) by blast
qed

text \<open>Growing by mapped pages.\<close>

lemma alloc_ok:
  assumes ok: "uvm_ok hwf live s uv" and sz: "uvm_size uv < sz" "unat USER_START + unat sz \<le> unat TRAPFRAME"
    and perm: "rwx_mask perm"
    and sup: "takes E (2 * ((unat sz - unat (uvm_size uv) + 4095) div 4096) + n) (heap_st s) \<noteq> None"
  obtains uv' s' where "Uvm_alloc E uv sz perm s = Inr ((Ok (), uv'), s')" "uvm_ok hwf live s' uv'" "same_rest s s'"
    "touches live (uvm_pages s uv) s s'" "uvm_pages s' uv' \<inter> live (heap_st s) \<subseteq> uvm_pages s uv"
    "uvm_begin uv' = uvm_begin uv" "unat (uvm_size uv') = 4096 * ((unat sz + 4095) div 4096)"
    "\<forall>va. in_range (uvm_begin uv) (unat (uvm_size uv)) va \<longrightarrow> user_view s' uv' va = user_view s uv va \<and>
      uvm_leaf s' uv' va = uvm_leaf s uv va"
    "\<forall>va. in_range (uvm_begin uv) (unat (uvm_size uv')) va \<longrightarrow> \<not> in_range (uvm_begin uv) (unat (uvm_size uv)) va \<longrightarrow>
      uvm_leaf s' uv' va \<noteq> None"
    "takes E n (heap_st s') \<noteq> None" "\<forall>q. q \<notin> live (heap_st s') \<longrightarrow> same_page (mem s) (mem s') q"
proof -
  let ?k = "2 * ((unat sz - unat (uvm_size uv) + 4095) div 4096)"
  obtain res uv' s' where run: "Uvm_alloc E uv sz perm s = Inr ((res, uv'), s')" and g: "uvm_grown hwf live perm uv s uv' s'"
    and size: "res = Ok () \<longrightarrow> sz \<le> uvm_size uv'" "unat (uvm_size uv') < max (unat (uvm_size uv) + 1) (unat sz + 4096)"
    and sv: "served E ?k (heap_st s) (res = Ok ()) (heap_st s')"
    using Uvm_alloc_correct [OF ok sz(2) perm] by blast
  have "takes E ?k (heap_st s) \<noteq> None" using sup takes_None_mono [of E ?k "heap_st s" "?k + n"] le_add1 by metis
  then have res: "res = Ok ()" using served_enough [OF sv] by blast
  then have "served E ?k (heap_st s) True (heap_st s')" using sv by simp
  then have sup': "takes E n (heap_st s') \<noteq> None" using sup by (rule takes_served)
  note G = uvm_grownD [OF g]
  have "4096 dvd unat (uvm_size uv')" using uvm_dimsD(3) [OF uvm_okD(5) [OF G(1)]] by (simp add: page_aligned_iff_dvd)
  moreover have "unat sz \<le> unat (uvm_size uv')" "unat (uvm_size uv') < unat sz + 4096"
    using size res sz(1) by (auto simp: word_le_nat_alt word_less_nat_alt)
  ultimately have sz': "unat (uvm_size uv') = 4096 * ((unat sz + 4095) div 4096)" by (auto elim!: dvdE)
  have p0: "perm \<noteq> 0" using perm by (simp add: rwx_mask_def)
  have new: "p \<in> user_pages (uvm_leaf s uv) \<or> p \<notin> live (heap_st s)" if p: "p \<in> user_pages (uvm_leaf s' uv)" for p
  proof -
    obtain va w where w: "uvm_leaf s' uv va = Some w" "user_leaf w" "p = pte_page w"
      using p by (auto simp: user_pages_def user_words_def)
    show ?thesis
    proof (cases "new_range uv uv' va")
      case True
      then show ?thesis using G(11) [OF True p0] w leaf_word_page [OF _ rwx_user(1) [OF perm]] by auto
    next
      case False
      then show ?thesis using G(9) w user_pagesI [of "uvm_leaf s uv" va w] by simp
    qed
  qed
  have old: "user_view s' uv' va = user_view s uv va \<and> uvm_leaf s' uv' va = uvm_leaf s uv va"
    if va: "in_range (uvm_begin uv) (unat (uvm_size uv)) va" for va
  proof -
    have l: "uvm_leaf s' uv va = uvm_leaf s uv va" using G(9) [OF in_range_not_new [OF va]] .
    have "user_view s' uv va = user_view s uv va"
    proof (cases "uvm_leaf s uv va")
      case (Some w)
      have r: "in_range (uvm_begin uv') (unat (uvm_size uv')) va" "uvm_leaf s' uv' va = Some w"
        using va G(3-5) l Some by (auto simp: in_range_def word_le_nat_alt)
      have "pte_page w \<notin> uvm_frames s' uv"
        using parent_leaf_user(4) [OF G(1) r] uvm_pages_live(3) [OF G(1)] G(3) by auto
      from G(8) [OF this] show ?thesis
        using page_of_plus [OF page_aligned_pte_page offset_bound, of w va] l Some by (simp add: user_view_def same_page_def)
    qed (simp add: user_view_def l)
    then show ?thesis using l G(3) by (simp add: user_view_def)
  qed
  have "uvm_leaf s' uv' va \<noteq> None" if "in_range (uvm_begin uv) (unat (uvm_size uv')) va"
    "\<not> in_range (uvm_begin uv) (unat (uvm_size uv)) va" for va
    using G(11) [of va] that G(3) p0 by (auto simp: new_range_def in_range_def)
  moreover have "touches live (uvm_pages s uv) s s'"
    unfolding touches_def using G(6,7,8) by (auto simp: child_pages_def)
  moreover have "uvm_pages s' uv' \<inter> live (heap_st s) \<subseteq> uvm_pages s uv" using G(3,7) new by (auto simp: child_pages_def)
  moreover have "\<forall>q. q \<notin> live (heap_st s') \<longrightarrow> same_page (mem s) (mem s') q" using G(6,8) by blast
  ultimately show thesis using that [of uv' s'] run res G(1,2,4) sz' old sup' by simp
qed

text \<open>Loading an image from outside the heap.\<close>

lemma load_ok:
  assumes ok: "uvm_ok hwf live s uv" and va: "page_aligned va" "unat (uvm_begin uv) \<le> unat va"
    and N: "N = (unat len + 4095) div 4096" "unat va + 4096 * N \<le> unat (uvm_begin uv) + unat (uvm_size uv)"
    and mapped: "\<And>vb. in_range va (4096 * N) vb \<Longrightarrow> uvm_leaf s uv vb \<noteq> None"
    and img: "\<And>k h. k < 4096 * N \<Longrightarrow> hwf h \<Longrightarrow> page_of (img + of_nat k) \<notin> live h"
  obtains s' where "Uvm_load E uv va (img, len) s = Inr (Ok (), s')" "uvm_ok hwf live s' uv" "same_rest s s'"
    "touches live (uvm_pages s uv) s s'" "uvm_pages s' uv = uvm_pages s uv" "heap_st s' = heap_st s"
    "uvm_leaf s' uv = uvm_leaf s uv" "\<forall>k<unat len. user_view s' uv (va + of_nat k) = Some (mem s (img + of_nat k))"
    "\<forall>q. q \<notin> live (heap_st s') \<longrightarrow> same_page (mem s) (mem s') q"
proof -
  have out: "page_of (img + of_nat k) \<notin> user_pages (uvm_leaf s uv)" if "k < 4096 * N" for k
    using img [OF that uvm_okD(4) [OF ok]] uvm_pages_live(2) [OF ok] by blast
  obtain m where m: "Uvm_load E uv va (img, len) s = Inr (Ok (), s\<lparr>mem := m\<rparr>)" "uvm_ok hwf live (s\<lparr>mem := m\<rparr>) uv"
    "leaf m (pt_root (uvm_pagetable uv)) = uvm_leaf s uv" "\<And>q. q \<notin> user_pages (uvm_leaf s uv) \<Longrightarrow> same_page (mem s) m q"
    "\<And>k. k < unat len \<Longrightarrow> user_view (s\<lparr>mem := m\<rparr>) uv (va + of_nat k) = Some (mem s (img + of_nat k))"
    using Uvm_load_correct [OF ok va N mapped out] by blast
  have "pt_root (uvm_pagetable uv) \<notin> user_pages (uvm_leaf s uv)" 
    using uvm_pages_live(3) [OF ok] root_in_frames [of "pt_root (uvm_pagetable uv)" "mem s"] by blast
  then have fr: "pt_frames m (pt_root (uvm_pagetable uv)) = uvm_frames s uv"
    using pt_frames_frame [OF m(4)] pt_wfD(1) [OF table_okD(3) [OF uvm_okD(2) [OF ok]]] by blast
  show thesis
  proof (rule that [OF m(1,2)])
    show "uvm_pages (s\<lparr>mem := m\<rparr>) uv = uvm_pages s uv" using fr m(3) by (simp add: child_pages_def)
    show "touches live (uvm_pages s uv) s (s\<lparr>mem := m\<rparr>)" using m(4) by (auto simp: touches_def child_pages_def)
    show "\<forall>q. q \<notin> live (heap_st (s\<lparr>mem := m\<rparr>)) \<longrightarrow> same_page (mem s) (mem (s\<lparr>mem := m\<rparr>)) q"
      using m(4) uvm_pages_live(2) [OF ok] by auto
  qed (use m(3,5) in \<open>simp_all add: same_rest_def\<close>)
qed

text \<open>The guard page and the stack page.\<close>

lemma stack_ok:
  assumes ok: "uvm_ok hwf live s uv" and sz: "unat USER_START + unat (uvm_size uv) + 8192 \<le> unat TRAPFRAME"
    and sup: "takes E (2 + n) (heap_st s) \<noteq> None"
  obtains uv2 uv3 s' where "Uvm_grow E uv PAGESIZE 0 s = Inr ((Ok (), uv2), s)" "Uvm_grow E uv2 PAGESIZE (PTE_W OR PTE_R) s = Inr ((Ok (), uv3), s')"
    "uvm_ok hwf live s' uv3" "same_rest s s'" "touches live (uvm_pages s uv) s s'" "uvm_pages s' uv3 \<inter> live (heap_st s) \<subseteq> uvm_pages s uv"
    "uvm_begin uv3 = uvm_begin uv" "unat (uvm_size uv3) = unat (uvm_size uv) + 8192"
    "\<forall>va. in_range (uvm_begin uv) (unat (uvm_size uv)) va \<longrightarrow> user_view s' uv3 va = user_view s uv va"
    "\<forall>va. in_range (uvm_begin uv) (unat (uvm_size uv) + 8192) va \<longrightarrow> unat (uvm_begin uv) + unat (uvm_size uv) + 4096 \<le> unat va \<longrightarrow>
      uvm_leaf s' uv3 va \<noteq> None"
    "takes E n (heap_st s') \<noteq> None" "\<forall>q. q \<notin> live (heap_st s') \<longrightarrow> same_page (mem s) (mem s') q"
    "\<forall>va. in_range (uvm_begin uv + uvm_size uv) 4096 va \<longrightarrow> uvm_leaf s' uv3 va = None"
proof -
  let ?uv2 = "uv\<lparr>uvm_size := uvm_size uv + 4096\<rparr>" and ?sz = "uvm_size uv + 4096 + 4096"
  have b1: "unat USER_START + unat (uvm_size uv) + 4096 \<le> unat TRAPFRAME" using sz by simp
  have bounds: "unat (uvm_size uv) + 8192 < 2 ^ 32" using sz by (simp add: TRAPFRAME_num USER_START_def)
  then have u: "unat (uvm_size uv + 4096) = unat (uvm_size uv) + 4096" "unat ?sz = unat (uvm_size uv) + 8192"
    by (simp_all add: unat_word_ariths)
  note g2 = Uvm_grow_guard [OF ok b1, of E] and ok2 = uvm_grownD(1) [OF uvm_guard_added [OF ok b1]]
  have lt: "uvm_size ?uv2 < ?sz" using u by (simp add: word_less_nat_alt)
  have le: "unat USER_START + unat ?sz \<le> unat TRAPFRAME" using sz u(2) by simp
  have perm: "rwx_mask (PTE_W OR PTE_R)" by (simp add: rwx_mask_def perm_consts)
  have k: "2 * ((unat ?sz - unat (uvm_size ?uv2) + 4095) div 4096) = 2" using u by simp
  have al: "4096 dvd unat (uvm_size uv)" using uvm_dimsD(3) [OF uvm_okD(5) [OF ok]] by (simp add: page_aligned_iff_dvd)
  obtain uv3 s' where a: "Uvm_alloc E ?uv2 ?sz (PTE_W OR PTE_R) s = Inr ((Ok (), uv3), s')" "uvm_ok hwf live s' uv3" "same_rest s s'"
    "touches live (uvm_pages s ?uv2) s s'" "uvm_pages s' uv3 \<inter> live (heap_st s) \<subseteq> uvm_pages s ?uv2"
    "uvm_begin uv3 = uvm_begin ?uv2" "unat (uvm_size uv3) = 4096 * ((unat ?sz + 4095) div 4096)"
    "\<forall>va. in_range (uvm_begin ?uv2) (unat (uvm_size ?uv2)) va \<longrightarrow> user_view s' uv3 va = user_view s ?uv2 va \<and>
      uvm_leaf s' uv3 va = uvm_leaf s ?uv2 va"
    "\<forall>va. in_range (uvm_begin ?uv2) (unat (uvm_size uv3)) va \<longrightarrow> \<not> in_range (uvm_begin ?uv2) (unat (uvm_size ?uv2)) va \<longrightarrow>
      uvm_leaf s' uv3 va \<noteq> None"
    "takes E n (heap_st s') \<noteq> None" "\<forall>q. q \<notin> live (heap_st s') \<longrightarrow> same_page (mem s) (mem s') q"
    by (rule alloc_ok [OF ok2 lt le perm, unfolded k, OF sup])
  have pg: "uvm_pages s ?uv2 = uvm_pages s uv" by (simp add: child_pages_def)
  have vw: "user_view s ?uv2 = user_view s uv" by (intro ext) (simp add: user_view_def)
  have sz3: "unat (uvm_size uv3) = unat (uvm_size uv) + 8192" using a(7) al u(2) by (auto elim!: dvdE)
  have e: "unat (uvm_begin uv + uvm_size uv) = unat (uvm_begin uv) + unat (uvm_size uv)"
    using uvm_dimsD(5) [OF uvm_okD(5) [OF ok]] by (simp add: unat_word_ariths)
  have guard: "uvm_leaf s' uv3 va = None" if "in_range (uvm_begin uv + uvm_size uv) 4096 va" for va
  proof -
    have "new_range uv ?uv2 va" "in_range (uvm_begin ?uv2) (unat (uvm_size ?uv2)) va"
      using that u(1) unfolding in_range_def new_range_def e by simp_all
    then show ?thesis using uvm_grownD(10) [OF uvm_guard_added [OF ok b1]] a(8) by simp
  qed
  show thesis
  proof (rule that [OF g2 _ a(2,3) _ _ _ sz3 _ _ a(10,11)])
    have "add_chk (uvm_size ?uv2) PAGESIZE = Inr ?sz" using u bounds by (simp add: add_chk_def PAGESIZE_num)
    then show "Uvm_grow E ?uv2 PAGESIZE (PTE_W OR PTE_R) s = Inr ((Ok (), uv3), s')" using a(1) by (simp add: Uvm_grow_def)
    show "\<forall>va. in_range (uvm_begin uv) (unat (uvm_size uv)) va \<longrightarrow> user_view s' uv3 va = user_view s uv va"
      using a(8) u(1) unfolding vw by (simp add: in_range_def)
    show "\<forall>va. in_range (uvm_begin uv) (unat (uvm_size uv) + 8192) va \<longrightarrow> unat (uvm_begin uv) + unat (uvm_size uv) + 4096 \<le> unat va \<longrightarrow>
      uvm_leaf s' uv3 va \<noteq> None"
      using a(9) u(1) sz3 by (simp add: in_range_def)
  qed (use a(4-6) pg guard in simp_all)
qed

text \<open>The empty address space with the trampoline and the trapframe.\<close>

lemma exec_empty:
  assumes h: "heap_ready s" "hwf (heap_st s)" and tf: "tf \<in> live (heap_st s)"
    and tr: "page_aligned (sym_trampoline E)" "unat (sym_trampoline E) + 4096 < 2 ^ 32"
    and sup: "takes E (3 + n) (heap_st s) \<noteq> None"
  obtains uv s1 s' where "Uvm_new E s = Inr (Ok uv, s1)" "same_rest s s1" "Uvm_init_proc E uv tf s1 = Inr (Ok (), s')"
    "fresh_uvm hwf live s uv s'" "uvm_begin uv = USER_START" "uvm_size uv = 0" "takes E n (heap_st s') \<noteq> None"
proof -
  have "3 + n = Suc (2 + n)" by simp
  then have s0: "takes E (Suc (2 + n)) (heap_st s) \<noteq> None" using sup by metis
  obtain uv0 s1 where n: "Uvm_new E s = Inr (Ok uv0, s1)" "fresh_uvm hwf live s uv0 s1" "uvm_begin uv0 = USER_START" "uvm_size uv0 = 0"
    "takes E (2 + n) (heap_st s1) \<noteq> None"
    by (rule new_ok [OF h s0])
  note F1 = fresh_uvmD [OF n(2)]
  have tfa: "page_aligned tf" "unat tf + 4096 < 2 ^ 32" using live_pages [OF h(2) tf] live_bound [OF h(2) tf] by simp_all
  obtain s2 where p: "Uvm_init_proc E uv0 tf s1 = Inr (Ok (), s2)" "uvm_ok hwf live s2 uv0" "same_rest s1 s2"
    "touches live (uvm_frames s1 uv0) s1 s2" "uvm_pages s2 uv0 \<inter> live (heap_st s1) \<subseteq> uvm_pages s1 uv0"
    "live (heap_st s1) \<subseteq> live (heap_st s2)"
    "\<forall>va. in_range (uvm_begin uv0) (unat (uvm_size uv0)) va \<longrightarrow> user_view s2 uv0 va = user_view s1 uv0 va"
    "takes E n (heap_st s2) \<noteq> None" "\<forall>q. q \<notin> live (heap_st s2) \<longrightarrow> same_page (mem s1) (mem s2) q"
    by (rule init_proc_ok [OF F1(1) tr tfa n(5)])
  have "touches live (uvm_pages s1 uv0) s1 s2" by (rule touches_mono [OF p(4)]) (auto simp: child_pages_def)
  from fresh_step [OF n(2) p(2,3) this p(5,9)] have f2: "fresh_uvm hwf live s uv0 s2" .
  show thesis by (rule that [OF n(1) F1(2) p(1) f2 n(3,4) p(8)])
qed

text \<open>The image, from the first user address on.\<close>

lemma exec_image:
  assumes f: "fresh_uvm hwf live s uv0 s2" and uv0: "uvm_begin uv0 = USER_START" "uvm_size uv0 = 0"
    and N: "N = (unat len + 4095) div 4096" "0 < len" "unat USER_START + 4096 * N \<le> unat TRAPFRAME"
    and img: "\<And>k h. k < 4096 * N \<Longrightarrow> hwf h \<Longrightarrow> page_of (img + of_nat k) \<notin> live h"
    and sup: "takes E (2 * N + n) (heap_st s2) \<noteq> None"
  obtains uv s3 s' where "Uvm_alloc E uv0 len (PTE_R OR PTE_W OR PTE_X) s2 = Inr ((Ok (), uv), s3)"
    "Uvm_load E uv USER_START (img, len) s3 = Inr (Ok (), s')"
    "fresh_uvm hwf live s uv s'" "uvm_begin uv = USER_START" "unat (uvm_size uv) = 4096 * N"
    "\<forall>k<unat len. user_view s' uv (USER_START + of_nat k) = Some (mem s (img + of_nat k))"
    "takes E n (heap_st s') \<noteq> None"
proof -
  have a1: "uvm_size uv0 < len" "unat USER_START + unat len \<le> unat TRAPFRAME" "rwx_mask (PTE_R OR PTE_W OR PTE_X)"
    using N uv0(2) by (simp_all add: rwx_mask_def perm_consts)
  have k: "2 * ((unat len - unat (uvm_size uv0) + 4095) div 4096) = 2 * N" using N(1) uv0(2) by simp
  obtain uv1 s3 where a: "Uvm_alloc E uv0 len (PTE_R OR PTE_W OR PTE_X) s2 = Inr ((Ok (), uv1), s3)" "uvm_ok hwf live s3 uv1"
    "same_rest s2 s3" "touches live (uvm_pages s2 uv0) s2 s3" "uvm_pages s3 uv1 \<inter> live (heap_st s2) \<subseteq> uvm_pages s2 uv0"
    "uvm_begin uv1 = uvm_begin uv0" "unat (uvm_size uv1) = 4096 * ((unat len + 4095) div 4096)"
    "\<forall>va. in_range (uvm_begin uv0) (unat (uvm_size uv0)) va \<longrightarrow> user_view s3 uv1 va = user_view s2 uv0 va \<and>
      uvm_leaf s3 uv1 va = uvm_leaf s2 uv0 va"
    "\<forall>va. in_range (uvm_begin uv0) (unat (uvm_size uv1)) va \<longrightarrow> \<not> in_range (uvm_begin uv0) (unat (uvm_size uv0)) va \<longrightarrow>
      uvm_leaf s3 uv1 va \<noteq> None"
    "takes E n (heap_st s3) \<noteq> None" "\<forall>q. q \<notin> live (heap_st s3) \<longrightarrow> same_page (mem s2) (mem s3) q"
    by (rule alloc_ok [OF fresh_uvmD(1) [OF f] a1, unfolded k, OF sup])
  from fresh_step [OF f a(2-5,11)] have f3: "fresh_uvm hwf live s uv1 s3" .
  have l1: "page_aligned USER_START" "unat (uvm_begin uv1) \<le> unat USER_START"
    "unat USER_START + 4096 * N \<le> unat (uvm_begin uv1) + unat (uvm_size uv1)"
    using a(6,7) uv0(1) N(1) by (simp_all add: USER_START_def page_aligned_iff_dvd)
  have mapped: "uvm_leaf s3 uv1 vb \<noteq> None" if "in_range USER_START (4096 * N) vb" for vb
    using a(9) a(7) uv0 N(1) that by (simp add: in_range_def)
  obtain s4 where l: "Uvm_load E uv1 USER_START (img, len) s3 = Inr (Ok (), s4)" "uvm_ok hwf live s4 uv1" "same_rest s3 s4"
    "touches live (uvm_pages s3 uv1) s3 s4" "uvm_pages s4 uv1 = uvm_pages s3 uv1" "heap_st s4 = heap_st s3"
    "uvm_leaf s4 uv1 = uvm_leaf s3 uv1" "\<forall>k<unat len. user_view s4 uv1 (USER_START + of_nat k) = Some (mem s3 (img + of_nat k))"
    "\<forall>q. q \<notin> live (heap_st s4) \<longrightarrow> same_page (mem s3) (mem s4) q"
    by (rule load_ok [OF a(2) l1(1,2) N(1) l1(3) mapped img])
  have "uvm_pages s4 uv1 \<inter> live (heap_st s3) \<subseteq> uvm_pages s3 uv1" using l(5) by blast
  from fresh_step [OF f3 l(2-4) this l(9)] have f4: "fresh_uvm hwf live s uv1 s4" .
  have src: "mem s3 (img + of_nat k) = mem s (img + of_nat k)" if "k < unat len" for k
  proof -
    have "k < 4096 * N" using that N(1) by linarith
    then have "same_page (mem s) (mem s3) (page_of (img + of_nat k))"
      by (intro fresh_uvmD(6) [OF f3]) (use img in blast)
    then show ?thesis by (simp add: same_page_def)
  qed
  show thesis by (rule that [OF a(1) l(1) f4]) (use a(6,7,10) uv0(1) N(1) l(6,8) src in simp_all)
qed

text \<open>The whole address space: the image, a guard page and a stack page.\<close>

lemma exec_space:
  assumes h: "heap_ready s" "hwf (heap_st s)" and tf: "p_trapframe (k_table s ! i) \<in> live (heap_st s)"
    and tr: "page_aligned (sym_trampoline E)" "unat (sym_trampoline E) + 4096 < 2 ^ 32"
    and N: "N = (unat len + 4095) div 4096" "0 < len" "unat USER_START + 4096 * N + 8192 \<le> unat TRAPFRAME"
    and img: "\<And>k h. k < 4096 * N \<Longrightarrow> hwf h \<Longrightarrow> page_of (img + of_nat k) \<notin> live h"
    and sup: "takes E (5 + 2 * N) (heap_st s) \<noteq> None"
  obtains uv s' where
    "\<forall>argv. exec_build E i (img, len) argv s = bind_ok (exec_stack E uv argv s') (\<lambda>(r6, s7).
       case r6 of Err \<Rightarrow> bind_ok (exec_fail E uv s7) (\<lambda>(_, t). Inr (Err, t)) | Ok sp \<Rightarrow> Inr (Ok (uv, sp), s7))"
    "fresh_uvm hwf live s uv s'" "uvm_begin uv = USER_START" "unat (uvm_size uv) = 4096 * N + 8192"
    "\<forall>k<unat len. user_view s' uv (USER_START + of_nat k) = Some (mem s (img + of_nat k))"
    "\<forall>va. in_range USER_START (4096 * N + 8192) va \<longrightarrow> unat USER_START + 4096 * N + 4096 \<le> unat va \<longrightarrow> uvm_leaf s' uv va \<noteq> None"
    "\<forall>va. in_range (USER_START + of_nat (4096 * N)) 4096 va \<longrightarrow> uvm_leaf s' uv va = None"
proof -
  have "5 + 2 * N = 3 + (2 * N + (2 + 0))" by simp
  then have s0: "takes E (3 + (2 * N + (2 + 0))) (heap_st s) \<noteq> None" using sup by metis
  have le: "unat USER_START + 4096 * N \<le> unat TRAPFRAME" using N(3) by simp
  obtain uv0 s1 s2 where n: "Uvm_new E s = Inr (Ok uv0, s1)" "same_rest s s1"
    "Uvm_init_proc E uv0 (p_trapframe (k_table s ! i)) s1 = Inr (Ok (), s2)"
    "fresh_uvm hwf live s uv0 s2" "uvm_begin uv0 = USER_START" "uvm_size uv0 = 0" "takes E (2 * N + (2 + 0)) (heap_st s2) \<noteq> None"
    by (rule exec_empty [OF h tf tr s0])
  obtain uv1 s3 s4 where l: "Uvm_alloc E uv0 len (PTE_R OR PTE_W OR PTE_X) s2 = Inr ((Ok (), uv1), s3)"
    "Uvm_load E uv1 USER_START (img, len) s3 = Inr (Ok (), s4)"
    "fresh_uvm hwf live s uv1 s4" "uvm_begin uv1 = USER_START" "unat (uvm_size uv1) = 4096 * N"
    "\<forall>k<unat len. user_view s4 uv1 (USER_START + of_nat k) = Some (mem s (img + of_nat k))"
    "takes E (2 + 0) (heap_st s4) \<noteq> None"
    by (rule exec_image [OF n(4-6) N(1,2) le img n(7)])
  have g1: "unat USER_START + unat (uvm_size uv1) + 8192 \<le> unat TRAPFRAME" using l(5) N(3) by simp
  obtain uv2 uv3 s5 where g: "Uvm_grow E uv1 PAGESIZE 0 s4 = Inr ((Ok (), uv2), s4)"
    "Uvm_grow E uv2 PAGESIZE (PTE_W OR PTE_R) s4 = Inr ((Ok (), uv3), s5)"
    "uvm_ok hwf live s5 uv3" "same_rest s4 s5" "touches live (uvm_pages s4 uv1) s4 s5" "uvm_pages s5 uv3 \<inter> live (heap_st s4) \<subseteq> uvm_pages s4 uv1"
    "uvm_begin uv3 = uvm_begin uv1" "unat (uvm_size uv3) = unat (uvm_size uv1) + 8192"
    "\<forall>va. in_range (uvm_begin uv1) (unat (uvm_size uv1)) va \<longrightarrow> user_view s5 uv3 va = user_view s4 uv1 va"
    "\<forall>va. in_range (uvm_begin uv1) (unat (uvm_size uv1) + 8192) va \<longrightarrow> unat (uvm_begin uv1) + unat (uvm_size uv1) + 4096 \<le> unat va \<longrightarrow>
      uvm_leaf s5 uv3 va \<noteq> None"
    "takes E 0 (heap_st s5) \<noteq> None" "\<forall>q. q \<notin> live (heap_st s5) \<longrightarrow> same_page (mem s4) (mem s5) q"
    "\<forall>va. in_range (uvm_begin uv1 + uvm_size uv1) 4096 va \<longrightarrow> uvm_leaf s5 uv3 va = None"
    by (rule stack_ok [OF fresh_uvmD(1) [OF l(3)] g1 l(7)])
  from fresh_step [OF l(3) g(3-6,12)] have f5: "fresh_uvm hwf live s uv3 s5" .
  have image: "user_view s5 uv3 (USER_START + of_nat k) = Some (mem s (img + of_nat k))" if k: "k < unat len" for k
  proof -
    have kN: "k < 4096 * N" using k N(1) by linarith
    have u: "unat (USER_START + of_nat k) = unat USER_START + k"
      using kN N(3) by (simp add: unat_word_ariths unat_of_nat USER_START_def TRAPFRAME_num)
    have "in_range (uvm_begin uv1) (unat (uvm_size uv1)) (USER_START + of_nat k)"
      using kN l(4,5) unfolding in_range_def u by simp
    then show ?thesis using g(9) l(6) k by simp
  qed
  show thesis
  proof (rule that [OF _ f5])
    have "p_trapframe (k_table s1 ! i) = p_trapframe (k_table s ! i)" using same_rest_kernel(1) [OF n(2)] by simp
    then show "\<forall>argv. exec_build E i (img, len) argv s = bind_ok (exec_stack E uv3 argv s5) (\<lambda>(r6, s7).
       case r6 of Err \<Rightarrow> bind_ok (exec_fail E uv3 s7) (\<lambda>(_, t). Inr (Err, t)) | Ok sp \<Rightarrow> Inr (Ok (uv3, sp), s7))"
      using n(1,3) l(1,2) g(1,2) by (simp add: exec_build_def unwrap_result_def)
    have "uvm_size uv1 = of_nat (unat (uvm_size uv1))" by simp
    then have "uvm_begin uv1 + uvm_size uv1 = USER_START + of_nat (4096 * N)" unfolding l(4,5) by simp
    then show "\<forall>va. in_range (USER_START + of_nat (4096 * N)) 4096 va \<longrightarrow> uvm_leaf s5 uv3 va = None" using g(13) by metis
  qed (use l(4,5) g(7,8,10) image in simp_all)
qed

end

end
