(* ===== verification/ExecArgs.thy ===== *)
theory ExecArgs
  imports ExecMem
begin

text \<open>
  The arguments of \<open>kexec\<close> on the stack of the new program: where each string and the vector of
  their addresses lie, and that the program finds them there.
\<close>

section \<open>Layout\<close>

text \<open>
  The addresses of the arguments below \<open>sp\<close>, each rounded down to a multiple of 8, and the lowest
  of them.
\<close>

fun arg_addrs :: "nat \<Rightarrow> 'a list list \<Rightarrow> nat list" where
  "arg_addrs sp [] = []"
| "arg_addrs sp (arg # args) = (let p = (sp - length arg) div 8 * 8 in p # arg_addrs p args)"

fun args_low :: "nat \<Rightarrow> 'a list list \<Rightarrow> nat" where
  "args_low sp [] = sp"
| "args_low sp (arg # args) = args_low ((sp - length arg) div 8 * 8) args"

lemma args_low_le: "args_low sp args \<le> sp"
proof (induction args arbitrary: sp)
  case (Cons arg args)
  have "(sp - length arg) div 8 * 8 \<le> sp - length arg" by (rule div_times_less_eq_dividend)
  then show ?case using Cons.IH [of "(sp - length arg) div 8 * 8"] by simp
qed simp

lemma length_arg_addrs [simp]: "length (arg_addrs sp args) = length args"
  by (induction args arbitrary: sp) (simp_all add: Let_def)

lemma arg_addrs_bounds:
  assumes "j < length args" "0 < args_low sp args"
  shows "args_low sp args \<le> arg_addrs sp args ! j \<and> arg_addrs sp args ! j + length (args ! j) \<le> sp"
  using assms
proof (induction args arbitrary: sp j)
  case (Cons arg args)
  let ?p = "(sp - length arg) div 8 * 8"
  have p: "?p \<le> sp - length arg" by (rule div_times_less_eq_dividend)
  have low: "args_low ?p args \<le> ?p" "0 < args_low ?p args" using args_low_le [of ?p args] Cons.prems(2) by simp_all
  show ?case
  proof (cases j)
    case 0
    then show ?thesis using low p by (simp add: Let_def)
  next
    case (Suc n)
    have "?p \<le> sp" using p by simp
    then show ?thesis using Suc Cons.IH [of n ?p] Cons.prems low by (simp add: Let_def)
  qed
qed simp

lemma unat_and_not_7: "unat (x AND NOT 0b111 :: usize) = unat x div 8 * 8"
proof -
  have "x AND NOT 0b111 = push_bit 3 (drop_bit 3 x)"
    by (rule bit_word_eqI) (auto simp: bit_simps mask_eq_exp_minus_1 [of 3, where 'a = "32 word", simplified, symmetric])
  moreover have "unat (drop_bit 3 x) = unat x div 8" by (simp add: unat_drop_bit_eq drop_bit_nat_def)
  moreover have "unat x div 8 * 8 < 2 ^ 32" by (rule le_less_trans [OF div_times_less_eq_dividend]) (rule unat_u32_bound)
  ultimately show ?thesis by (simp add: push_bit_eq_mult unat_word_ariths)
qed

section \<open>Writing to the stack\<close>

text \<open>The stack page, and a write to the addresses from \<open>lo\<close> to \<open>hi\<close>.\<close>

definition stack_page :: "('h, 'z) machine_scheme \<Rightarrow> Uvm \<Rightarrow> usize \<Rightarrow> bool" where
  "stack_page s uv base \<longleftrightarrow> page_aligned base \<and> uvm_leaf s uv base \<noteq> None \<and> unat (uvm_begin uv) \<le> unat base \<and>
     unat base + 4096 \<le> unat (uvm_begin uv) + unat (uvm_size uv)"

definition stack_write :: "('h \<Rightarrow> bool) \<Rightarrow> ('h \<Rightarrow> usize set) \<Rightarrow> ('h, 'z) machine_scheme \<Rightarrow> Uvm \<Rightarrow> nat \<Rightarrow> nat \<Rightarrow> ('h, 'z) machine_scheme \<Rightarrow> bool" where
  "stack_write hwf live s uv lo hi s' \<longleftrightarrow> uvm_ok hwf live s' uv \<and> (\<exists>m. s' = s\<lparr>mem := m\<rparr>) \<and> uvm_leaf s' uv = uvm_leaf s uv \<and>
     (\<forall>q. q \<notin> user_pages (uvm_leaf s uv) \<longrightarrow> same_page (mem s) (mem s') q) \<and>
     (\<forall>va. in_range (uvm_begin uv) (unat (uvm_size uv)) va \<longrightarrow> \<not> (lo \<le> unat va \<and> unat va < hi) \<longrightarrow>
       user_view s' uv va = user_view s uv va)"

lemma stack_writeD:
  assumes "stack_write hwf live s uv lo hi s'"
  shows "uvm_ok hwf live s' uv" "heap_st s' = heap_st s" "same_rest s s'" "uvm_leaf s' uv = uvm_leaf s uv"
    "q \<notin> user_pages (uvm_leaf s uv) \<Longrightarrow> same_page (mem s) (mem s') q"
    "in_range (uvm_begin uv) (unat (uvm_size uv)) va \<Longrightarrow> \<not> (lo \<le> unat va \<and> unat va < hi) \<Longrightarrow> user_view s' uv va = user_view s uv va"
  using assms by (auto simp: stack_write_def same_rest_def)

lemma stack_write_refl: "uvm_ok hwf live s uv \<Longrightarrow> stack_write hwf live s uv lo hi s"
  unfolding stack_write_def by (auto intro: exI [of _ "mem s"])

lemma stack_write_trans:
  assumes "stack_write hwf live s uv a b s1" "stack_write hwf live s1 uv c d s2" "lo \<le> a" "b \<le> hi" "lo \<le> c" "d \<le> hi"
  shows "stack_write hwf live s uv lo hi s2"
proof -
  note A = stack_writeD [OF assms(1)] and B = stack_writeD [OF assms(2)]
  have "\<exists>m. s2 = s\<lparr>mem := m\<rparr>" using assms(1,2) by (auto simp: stack_write_def)
  moreover have "same_page (mem s) (mem s2) q" if "q \<notin> user_pages (uvm_leaf s uv)" for q
    using same_page_trans [OF A(5) [OF that] B(5)] that A(4) by simp
  moreover have "user_view s2 uv va = user_view s uv va"
    if "in_range (uvm_begin uv) (unat (uvm_size uv)) va" "\<not> (lo \<le> unat va \<and> unat va < hi)" for va
    using A(6) [OF that(1)] B(6) [OF that(1)] that(2) assms(3-6) by force
  ultimately show ?thesis using A(4) B(1,4) by (auto simp: stack_write_def)
qed

lemma stack_page_write: "stack_write hwf live s uv lo hi s' \<Longrightarrow> stack_page s uv base \<Longrightarrow> stack_page s' uv base"
  by (simp add: stack_page_def stack_write_def)

lemma push_ok:
  assumes ok: "uvm_ok hwf live s uv" and st: "stack_page s uv base"
    and a: "unat base \<le> unat a" "unat a < unat base + 4096" "unat a + length data \<le> unat base + 4096"
  obtains s' where "copy_out_cont E repr_u8 uv a data s = Inr (Ok (), s')" "stack_write hwf live s uv (unat a) (unat a + length data) s'"
    "\<forall>k<length data. user_view s' uv (a + of_nat k) = Some (data ! k)"
proof -
  have b: "page_aligned base" "unat (uvm_begin uv) \<le> unat base" "unat base + 4096 \<le> unat (uvm_begin uv) + unat (uvm_size uv)"
    using st by (simp_all add: stack_page_def)
  have pg: "page_of a = base" using page_range [OF b(1), of a] a by (simp add: in_range_def)
  then obtain w where w: "uvm_leaf s uv a = Some w"
    using st leaf_page_cong [of a base "mem s" "pt_root (uvm_pagetable uv)"] b(1) by (auto simp: stack_page_def)
  have off: "unat (a mod 4096) = unat a - unat base"
    using page_split [of a] pg unat_page_plus [OF b(1) offset_bound, of a] by simp
  have len: "unat (a mod 4096) + length data \<le> 4096" using off a by simp
  have rng: "in_range (uvm_begin uv) (unat (uvm_size uv)) a" using a b by (simp add: in_range_def)
  let ?s = "s\<lparr>mem := write_list repr_u8 (pte_page w + a mod 4096) data (mem s)\<rparr>"
  note c = copy_out_bytes [OF ok rng w len] and v = copy_out_view [OF ok rng w len]
  have fr: "same_page (mem s) (mem ?s) q" if "q \<notin> user_pages (uvm_leaf s uv)" for q
    by (rule c(4)) (use parent_leaf_user(4) [OF ok rng w] that in blast)
  have "stack_write hwf live s uv (unat a) (unat a + length data) ?s"
    using c(2,3) fr v unfolding stack_write_def by auto
  moreover have "user_view ?s uv (a + of_nat k) = Some (data ! k)" if "k < length data" for k
  proof -
    have "unat a + k < 2 ^ 32" using that a(3) b(3) uvm_dimsD(5) [OF uvm_okD(5) [OF ok]] by simp
    then have u: "unat (a + of_nat k) = unat a + k" by (simp add: unat_word_ariths unat_of_nat)
    have "in_range (uvm_begin uv) (unat (uvm_size uv)) (a + of_nat k)" using that a b unfolding in_range_def u by simp
    from v [OF this] show ?thesis using that unfolding u by simp
  qed
  ultimately show thesis using that c(1) by blast
qed

section \<open>The arguments\<close>

lemma exec_args_ok:
  assumes "uvm_ok hwf live s uv" "stack_page s uv base" "unat sp \<le> unat base + 4096"
    "0 < unat base" "unat base \<le> args_low (unat sp) args" "unat sp < unat base + 4096 \<or> args = [] \<or> hd args \<noteq> []"
  shows "\<exists>sp' s'. exec_args E uv base args sp s = Inr (Ok (sp', map of_nat (arg_addrs (unat sp) args)), s') \<and>
    unat sp' = args_low (unat sp) args \<and> stack_write hwf live s uv (args_low (unat sp) args) (unat sp) s' \<and>
    (\<forall>j<length args. \<forall>k<length (args ! j). user_view s' uv (of_nat (arg_addrs (unat sp) args ! j) + of_nat k) = Some (args ! j ! k))"
  using assms
proof (induction args arbitrary: sp s)
  case Nil
  then show ?case using stack_write_refl [OF Nil.prems(1)] by simp
next
  case (Cons arg args)
  let ?p = "(unat sp - length arg) div 8 * 8"
  define sp2 where "sp2 = (sp - of_nat (length arg)) AND NOT 0b111"
  have low: "unat base \<le> args_low ?p args" "args_low ?p args \<le> ?p" using Cons.prems(5) args_low_le by simp_all
  have pl: "?p \<le> unat sp - length arg" by (rule div_times_less_eq_dividend)
  have len: "length arg \<le> unat sp" "length arg < 2 ^ 32" using low pl Cons.prems(4) unat_u32_bound [of sp] by linarith+
  then have l: "unat (of_nat (length arg) :: usize) = length arg" by (simp add: unat_of_nat)
  then have sub: "sub_chk sp (of_nat (length arg)) = Inr (sp - of_nat (length arg))"
    "unat (sp - of_nat (length arg)) = unat sp - length arg"
    using len by (simp_all add: sub_chk_def word_le_nat_alt unat_sub)
  have u: "unat sp2 = ?p" unfolding sp2_def unat_and_not_7 sub(2) ..
  have "sp2 = of_nat (unat sp2)" by simp
  then have p2: "sp2 = of_nat ?p" unfolding u .
  have lt: "?p < unat base + 4096" using pl Cons.prems(3,6) len(1) by (cases arg) auto
  have fit: "?p + length arg \<le> unat sp" using pl len(1) by linarith
  obtain s1 where w: "copy_out_cont E repr_u8 uv sp2 arg s = Inr (Ok (), s1)"
    "stack_write hwf live s uv (unat sp2) (unat sp2 + length arg) s1"
    "\<forall>k<length arg. user_view s1 uv (sp2 + of_nat k) = Some (arg ! k)"
    by (rule push_ok [OF Cons.prems(1,2), of sp2 arg E]) (use u low lt fit Cons.prems(3) in linarith)+
  note W = stack_writeD [OF w(2)]
  have "\<exists>sp' s'. exec_args E uv base args sp2 s1 = Inr (Ok (sp', map of_nat (arg_addrs (unat sp2) args)), s') \<and>
    unat sp' = args_low (unat sp2) args \<and> stack_write hwf live s1 uv (args_low (unat sp2) args) (unat sp2) s' \<and>
    (\<forall>j<length args. \<forall>k<length (args ! j). user_view s' uv (of_nat (arg_addrs (unat sp2) args ! j) + of_nat k) = Some (args ! j ! k))"
    by (rule Cons.IH [OF W(1) stack_page_write [OF w(2) Cons.prems(2)]]) (use u low lt Cons.prems(4) in simp_all)
  then obtain sp' s' where r: "exec_args E uv base args sp2 s1 = Inr (Ok (sp', map of_nat (arg_addrs ?p args)), s')"
    "unat sp' = args_low ?p args" "stack_write hwf live s1 uv (args_low ?p args) ?p s'"
    "\<forall>j<length args. \<forall>k<length (args ! j). user_view s' uv (of_nat (arg_addrs ?p args ! j) + of_nat k) = Some (args ! j ! k)"
    unfolding u by blast
  have d: "(sp - of_nat (length arg)) AND - 8 = sp2" "\<not> sp2 < base" using low u by (simp_all add: sp2_def word_less_nat_alt)
  have "exec_args E uv base (arg # args) sp s = Inr (Ok (sp', sp2 # map of_nat (arg_addrs ?p args)), s')"
    using sub(1) w(1) r(1) d(2) by (simp add: d(1))
  then have run: "exec_args E uv base (arg # args) sp s = Inr (Ok (sp', map of_nat (arg_addrs (unat sp) (arg # args))), s')"
    using p2 by (simp add: Let_def del: exec_args.simps)
  have st: "stack_write hwf live s uv (args_low ?p args) (unat sp) s'"
    by (rule stack_write_trans [OF w(2) r(3)]) (use u low fit in linarith)+
  have first: "user_view s' uv (of_nat ?p + of_nat k) = Some (arg ! k)" if k: "k < length arg" for k
  proof -
    have "?p + k < 2 ^ 32" using k fit unat_u32_bound [of sp] by linarith
    then have v: "unat (sp2 + of_nat k) = ?p + k" using u by (simp add: unat_word_ariths unat_of_nat)
    have "in_range (uvm_begin uv) (unat (uvm_size uv)) (sp2 + of_nat k)"
      using Cons.prems(2,3) low fit k unfolding in_range_def v stack_page_def by linarith
    from stack_writeD(6) [OF r(3) this] show ?thesis using w(3) k v p2 by simp
  qed
  show ?case
    using run r(2) st first r(4) by (intro exI [of _ sp'] exI [of _ s']) (auto simp: Let_def nth_Cons split: nat.splits)
qed

text \<open>The vector of addresses, in memory order.\<close>

definition le_bytes :: "u32 \<Rightarrow> u8 list" where
  "le_bytes w = [ucast w, ucast (drop_bit 8 w), ucast (drop_bit 16 w), ucast (drop_bit 24 w)]"

lemma length_le_bytes [simp]: "length (le_bytes w) = 4"
  by (simp add: le_bytes_def)

lemma write_list_append: "write_list repr_u8 a (xs @ ys) m = write_list repr_u8 (a + of_nat (length xs)) ys (write_list repr_u8 a xs m)"
  by (induction xs arbitrary: a m) (simp_all add: repr_u8_def algebra_simps)

lemma write_list_u32: "write_list repr_u32 a ws m = write_list repr_u8 a (concat (map le_bytes ws)) m"
proof (induction ws arbitrary: a m)
  case (Cons w ws)
  have "store32 m a w = write_list repr_u8 a (le_bytes w) m"
    by (simp add: store32_def le_bytes_def repr_u8_def algebra_simps)
  then show ?case using Cons.IH by (simp add: write_list_append repr_u32_def)
qed simp

lemma copy_out_cont_u32: "copy_out_cont E repr_u32 uv a ws s = copy_out_cont E repr_u8 uv a (concat (map le_bytes ws)) s"
  unfolding copy_out_cont_def write_list_u32 ..

lemma length_concat_bytes [simp]: "length (concat (map le_bytes ws)) = 4 * length ws"
  by (induction ws) simp_all

lemma concat_bytes_nth:
  assumes "j < length ws" "b < 4"
  shows "concat (map le_bytes ws) ! (4 * j + b) = le_bytes (ws ! j) ! b"
  using assms
proof (induction ws arbitrary: j)
  case (Cons w ws)
  then show ?case by (cases j) (simp_all add: nth_append)
qed simp

text \<open>The arguments and the vector, as the new program sees them.\<close>

definition args_seen :: "('h, 'z) machine_scheme \<Rightarrow> Uvm \<Rightarrow> nat \<Rightarrow> u8 list list \<Rightarrow> usize \<Rightarrow> bool" where
  "args_seen s uv tos args sp \<longleftrightarrow>
     (\<forall>j<length args. \<forall>k<length (args ! j). user_view s uv (of_nat (arg_addrs tos args ! j) + of_nat k) = Some (args ! j ! k)) \<and>
     (\<forall>j\<le>length args. \<forall>b<4. user_view s uv (sp + of_nat (4 * j + b)) =
       Some (le_bytes ((map of_nat (arg_addrs tos args) @ [0]) ! j) ! b))"

text \<open>They depend on the stack from the vector on only.\<close>

lemma strings_kept:
  assumes keep: "\<And>va. args_low tos args \<le> unat va \<Longrightarrow> unat va < tos \<Longrightarrow> user_view s' uv va = user_view s uv va"
    and b: "0 < args_low tos args" "tos < 2 ^ 32"
    and seen: "\<forall>j<length args. \<forall>k<length (args ! j). user_view s uv (of_nat (arg_addrs tos args ! j) + of_nat k) = Some (args ! j ! k)"
    and jk: "j < length args" "k < length (args ! j)"
  shows "user_view s' uv (of_nat (arg_addrs tos args ! j) + of_nat k) = Some (args ! j ! k)"
proof -
  let ?a = "arg_addrs tos args ! j"
  have bd: "args_low tos args \<le> ?a" "?a + length (args ! j) \<le> tos"
    using arg_addrs_bounds [OF jk(1) b(1)] by simp_all
  have "?a + k < 2 ^ 32" using bd(2) jk(2) b by linarith
  then have u: "unat (of_nat ?a + of_nat k :: usize) = ?a + k" by (simp add: unat_word_ariths unat_of_nat)
  have "user_view s' uv (of_nat ?a + of_nat k) = user_view s uv (of_nat ?a + of_nat k)"
    by (rule keep) (use u bd jk(2) in linarith)+
  then show ?thesis using seen jk by simp
qed

lemma args_seen_cong:
  assumes keep: "\<And>va. unat sp \<le> unat va \<Longrightarrow> unat va < tos \<Longrightarrow> user_view s' uv va = user_view s uv va"
    and seen: "args_seen s uv tos args sp"
    and b: "tos < 2 ^ 32" "0 < unat sp" "unat sp = args_low tos args - 4 * Suc (length args)"
  shows "args_seen s' uv tos args sp"
proof -
  have "user_view s' uv (of_nat (arg_addrs tos args ! j) + of_nat k) = Some (args ! j ! k)"
    if "j < length args" "k < length (args ! j)" for j k
    by (rule strings_kept [OF keep _ b(1) _ that]) (use b seen in \<open>simp_all add: args_seen_def\<close>)
  moreover have "user_view s' uv (sp + of_nat (4 * j + c)) = user_view s uv (sp + of_nat (4 * j + c))" if "j \<le> length args" "c < 4" for j c
  proof -
    have lt: "unat sp + (4 * j + c) < tos" using that args_low_le [of tos args] b(2,3) by simp
    then have u: "unat (sp + of_nat (4 * j + c)) = unat sp + (4 * j + c)" using b(1) by (simp add: unat_word_ariths unat_of_nat)
    show ?thesis by (rule keep) (use u lt in linarith)+
  qed
  ultimately show ?thesis using seen by (simp add: args_seen_def)
qed

lemma exec_stack_ok:
  assumes ok: "uvm_ok hwf live s uv" and st: "stack_page s uv base" "0 < unat base"
    and top: "unat base + 4096 = unat (uvm_begin uv) + unat (uvm_size uv)"
    and fit: "unat base + 4 * Suc (length args) \<le> args_low (unat base + 4096) args" "args = [] \<or> hd args \<noteq> []"
  obtains sp s' where "exec_stack E uv args s = Inr (Ok sp, s')" "unat sp = args_low (unat base + 4096) args - 4 * Suc (length args)"
    "stack_write hwf live s uv (unat sp) (unat base + 4096) s'" "args_seen s' uv (unat base + 4096) args sp"
proof -
  let ?top = "unat base + 4096" and ?n = "Suc (length args)"
  let ?e = "uvm_begin uv + uvm_size uv" and ?v = "map of_nat (arg_addrs (unat base + 4096) args) @ [0]"
  note dims = uvm_dimsD [OF uvm_okD(5) [OF ok]]
  have e: "Uvm_end uv = Inr ?e" "unat ?e = ?top" using dims(5) top by (simp_all add: Uvm_end_def add_chk_def unat_word_ariths)
  have "unat (?e - PAGESIZE) = unat base" using e(2) by (simp add: PAGESIZE_num unat_sub word_le_nat_alt)
  then have b: "sub_chk ?e PAGESIZE = Inr base"
    using e(2) by (simp add: sub_chk_def PAGESIZE_num word_le_nat_alt word_unat_eq_iff)
  obtain sp1 s1 where a: "exec_args E uv base args ?e s = Inr (Ok (sp1, map of_nat (arg_addrs ?top args)), s1)"
    "unat sp1 = args_low ?top args" "stack_write hwf live s uv (args_low ?top args) ?top s1"
    "\<forall>j<length args. \<forall>k<length (args ! j). user_view s1 uv (of_nat (arg_addrs ?top args ! j) + of_nat k) = Some (args ! j ! k)"
    using exec_args_ok [OF ok st(1), of ?e args E] st(2) fit unfolding e(2) by auto
  have low: "args_low ?top args \<le> ?top" by (rule args_low_le)
  have n: "4 * ?n \<le> 4096" using fit(1) low by linarith
  then have len: "unat (of_nat (length ?v) :: usize) = ?n" "unat (of_nat (length ?v) * 4 :: usize) = 4 * ?n"
    by (simp_all add: unat_of_nat unat_word_ariths)
  then have m: "mul_chk (of_nat (length ?v)) 4 = Inr (of_nat (length ?v) * 4)" using n by (simp add: mul_chk_def)
  define sp where "sp = sp1 - of_nat (length ?v) * 4"
  have le: "of_nat (length ?v) * 4 \<le> sp1" unfolding word_le_nat_alt len(2) using a(2) fit(1) by linarith
  then have sp: "sub_chk sp1 (of_nat (length ?v) * 4) = Inr sp" "unat sp = args_low ?top args - 4 * ?n"
    using len(2) a(2) by (simp_all add: sub_chk_def sp_def unat_sub)
  note W = stack_writeD [OF a(3)]
  have lv: "length (concat (map le_bytes ?v)) = 4 * ?n" unfolding length_concat_bytes by simp
  obtain s2 where w: "copy_out_cont E repr_u8 uv sp (concat (map le_bytes ?v)) s1 = Inr (Ok (), s2)"
    "stack_write hwf live s1 uv (unat sp) (unat sp + 4 * ?n) s2"
    "\<forall>k<4 * ?n. user_view s2 uv (sp + of_nat k) = Some (concat (map le_bytes ?v) ! k)"
    by (rule push_ok [OF W(1) stack_page_write [OF a(3) st(1)], of sp "concat (map le_bytes ?v)" E, unfolded lv])
      (use sp(2) fit(1) low in simp_all)
  show thesis
  proof (rule that [OF _ sp(2)])
    show "exec_stack E uv args s = Inr (Ok sp, s2)"
      using e(1) b a(1) m sp(1) w(1) sp(2) fit(1)
      by (simp add: exec_stack_def copy_out_cont_u32 word_less_nat_alt Let_def)
    show "stack_write hwf live s uv (unat sp) ?top s2"
      by (rule stack_write_trans [OF a(3) w(2)]) (use sp(2) fit(1) low in simp_all)
    have keep: "user_view s2 uv va = user_view s1 uv va" if "args_low ?top args \<le> unat va" "unat va < ?top" for va
      by (rule stack_writeD(6) [OF w(2)]) (use that sp(2) fit(1) st(1) top in \<open>auto simp: stack_page_def in_range_def\<close>)
    have "0 < args_low ?top args" "?top < 2 ^ 32" using fit(1) top dims(5) by simp_all
    then have "\<forall>j<length args. \<forall>k<length (args ! j). user_view s2 uv (of_nat (arg_addrs ?top args ! j) + of_nat k) = Some (args ! j ! k)"
      using strings_kept [OF keep _ _ a(4)] by blast
    moreover have "user_view s2 uv (sp + of_nat (4 * j + b)) = Some (le_bytes (?v ! j) ! b)" if "j \<le> length args" "b < 4" for j b
      using w(3) [rule_format, of "4 * j + b"] concat_bytes_nth [of j ?v b] that by simp
    ultimately show "args_seen s2 uv ?top args sp" unfolding args_seen_def by blast
  qed
qed

text \<open>
  An empty first argument has its address at the end of the address space, which is not mapped: the
  copy of its no bytes fails, and with it \<open>kexec\<close>.
\<close>

lemma empty_first_argument:
  assumes ok: "uvm_ok hwf live s uv" and e: "e = uvm_begin uv + uvm_size uv" "e < TRAPFRAME" "base \<le> e"
  shows "exec_args E uv base ([] # args) e s = Inr (Err, s)"
proof -
  note dims = uvm_dimsD [OF uvm_okD(5) [OF ok]]
  have u: "unat e = unat (uvm_begin uv) + unat (uvm_size uv)" using dims(5) e(1) by (simp add: unat_word_ariths)
  then have "4096 dvd unat e" using dims(2,3) by (simp add: page_aligned_iff_dvd)
  then have al: "page_aligned e" "unat e div 8 * 8 = unat e" by (auto simp: page_aligned_iff_dvd elim!: dvdE)
  have "\<not> in_range (uvm_begin uv) (unat (uvm_size uv)) e" using u by (simp add: in_range_def)
  moreover have "e \<noteq> TRAPFRAME" "e \<noteq> TRAMPOLINE" using e(2) by (auto simp: TRAPFRAME_num TRAMPOLINE_num word_less_nat_alt)
  ultimately have "uvm_leaf s uv e = None"
    using uvm_okD(6) [OF ok] al(1) unfolding uvm_leaf_ok_def by (metis not_None_eq page_of_aligned)
  then have c: "copy_out_cont E repr_u8 uv e [] s = Inr (Err, s)"
    by (simp add: copy_out_cont_eq [OF table_okD(3) [OF uvm_okD(2) [OF ok]]])
  have "e AND - 8 = e" using al(2) unat_and_not_7 [of e] by (simp add: word_unat_eq_iff)
  then show ?thesis using c e(3) by (simp add: sub_chk_def)
qed

lemma fresh_stack_write:
  assumes "fresh_uvm hwf live s uv s1" "stack_write hwf live s1 uv lo hi s2"
  shows "fresh_uvm hwf live s uv s2"
proof -
  note W = stack_writeD [OF assms(2)] and F = fresh_uvmD [OF assms(1)]
  have "pt_root (uvm_pagetable uv) \<notin> user_pages (uvm_leaf s1 uv)"
    using uvm_pages_live(3) [OF F(1)] root_in_frames [of "pt_root (uvm_pagetable uv)" "mem s1"] by blast
  then have fr: "uvm_frames s2 uv = uvm_frames s1 uv"
    using pt_frames_frame [OF W(5)] pt_wfD(1) [OF table_okD(3) [OF uvm_okD(2) [OF F(1)]]] by blast
  have "touches live (uvm_pages s1 uv) s1 s2" using W(2,5) by (auto simp: touches_def child_pages_def)
  moreover have "uvm_pages s2 uv \<inter> live (heap_st s1) \<subseteq> uvm_pages s1 uv" using W(4) fr by (simp add: child_pages_def)
  moreover have "\<forall>q. q \<notin> live (heap_st s2) \<longrightarrow> same_page (mem s1) (mem s2) q"
    using W(2,5) uvm_pages_live(2) [OF F(1)] by auto
  ultimately show ?thesis by (rule fresh_step [OF assms(1) W(1,3)])
qed

section \<open>The exchange\<close>

lemma trapframe_set_touches:
  "page_aligned (p_trapframe (k_table s ! i)) \<Longrightarrow> touches live {p_trapframe (k_table s ! i)} s (trapframe_set i f v s)"
  using tf_set_same_page by (auto simp: touches_def trapframe_set_def)

lemma trapframe_set_simps [simp]:
  "k_table (trapframe_set i f v s) = k_table s" "heap_st (trapframe_set i f v s) = heap_st s"
  "heap_ready (trapframe_set i f v s) = heap_ready s"
  by (simp_all add: trapframe_set_def)

text \<open>Two registers of a trapframe outside the address space.\<close>

lemma two_registers:
  assumes "uvm_ok hwf live s uv" "page_aligned (p_trapframe (k_table s ! i))" "p_trapframe (k_table s ! i) \<notin> uvm_pages s uv"
    "s' = trapframe_set i g w (trapframe_set i f v s)"
  shows "touches live {p_trapframe (k_table s ! i)} s s'" "uvm_ok hwf live s' uv" "uvm_leaf s' uv = uvm_leaf s uv"
    "uvm_pages s' uv = uvm_pages s uv"
    "in_range (uvm_begin uv) (unat (uvm_size uv)) va \<Longrightarrow> user_view s' uv va = user_view s uv va"
proof -
  let ?tf = "p_trapframe (k_table s ! i)"
  have 2: "touches live {?tf} (trapframe_set i f v s) s'"
    using trapframe_set_touches [of "trapframe_set i f v s" i live g w] assms(2) by (simp add: assms(4))
  show t: "touches live {?tf} s s'" by (rule touches_trans [OF trapframe_set_touches [OF assms(2)] 2]) simp
  have "uvm_pages s uv \<inter> {?tf} = {}" "heap_ready s'" "hwf (heap_st s')"
    using assms(3) uvm_okD(3,4) [OF assms(1)] by (simp_all add: assms(4))
  note u = uvm_frame [OF assms(1) t this]
  show "uvm_ok hwf live s' uv" "uvm_leaf s' uv = uvm_leaf s uv" "uvm_pages s' uv = uvm_pages s uv"
    "in_range (uvm_begin uv) (unat (uvm_size uv)) va \<Longrightarrow> user_view s' uv va = user_view s uv va"
    by (fact u)+
qed

context page_supply
begin

lemma exec_exchange:
  assumes P: "procs_ok hwf live s" and i: "i < length (k_table s)" and f: "fresh_uvm hwf live s uv s2"
  obtains s' where "set_pagetable E i uv (trapframe_set i tf_a1 sp (trapframe_set i tf_a0 n s2)) = Inr s'"
    "heap_ready s'" "hwf (heap_st s')" "uvm_ok hwf live s' uv" "uvm_pages s' uv \<inter> live (heap_st s) = {}"
    "k_table s' = (k_table s)[i := (k_table s ! i)\<lparr>p_pagetable := uv\<rparr>]" "touches live (slot_pages s (k_table s ! i)) s s'"
    "p_trapframe (k_table s ! i) \<in> live (heap_st s')"
    "\<forall>va. in_range (uvm_begin uv) (unat (uvm_size uv)) va \<longrightarrow> user_view s' uv va = user_view s2 uv va"
    "\<forall>f. trapframe_get i f s' = (if f = tf_a1 then sp else if f = tf_a0 then n else trapframe_get i f s)"
proof -
  let ?p = "k_table s ! i"
  let ?tf = "p_trapframe ?p" and ?pt = "p_pagetable ?p"
  note D = procs_okD [OF P] and F = fresh_uvmD [OF f]
  note S = slot_okD [OF D(3) [OF i]]
  have tab2: "k_table s2 = k_table s" using same_rest_kernel(1) [OF F(2)] .
  have al: "page_aligned ?tf" using live_pages [OF D(2)] S(2) by blast
  have used: "uvm_pages s ?pt \<subseteq> live (heap_st s)" using S(4) by (auto simp: slot_pages_def)
  have r2: "heap_ready s2" "hwf (heap_st s2)" using uvm_okD(3,4) [OF F(1)] by simp_all
  note old2 = uvm_frame [OF S(1) F(3) _ r2, simplified]
  have dis: "uvm_pages s2 uv \<inter> uvm_pages s ?pt = {}" "?tf \<notin> uvm_pages s2 uv" using F(4) used S(2) by blast+
  define s4 where "s4 = trapframe_set i tf_a1 sp (trapframe_set i tf_a0 n s2)"
  have tab4: "k_table s4 = k_table s" "heap_st s4 = heap_st s2" using tab2 by (simp_all add: s4_def)
  have al2: "page_aligned (p_trapframe (k_table s2 ! i))" using al tab2 by simp
  note new4 = two_registers [OF F(1) al2 _ s4_def, unfolded tab2, OF dis(2)]
  note old4 = two_registers [OF old2(1) al2 _ s4_def, unfolded tab2 old2(3), OF S(3)]
  have iv: "i < length (k_table s4)" "uvm_ok hwf live s4 (p_pagetable (k_table s4 ! i))" using i old4(2) tab4 by simp_all
  obtain s5 where b: "set_pagetable E i uv s4 = Inr s5" "hwf (heap_st s5)" "heap_ready s5"
    "same_rest (upd_proc i (\<lambda>q. q\<lparr>p_pagetable := uv\<rparr>) s4) s5"
    "touches live (uvm_pages s4 (p_pagetable (k_table s4 ! i))) s4 s5"
    by (rule set_pagetable_ok [OF iv])
  have t5: "touches live (uvm_pages s ?pt) s4 s5" using b(5) tab4 old4(4) by simp
  have "uvm_pages s4 uv \<inter> uvm_pages s ?pt = {}" using new4(4) dis(1) by simp
  note new5 = uvm_frame [OF new4(2) t5 this b(3,2)]
  have tab5: "k_table s5 = (k_table s)[i := ?p\<lparr>p_pagetable := uv\<rparr>]" using same_rest_kernel(1) [OF b(4)] tab4 by simp
  have t4: "touches live (slot_pages s ?p) s s4" by (rule touches_trans [OF touches_mono [OF F(3)] new4(1)]) (auto simp: slot_pages_def)
  have t: "touches live (slot_pages s ?p) s s5" by (rule touches_trans [OF t4 t5]) (auto simp: slot_pages_def)
  have tf2: "?tf \<in> live (heap_st s4)" "same_page (mem s) (mem s2) ?tf" using S(2) F(3) tab4(2) by (auto simp: touches_def)
  then have tf5: "?tf \<in> live (heap_st s5)" "same_page (mem s4) (mem s5) ?tf" using t5 S(3) by (auto simp: touches_def)
  have "tf_get (mem s5) ?tf g = (if g = tf_a1 then sp else if g = tf_a0 then n else tf_get (mem s) ?tf g)" for g
    using tf_get_same_page [OF al tf5(2)] tf_get_same_page [OF al tf2(2)] tab2
      tf_get_set [OF page_aligned_imp_word_aligned [OF al]] by (simp add: s4_def trapframe_set_def)
  then have regs: "\<forall>f. trapframe_get i f s5 = (if f = tf_a1 then sp else if f = tf_a0 then n else trapframe_get i f s)"
    using tab5 i by (simp add: trapframe_get_def)
  show thesis
    by (rule that [OF b(1) [unfolded s4_def] b(3,2) new5(1) _ tab5 t tf5(1) _ regs]) (use new5(3,4) new4(4,5) F(4) in simp_all)
qed

lemma exec_switch:
  assumes P: "procs_ok hwf live s" and i: "i < length (k_table s)" and f: "fresh_uvm hwf live s uv s2"
  obtains s5 s' where "set_pagetable E i uv (trapframe_set i tf_a1 sp (trapframe_set i tf_a0 n s2)) = Inr s5"
    "s' = trapframe_set i epc USER_START (trapframe_set i tf_sp sp s5)" "procs_ok hwf live s'"
    "k_table s' = (k_table s)[i := (k_table s ! i)\<lparr>p_pagetable := uv\<rparr>]" "touches live (slot_pages s (k_table s ! i)) s s'"
    "\<forall>va. in_range (uvm_begin uv) (unat (uvm_size uv)) va \<longrightarrow> user_view s' uv va = user_view s2 uv va"
    "\<forall>f. trapframe_get i f s' = (if f = epc then USER_START else if f = tf_sp \<or> f = tf_a1 then sp else if f = tf_a0 then n
      else trapframe_get i f s)"
proof -
  let ?p = "k_table s ! i"
  let ?tf = "p_trapframe ?p"
  note S = slot_okD [OF procs_okD(3) [OF P i]]
  obtain s5 where e: "set_pagetable E i uv (trapframe_set i tf_a1 sp (trapframe_set i tf_a0 n s2)) = Inr s5"
    "heap_ready s5" "hwf (heap_st s5)" "uvm_ok hwf live s5 uv" "uvm_pages s5 uv \<inter> live (heap_st s) = {}"
    "k_table s5 = (k_table s)[i := ?p\<lparr>p_pagetable := uv\<rparr>]" "touches live (slot_pages s ?p) s s5" "?tf \<in> live (heap_st s5)"
    "\<forall>va. in_range (uvm_begin uv) (unat (uvm_size uv)) va \<longrightarrow> user_view s5 uv va = user_view s2 uv va"
    "\<forall>f. trapframe_get i f s5 = (if f = tf_a1 then sp else if f = tf_a0 then n else trapframe_get i f s)"
    by (rule exec_exchange [OF P i f])
  have al: "page_aligned ?tf" using live_pages [OF procs_okD(2) [OF P]] S(2) by blast
  have tf5: "p_trapframe (k_table s5 ! i) = ?tf" "page_aligned (p_trapframe (k_table s5 ! i))" using e(6) i al by simp_all
  have out5: "?tf \<notin> uvm_pages s5 uv" using e(5) S(2) by blast
  define s' where "s' = trapframe_set i epc USER_START (trapframe_set i tf_sp sp s5)"
  note new = two_registers [OF e(4) tf5(2) _ s'_def, unfolded tf5(1), OF out5]
  have tab: "k_table s' = (k_table s)[i := ?p\<lparr>p_pagetable := uv\<rparr>]" "heap_st s' = heap_st s5" "heap_ready s'"
    using e(2,6) by (simp_all add: s'_def)
  have t: "touches live (slot_pages s ?p) s s'" by (rule touches_trans [OF e(7) new(1)]) (auto simp: slot_pages_def)
  have slot: "slot_ok hwf live s' (?p\<lparr>p_pagetable := uv\<rparr>)" using new(2,4) out5 e(8) tab(2) S(5) by (simp add: slot_ok_def)
  have "slot_pages s' (?p\<lparr>p_pagetable := uv\<rparr>) \<inter> live (heap_st s) \<subseteq> slot_pages s ?p"
    using new(4) e(5) by (auto simp: slot_pages_def)
  from procs_ok_replace [OF P i t tab(1) slot this tab(3)] have procs: "procs_ok hwf live s'" using e(3) tab(2) by simp
  have regs: "\<forall>f. trapframe_get i f s' = (if f = epc then USER_START else if f = tf_sp \<or> f = tf_a1 then sp else if f = tf_a0 then n
      else trapframe_get i f s)"
    using e(10) tf_get_set [OF page_aligned_imp_word_aligned [OF al]] tf5(1)
    by (simp add: s'_def trapframe_set_def trapframe_get_def)
  show thesis by (rule that [OF e(1) s'_def procs tab(1) t _ regs]) (use e(9) new(5) in simp)
qed

text \<open>Everything up to the exchange: the new address space and the arguments on its stack.\<close>

lemma exec_build_ok:
  assumes h: "heap_ready s" "hwf (heap_st s)" and tf: "p_trapframe (k_table s ! i) \<in> live (heap_st s)"
    and tr: "page_aligned (sym_trampoline E)" "unat (sym_trampoline E) + 4096 < 2 ^ 32"
    and N: "N = (unat len + 4095) div 4096" "0 < len" "tos = unat USER_START + 4096 * N + 8192" "tos \<le> unat TRAPFRAME"
    and img: "\<And>k h. k < 4096 * N \<Longrightarrow> hwf h \<Longrightarrow> page_of (img + of_nat k) \<notin> live h"
    and fit: "tos + 4 * Suc (length argv) \<le> args_low tos argv + 4096" "argv = [] \<or> hd argv \<noteq> []"
    and sup: "takes E (5 + 2 * N) (heap_st s) \<noteq> None"
  obtains uv sp s' where "exec_build E i (img, len) argv s = Inr (Ok (uv, sp), s')" "fresh_uvm hwf live s uv s'"
    "uvm_begin uv = USER_START" "unat (uvm_size uv) = 4096 * N + 8192"
    "\<forall>k<unat len. user_view s' uv (USER_START + of_nat k) = Some (mem s (img + of_nat k))"
    "\<forall>va. in_range (USER_START + of_nat (4096 * N)) 4096 va \<longrightarrow> uvm_leaf s' uv va = None"
    "unat sp = args_low tos argv - 4 * Suc (length argv)" "args_seen s' uv tos argv sp"
proof -
  have le: "unat USER_START + 4096 * N + 8192 \<le> unat TRAPFRAME" using N(3,4) by simp
  obtain uv s1 where x: "\<forall>argv. exec_build E i (img, len) argv s = bind_ok (exec_stack E uv argv s1) (\<lambda>(r6, s7).
       case r6 of Err \<Rightarrow> bind_ok (exec_fail E uv s7) (\<lambda>(_, t). Inr (Err, t)) | Ok sp \<Rightarrow> Inr (Ok (uv, sp), s7))"
    "fresh_uvm hwf live s uv s1" "uvm_begin uv = USER_START" "unat (uvm_size uv) = 4096 * N + 8192"
    "\<forall>k<unat len. user_view s1 uv (USER_START + of_nat k) = Some (mem s (img + of_nat k))"
    "\<forall>va. in_range USER_START (4096 * N + 8192) va \<longrightarrow> unat USER_START + 4096 * N + 4096 \<le> unat va \<longrightarrow> uvm_leaf s1 uv va \<noteq> None"
    "\<forall>va. in_range (USER_START + of_nat (4096 * N)) 4096 va \<longrightarrow> uvm_leaf s1 uv va = None"
    by (rule exec_space [OF h tf tr N(1,2) le img sup])
  define base where "base = USER_START + of_nat (4096 * N + 4096)"
  have u: "unat (USER_START + of_nat j) = unat USER_START + j" if "j \<le> 4096 * N + 4096" for j
    using that le by (simp add: unat_word_ariths unat_of_nat USER_START_def TRAPFRAME_num)
  have b: "unat base = unat USER_START + 4096 * N + 4096" "unat base + 4096 = tos" using u [OF order_refl] N(3) unfolding base_def by linarith+
  have st: "stack_page s1 uv base" "0 < unat base" "unat base + 4096 = unat (uvm_begin uv) + unat (uvm_size uv)"
    "unat base + 4 * Suc (length argv) \<le> args_low (unat base + 4096) argv"
    using x(3,4,6) b fit(1) by (simp_all add: stack_page_def page_aligned_iff_dvd in_range_def USER_START_def)
  obtain sp s2 where a: "exec_stack E uv argv s1 = Inr (Ok sp, s2)" "unat sp = args_low tos argv - 4 * Suc (length argv)"
    "stack_write hwf live s1 uv (unat sp) tos s2" "args_seen s2 uv tos argv sp"
    using exec_stack_ok [OF fresh_uvmD(1) [OF x(2)] st fit(2), of E] unfolding b(2) by blast
  show thesis
  proof (rule that [OF _ fresh_stack_write [OF x(2) a(3)] x(3,4) _ _ a(2,4)])
    show "exec_build E i (img, len) argv s = Inr (Ok (uv, sp), s2)" using x(1) a(1) by simp
    show "\<forall>va. in_range (USER_START + of_nat (4096 * N)) 4096 va \<longrightarrow> uvm_leaf s2 uv va = None"
      using x(7) stack_writeD(4) [OF a(3)] by simp
    have "user_view s2 uv (USER_START + of_nat k) = user_view s1 uv (USER_START + of_nat k)" if "k < unat len" for k
    proof (rule stack_writeD(6) [OF a(3)])
      have k: "k < 4096 * N" using that N(1) by linarith
      then have v: "unat (USER_START + of_nat k) = unat USER_START + k" by (intro u) simp
      show "in_range (uvm_begin uv) (unat (uvm_size uv)) (USER_START + of_nat k)" using k x(3,4) unfolding in_range_def v by simp
      show "\<not> (unat sp \<le> unat (USER_START + of_nat k) \<and> unat (USER_START + of_nat k) < tos)" using k a(2) fit(1) N(3) unfolding v by linarith
    qed
    then show "\<forall>k<unat len. user_view s2 uv (USER_START + of_nat k) = Some (mem s (img + of_nat k))" using x(5) by simp
  qed
qed

end

end
