(* ===== verification/ExecProps.thy ===== *)
theory ExecProps
  imports ForkProps ExecArgs
begin

text \<open>The property of \<open>kexec\<close> that spans the images, the page tables and the trapframes.\<close>

section \<open>Evaluation of the path\<close>

lemma trim_init: "trim_end str_init = str_init"
proof -
  have "trim_rev (rev str_init) = rev str_init"
    by (subst trim_rev.simps) (simp add: str_init_def whitespace_def List.map_filter_def)
  then show ?thesis by (simp add: trim_end_def)
qed

section \<open>kexec\<close>

text \<open>What the new program sees is not affected by the exchange.\<close>

lemma exec_seen:
  assumes keep: "\<forall>va. in_range (uvm_begin uv) (unat (uvm_size uv)) va \<longrightarrow> user_view s' uv va = user_view s1 uv va"
    and uv: "uvm_begin uv = USER_START" "unat (uvm_size uv) = 4096 * N + 8192"
    and N: "N = (unat len + 4095) div 4096" and tos: "tos = unat USER_START + 4096 * N + 8192" "tos \<le> unat TRAPFRAME"
    and fit: "tos + 4 * Suc (length argv) \<le> args_low tos argv + 4096"
    and img: "\<forall>k<unat len. user_view s1 uv (USER_START + of_nat k) = Some (m (img + of_nat k))"
    and grd: "\<forall>va. in_range (USER_START + of_nat (4096 * N)) 4096 va \<longrightarrow> uvm_leaf s1 uv va = None"
    and sp: "unat sp = args_low tos argv - 4 * Suc (length argv)" "args_seen s1 uv tos argv sp"
  shows "\<forall>k<unat len. user_view s' uv (USER_START + of_nat k) = Some (m (img + of_nat k))"
    "\<forall>va. in_range (USER_START + of_nat (4096 * N)) 4096 va \<longrightarrow> user_view s' uv va = None"
    "args_seen s' uv tos argv sp"
proof -
  have bound: "tos < 2 ^ 32" using tos(2) by (simp add: TRAPFRAME_num)
  have view: "user_view s' uv va = user_view s1 uv va" if "unat USER_START \<le> unat va" "unat va < tos" for va
    using keep uv that tos(1) by (simp add: in_range_def)
  have u: "unat (USER_START + of_nat k) = unat USER_START + k" if "k \<le> 4096 * N" for k
    using that tos(1) bound by (simp add: unat_word_ariths unat_of_nat USER_START_def)
  have "user_view s' uv (USER_START + of_nat k) = user_view s1 uv (USER_START + of_nat k)" if "k < unat len" for k
    by (rule view) (use u [of k] that N tos(1) in linarith)+
  then show "\<forall>k<unat len. user_view s' uv (USER_START + of_nat k) = Some (m (img + of_nat k))" using img by simp
  have "user_view s' uv va = user_view s1 uv va" if "in_range (USER_START + of_nat (4096 * N)) 4096 va" for va
    by (rule view) (use that u [OF order_refl] tos(1) in \<open>simp_all only: in_range_def, linarith+\<close>)
  then show "\<forall>va. in_range (USER_START + of_nat (4096 * N)) 4096 va \<longrightarrow> user_view s' uv va = None"
    using grd by (simp add: user_view_def)
  have low: "unat USER_START \<le> unat sp" "0 < unat sp" using sp(1) tos(1) fit by (simp_all add: USER_START_def)
  show "args_seen s' uv tos argv sp"
    by (rule args_seen_cong [OF view sp(2) bound low(2) sp(1)]) (use low(1) in linarith)+
qed



end
