(* ===== verification/Spec2Isabelle.thy ===== *)
theory Spec2Isabelle
  imports ExecProps
begin

text \<open>
  Verification of a small RISC-V kernel written in Rust, \<open>src/kernel/src\<close>, for one hart of a
  riscv32 machine with Sv32 paging.

  \<^bold>\<open>The program.\<close> \<open>main.rs\<close> sets up the heap and paging, creates the kernel structure with a
  table of four processes, prepares the first process (the image \<open>INIT\<close>) and enters the
  scheduler. The scheduler (\<open>process.rs\<close>) dispatches a process by a context switch; the process
  returns to user mode through the trampoline (\<open>trap/trampoline.rs\<close>) and comes back by a trap,
  which \<open>trap.rs\<close> handles: a timer interrupt gives up the processor, a system call
  (\<open>kernel/syscall.rs\<close>) forks, executes an image, exits, waits or writes. Memory comes from a
  buddy heap behind a lock (\<open>allocator.rs\<close>, \<open>lock.rs\<close>); page tables, the kernel's and the users'
  address spaces and the copies between kernel and user memory are \<open>virtmemory.rs\<close>; output goes
  to a UART (\<open>uart.rs\<close>).

  \<^bold>\<open>The model.\<close> A kernel function is a HOL function from the state to a fault or a result with the
  next state (\<open>outcome\<close>); \<open>bind_ok\<close> composes them. Faults are panics, arithmetic overflow (the
  checks of the dev profile), a lock taken twice (\<open>Deadlock\<close>) and the exhaustion of the stack by
  recursion. The state is a record: \<open>machine\<close> (physical memory as bytes, CSRs, the timer
  register, the UART output, the heap and its lock, the \<open>Cpu\<close> structure) extended by \<open>kstate\<close>
  (the kernel lock, the process table, the next pid). \<open>usize\<close> and \<open>u32\<close> are 32-bit words. Page
  tables and trapframes live in memory, at the addresses and in the layout the code gives them.
  A function that calls \<open>sched\<close> is split at the call: the process keeps a \<open>cont\<close>, which says where
  it goes on when it is dispatched again.

  \<^item> \<open>Prelude\<close>: words, outcomes, checked arithmetic, page arithmetic, the locale
    \<open>invariant_system\<close>.
  \<^item> \<open>Csr\<close> (\<open>csr.rs\<close>, interrupt switches of \<open>trap.rs\<close>), \<open>Memory\<close> (the pointer primitives),
    \<open>Machine\<close> (constants of \<open>virtmemory.rs\<close>, \<open>Context\<close>, \<open>Cpu\<close>, the parameters).
  \<^item> \<open>Lock\<close> (\<open>lock.rs\<close>, the interrupt level of \<open>kernel.rs\<close>), \<open>Uart\<close> (\<open>uart.rs\<close>), \<open>Console\<close> (the
    macros of \<open>main.rs\<close> with the formatting they use), \<open>Allocator\<close> (\<open>allocator.rs\<close>).
  \<^item> \<open>Pte\<close> (entries, \<open>SATP\<close>, addresses), \<open>PageTable\<close> (\<open>impl PageTable\<close>), \<open>Uvm\<close> (\<open>Kvm\<close> and
    \<open>Uvm\<close>), \<open>UserCopy\<close> (\<open>copy_in\<close> to \<open>copy_out_cont\<close>), all of \<open>virtmemory.rs\<close>.
  \<^item> \<open>Process\<close> (\<open>process.rs\<close>, \<open>process/trapframe.rs\<close>, \<open>kernel.rs\<close>: the table and its operations),
    \<open>Sched\<close> (\<open>sched\<close>, \<open>yeld\<close>, \<open>sleep\<close>, \<open>kexit\<close>, \<open>kwait\<close>, \<open>scheduler\<close>), \<open>Exec\<close> (\<open>kfork\<close>,
    \<open>kexec\<close>), \<open>Trap\<close> (\<open>trap.rs\<close> and the system calls), \<open>Boot\<close> (\<open>main\<close>).
  \<^item> \<open>Asm\<close>: the instructions of \<open>uservec\<close>, \<open>userret\<close>, \<open>switch\<close> and \<open>kernelvec\<close>, and what they do
    to registers, CSRs and memory through the current page table.
  \<^item> \<open>System\<close>: the kernel as a transition system, \<open>kstep\<close>: a round of the scheduler, the
    resumption of a process, time in user mode (with the code of the trampoline on both ends, and
    any stores the page table permits in between), a trap.

  \<^bold>\<open>Parameters and contracts.\<close> What is not under \<open>src\<close> is a field of \<open>env\<close>: the \<open>spin\<close> mutex, the
  buddy heap, the linker symbols, the addresses of functions and the program images. The locale
  \<open>spin_crate\<close> says that a free mutex can be taken and a held one cannot; \<open>buddy_crate\<close> says what
  the heap promises for pages; \<open>platform\<close> is both, and \<open>page_supply\<close> adds that a page given
  back can be had again. They are interpreted on \<open>fl_env\<close>, a free-list
  heap, which the witnesses use. \<open>lock_cell\<close> is the interface of a lock inside the state; it is
  interpreted on the heap's lock, the kernel's, each process's and the local one of \<open>kexit\<close>, so
  that the lemmas on locking are proved once. \<open>invariant_system\<close> is interpreted on the abstract
  machine of processes and, through a sublocale, on the kernel itself.

  \<^bold>\<open>Specifications and what is proved.\<close>

  \<^item> Page tables. \<open>PageTableInv\<close> gives a table in memory its meaning, a function \<open>leaf\<close> from
    addresses to entries; \<open>PageTableSpec\<close> proves that \<open>map\<close> and \<open>unmap\<close> are updates of that
    function and touch no page outside the table; \<open>PageTableFree\<close> treats creation and release;
    \<open>Sv32\<close> is the translation of the architecture and shows that it agrees with \<open>leaf\<close>.
    \<open>PageTableProps\<close> states the results on the code and the hardware.
  \<^item> User address spaces. \<open>uvm_ok\<close> (\<open>UvmSpec\<close>) is the invariant: the table is well-formed, user
    entries lie in the user range, the pages behind them are handed out, distinct and no part of
    the table. \<open>UvmSpec\<close>, \<open>UvmClone\<close>, \<open>UvmFork\<close> and \<open>UserView\<close> show that every operation keeps it
    and what it does to the memory the user sees; \<open>UvmProps\<close> states the results. \<open>UvmLife\<close> puts
    the operations, the copies of the kernel and the stores of the process together as a step
    relation and proves isolation by rule induction. \<open>ProcMem\<close> gives every slot of the process
    table its pages (\<open>procs_ok\<close>: no page belongs to two) and bounds what an operation touches;
    \<open>ForkMem\<close> follows \<open>kfork\<close> through all its parts, and \<open>ForkProps\<close> states that it copies the
    process. \<open>ExecMem\<close> and \<open>ExecArgs\<close> do the same for \<open>kexec\<close>, its address space built from free
    pages only (\<open>fresh_uvm\<close>) and the arguments on its stack, and \<open>ExecProps\<close> states what the new
    program finds. \<open>served\<close> (\<open>Allocator\<close>) counts the pages an
    operation asks for, and shows that operations fail only for want of memory.
  \<^item> Processes. \<open>ProcAbs\<close> is the abstract machine of life cycles, with the invariant \<open>ainv\<close> (no
    lost wake-up, a tree of parents, one runner) and the argument for bounded waiting. \<open>MemFrame\<close>
    shows what memory operations leave alone; \<open>ProcSpec\<close>, \<open>SchedSpec\<close>, \<open>ProcRefine\<close>,
    \<open>WaitRefine\<close>, \<open>ForkRefine\<close>, \<open>TrapRefine\<close> and \<open>BootRefine\<close> prove that the kernel's operations,
    with their locks, implement its steps; \<open>System\<close> lifts this to whole runs from start-up, and
    \<open>SystemProps\<close> states the results.
  \<^item> Assembly. \<open>AsmProps\<close> computes what the routines do; \<open>KernelProps\<close> states the round trips of
    registers through the trampoline, the context switch and the kernel trap, and the properties
    of the return to user mode, preemption, console output, locks, kernel stacks,
    strings from user memory and failing forks.

  \<^bold>\<open>Bounds.\<close> All loops of the code are total functions: their measures are lengths of ranges or, for
  \<open>copy_in_str\<close> and the argument vector, the distance to the end of the address space, where the
  checked addition stops them. \<open>free_req\<close> recurses as deep as the table; it has a depth of 16,
  beyond which the kernel stack is taken to overflow. A well-formed table has two levels, and
  the proofs show that the bound is not reached there.

  \<^bold>\<open>Not modelled.\<close> The heap use of \<open>format!\<close>, \<open>Vec\<close> and \<open>String\<close>; the text of panic
  messages and the endless loop of the panic handler; \<open>debug!\<close>, which prints nothing because
  \<open>DEBUG\<close> is never set; interrupts while the kernel runs a system call with interrupts enabled,
  which \<open>kerneltrap\<close> handles (its code is modelled and its effect on the interrupted code is
  proved, but \<open>kstep\<close> does not interleave it); the contents of kernel stacks; instruction fetch,
  the TLB and the accessed and dirty bits; the build script; the user programs in C, which the
  kernel treats as images; code that is commented out.
\<close>

end
